(* ===== verification/Prelude.thy ===== *)
theory Prelude
  imports Main "HOL-Library.Word" "HOL-Library.Sublist"
begin

text \<open>
  Shared vocabulary of the development: machine integers, the result type of
  code that can abort, wrap-around time comparison (the macros of
  \<^verbatim>\<open>include/usfstl/sched.h\<close> and \<^verbatim>\<open>src/internal.h\<close>), and the "insert before the
  first item that should come later" loop that the scheduler, the main loop,
  the semaphores and the time controller all use.
\<close>

unbundle bit_operations_syntax

section \<open>Machine integers\<close>

type_synonym u8 = "8 word"
type_synonym u16 = "16 word"
type_synonym u32 = "32 word"
type_synonym u64 = "64 word"

lemma unat_ucast_u32 [simp]: "unat (ucast (r :: u32) :: u64) = unat r"
proof -
  have "unat r < 2 ^ 32"
    using unsigned_less [of r, where 'a = nat] by simp
  then show ?thesis
    by (simp add: unsigned_ucast_eq take_bit_nat_eq_self)
qed

section \<open>Results of code that can abort\<close>

text \<open>
  Every \<^verbatim>\<open>USFSTL_ASSERT\<close> failure ends in \<^verbatim>\<open>usfstl_abort\<close>, which does not return;
  the failed condition is kept as a tag. A call through a null pointer, an
  access outside an object or a division by zero is its own outcome, and a loop that has used up its
  fuel (it has not returned yet) is another one.
\<close>

datatype stop = Assertion string | NullDeref | OutOfBounds | DivByZero | OutOfFuel

type_synonym 'a res = "stop + 'a"

named_theorems res_simps \<open>inversion of the result combinators\<close>

definition bind_res :: "'e + 'a \<Rightarrow> ('a \<Rightarrow> 'e + 'b) \<Rightarrow> 'e + 'b" where
  "bind_res m f = (case m of Inl e \<Rightarrow> Inl e | Inr x \<Rightarrow> f x)"

text \<open>\<^verbatim>\<open>USFSTL_ASSERT(cond, ...)\<close> followed by the rest of the function.\<close>

definition usfstl_assert :: "bool \<Rightarrow> string \<Rightarrow> 'a res \<Rightarrow> 'a res" where
  "usfstl_assert c msg k = (if c then k else Inl (Assertion msg))"

lemma bind_res_simps [simp]:
  "bind_res (Inl e) f = Inl e"
  "bind_res (Inr x) f = f x"
  by (simp_all add: bind_res_def)

lemma bind_res_Inr_iff [res_simps]:
  "bind_res m f = Inr y \<longleftrightarrow> (\<exists>x. m = Inr x \<and> f x = Inr y)"
  by (cases m) auto

lemma bind_res_Inl_iff [res_simps]:
  "bind_res m f = Inl e \<longleftrightarrow> m = Inl e \<or> (\<exists>x. m = Inr x \<and> f x = Inl e)"
  by (cases m) auto

lemma bind_res_assoc:
  "bind_res (bind_res m f) g = bind_res m (\<lambda>x. bind_res (f x) g)"
  by (cases m) auto

lemma bind_res_cong [fundef_cong]:
  assumes "m = m'" and "\<And>x. m' = Inr x \<Longrightarrow> f x = f' x"
  shows "bind_res m f = bind_res m' f'"
  using assms by (cases m') auto

lemma usfstl_assert_True [simp]: "usfstl_assert True msg k = k"
  by (simp add: usfstl_assert_def)

lemma usfstl_assert_Inr_iff [res_simps]:
  "usfstl_assert c msg k = Inr y \<longleftrightarrow> c \<and> k = Inr y"
  by (simp add: usfstl_assert_def)

lemma usfstl_assert_cong [fundef_cong]:
  assumes "c = c'" and "c' \<Longrightarrow> k = k'"
  shows "usfstl_assert c msg k = usfstl_assert c' msg k'"
  using assms by (simp add: usfstl_assert_def)

text \<open>A result has returned normally and its value satisfies a predicate whenever it returns.\<close>

definition res_all :: "('a \<Rightarrow> bool) \<Rightarrow> 'a res \<Rightarrow> bool" where
  "res_all P m = (case m of Inl _ \<Rightarrow> True | Inr x \<Rightarrow> P x)"

lemma res_all_simps [simp]:
  "res_all P (Inl e)"
  "res_all P (Inr x) = P x"
  by (simp_all add: res_all_def)

lemma res_allI: "(\<And>x. m = Inr x \<Longrightarrow> P x) \<Longrightarrow> res_all P m"
  by (cases m) auto

lemma res_allD: "res_all P m \<Longrightarrow> m = Inr x \<Longrightarrow> P x"
  by auto

lemma res_all_bind:
  assumes "res_all P m" and "\<And>x. P x \<Longrightarrow> res_all Q (f x)"
  shows "res_all Q (bind_res m f)"
  using assms by (cases m) auto

lemma res_all_assert:
  assumes "c \<Longrightarrow> res_all P k"
  shows "res_all P (usfstl_assert c msg k)"
  using assms by (simp add: usfstl_assert_def)

lemma res_all_mono: "res_all P m \<Longrightarrow> (\<And>x. P x \<Longrightarrow> Q x) \<Longrightarrow> res_all Q m"
  by (cases m) auto

section \<open>Numbers as text\<close>

text \<open>The digits that \<^verbatim>\<open>printf\<close> writes for a number in a given base, most significant first.\<close>

definition digit_char :: "nat \<Rightarrow> char" where
  "digit_char d = (if d < 10 then char_of (48 + d) else char_of (87 + d))"

fun digits_of :: "nat \<Rightarrow> nat \<Rightarrow> nat \<Rightarrow> string" where
  "digits_of 0 b n = []"
| "digits_of (Suc k) b n = (if n < b then [digit_char n] else digits_of k b (n div b) @ [digit_char (n mod b)])"

text \<open>\<^verbatim>\<open>%u\<close>, \<^verbatim>\<open>%d\<close> and \<^verbatim>\<open>%08x\<close>; a number below \<open>2 ^ 64\<close> has at most 20 decimal digits.\<close>

definition show_nat :: "nat \<Rightarrow> string" where
  "show_nat n = digits_of 20 10 n"

definition show_int :: "int \<Rightarrow> string" where
  "show_int i = (if i < 0 then CHR ''-'' # show_nat (nat (- i)) else show_nat (nat i))"

definition show_hex8 :: "u32 \<Rightarrow> string" where
  "show_hex8 w = (let ds = digits_of 8 16 (unat w) in replicate (8 - length ds) CHR ''0'' @ ds)"

section \<open>Little-endian bytes\<close>

text \<open>The lowest \<open>n\<close> bytes of a number as they lie in memory, and back.\<close>

fun le_bytes :: "nat \<Rightarrow> nat \<Rightarrow> u8 list" where
  "le_bytes 0 v = []"
| "le_bytes (Suc n) v = of_nat (v mod 256) # le_bytes n (v div 256)"

fun of_le_bytes :: "u8 list \<Rightarrow> nat" where
  "of_le_bytes [] = 0"
| "of_le_bytes (b # bs) = unat b + 256 * of_le_bytes bs"

lemma length_le_bytes [simp]: "length (le_bytes n v) = n"
  by (induction n arbitrary: v) auto

lemma of_le_bytes_le_bytes [simp]: "of_le_bytes (le_bytes n v) = v mod 256 ^ n"
proof (induction n arbitrary: v)
  case (Suc n)
  have "unat (of_nat (v mod 256) :: u8) = v mod 256"
    by (simp add: unat_of_nat)
  then show ?case
    using Suc by (simp add: mod_mult2_eq)
qed simp

lemma of_le_bytes_less: "of_le_bytes bs < 256 ^ length bs"
proof (induction bs)
  case (Cons b bs)
  have "unat b < 256"
    using unsigned_less [of b, where 'a = nat] by simp
  with Cons show ?case by simp
qed simp

section \<open>Wrap-around time\<close>

text \<open>
  \<^verbatim>\<open>usfstl_time_cmp(a, op, b)\<close> is \<^verbatim>\<open>0 op (int64_t)((b) - (a))\<close>: the unsigned
  difference wraps and is read as a signed number.
\<close>

definition usfstl_time_cmp :: "u64 \<Rightarrow> (int \<Rightarrow> int \<Rightarrow> bool) \<Rightarrow> u64 \<Rightarrow> bool" where
  "usfstl_time_cmp a cmp b = cmp 0 (sint (b - a))"

text \<open>\<^verbatim>\<open>DIV_ROUND_UP(a, b)\<close> on 64-bit values: \<^verbatim>\<open>(a + b - 1) / b\<close>, the sum wraps.\<close>

definition DIV_ROUND_UP :: "u64 \<Rightarrow> u64 \<Rightarrow> u64" where
  "DIV_ROUND_UP a b = (a + b - 1) div b"

lemma unat_DIV_ROUND_UP:
  assumes "b \<noteq> 0" and "unat a + unat b \<le> 2 ^ 64"
  shows "unat (DIV_ROUND_UP a b) = (unat a + unat b - 1) div unat b"
proof -
  have "1 \<le> unat b"
    using assms(1) by (simp add: Suc_le_eq unat_gt_0)
  then have "unat (b - 1) = unat b - 1"
    by (simp add: unat_minus_one assms(1))
  then have "unat (a + (b - 1)) = unat a + (unat b - 1)"
    using assms(2) \<open>1 \<le> unat b\<close> by (subst unat_add_lem [THEN iffD1]) auto
  moreover have "a + b - 1 = a + (b - 1)"
    by simp
  ultimately show ?thesis
    using \<open>1 \<le> unat b\<close> by (simp only: DIV_ROUND_UP_def unat_div) simp
qed

lemma ratio_nonzero: "(r :: u32) \<noteq> 0 \<Longrightarrow> (ucast r :: u64) \<noteq> 0"
  by (metis unat_ucast_u32 unat_eq_0)

lemma DIV_ROUND_UP_exact:
  assumes "r \<noteq> 0" and "unat r * (unat t + 1) \<le> 2 ^ 64"
  shows "DIV_ROUND_UP (r * t) r = t"
proof -
  have r: "1 \<le> unat r"
    using assms(1) by (simp add: Suc_le_eq unat_gt_0)
  have "unat r * unat t < 2 ^ 64"
    using assms(2) r by simp
  then have m: "unat (r * t) = unat r * unat t"
    by (subst unat_mult_lem [THEN iffD1]) auto
  have "(unat r * unat t + unat r - 1) div unat r = unat t"
  proof -
    have "unat r * unat t + unat r - 1 = (unat r - 1) + unat r * unat t"
      using r by simp
    also have "\<dots> div unat r = unat t"
      using r by (subst div_mult_self2) auto
    finally show ?thesis .
  qed
  then have "unat (DIV_ROUND_UP (r * t) r) = unat t"
    using assms m by (subst unat_DIV_ROUND_UP) auto
  then show ?thesis
    by (simp only: word_unat_eq_iff)
qed

text \<open>
  How far a time lies after a reference time, modulo the clock period. Inside a
  window of half the period after a common reference, the wrap-around
  comparison is the comparison of these distances.
\<close>

definition ahead :: "u64 \<Rightarrow> u64 \<Rightarrow> nat" where
  "ahead now t = unat (t - now)"

definition in_window :: "u64 \<Rightarrow> u64 \<Rightarrow> bool" where
  "in_window now t \<longleftrightarrow> ahead now t < 2 ^ 63"

lemma sint_eq_uint_small: "uint (p :: u64) < 2 ^ 63 \<Longrightarrow> sint p = uint p"
proof -
  assume "uint p < 2 ^ 63"
  moreover have "0 \<le> uint p" by simp
  ultimately have "signed_take_bit 63 (uint p) = uint p"
    by (intro signed_take_bit_int_eq_self) linarith+
  then show ?thesis by (simp add: sint_uint)
qed

lemma sint_u64_cases: "sint (w :: u64) = (if uint w < 2 ^ 63 then uint w else uint w - 2 ^ 64)"
proof (cases "uint w < 2 ^ 63")
  case True
  then show ?thesis by (simp add: sint_eq_uint_small)
next
  case False
  have "(uint w + 2 ^ 63) mod 2 ^ 64 = uint w + 2 ^ 63 - 2 ^ 64"
    using False uint_lt2p [of w] by (intro int_mod_pos_eq [where q = 1]) auto
  then show ?thesis
    using False by (simp add: sint_uint signed_take_bit_eq_take_bit_shift take_bit_eq_mod)
qed

lemma sint_diff_small:
  fixes p q :: u64
  assumes "uint p < 2 ^ 63" and "uint q < 2 ^ 63"
  shows "sint (q - p) = uint q - uint p"
proof -
  have "0 \<le> uint p" "0 \<le> uint q" by simp_all
  then have "signed_take_bit 63 (uint q - uint p) = uint q - uint p"
    using assms by (intro signed_take_bit_int_eq_self) linarith+
  moreover have "sint (q - p) = signed_take_bit 63 (sint q - sint p)"
    by (simp add: sint_word_ariths)
  ultimately show ?thesis
    using assms by (simp add: sint_eq_uint_small)
qed

lemma uint_ahead: "uint (t - now) = int (ahead now t)"
  by (simp add: ahead_def)

lemma sint_diff_ahead:
  assumes "in_window now a" and "in_window now b"
  shows "sint (b - a) = int (ahead now b) - int (ahead now a)"
proof -
  have "sint ((b - now) - (a - now)) = uint (b - now) - uint (a - now)"
    using assms by (intro sint_diff_small) (simp_all add: in_window_def uint_ahead)
  moreover have "(b - now) - (a - now) = b - a"
    by simp
  ultimately show ?thesis
    by (simp only: uint_ahead)
qed

lemma time_cmp_window:
  assumes "in_window now a" and "in_window now b"
  shows "usfstl_time_cmp a (<) b \<longleftrightarrow> ahead now a < ahead now b"
    and "usfstl_time_cmp a (>) b \<longleftrightarrow> ahead now b < ahead now a"
    and "usfstl_time_cmp a (\<le>) b \<longleftrightarrow> ahead now a \<le> ahead now b"
    and "usfstl_time_cmp a (\<ge>) b \<longleftrightarrow> ahead now b \<le> ahead now a"
    and "usfstl_time_cmp a (=) b \<longleftrightarrow> ahead now a = ahead now b"
  using sint_diff_ahead [OF assms] by (auto simp: usfstl_time_cmp_def)

lemma ahead_self [simp]: "ahead now now = 0"
  by (simp add: ahead_def)

lemma in_window_self [simp]: "in_window now now"
  by (simp add: in_window_def)

lemma ahead_inj: "ahead now a = ahead now b \<longleftrightarrow> a = b"
  by (simp add: ahead_def word_unat_eq_iff [symmetric])

lemma time_cmp_eq [simp]: "usfstl_time_cmp a (=) b \<longleftrightarrow> a = b"
proof -
  have "sint (b - a) = 0 \<longleftrightarrow> b - a = 0"
    using signed_eq_0_iff [of "b - a"] by simp
  then show ?thesis
    by (auto simp: usfstl_time_cmp_def)
qed

lemma time_cmp_refl [simp]:
  "usfstl_time_cmp a (\<le>) a" "usfstl_time_cmp a (\<ge>) a"
  "\<not> usfstl_time_cmp a (<) a" "\<not> usfstl_time_cmp a (>) a"
  by (simp_all add: usfstl_time_cmp_def)

text \<open>Moving the reference forward, up to a time not after \<open>t\<close>, shortens the distance.\<close>

lemma ahead_forward:
  assumes "ahead now u \<le> ahead now t"
  shows "ahead u t = ahead now t - ahead now u"
proof -
  have "u - now \<le> t - now"
    using assms by (simp only: ahead_def word_le_nat_alt)
  then have "unat ((t - now) - (u - now)) = unat (t - now) - unat (u - now)"
    by (rule unat_sub)
  moreover have "(t - now) - (u - now) = t - u"
    by simp
  ultimately show ?thesis
    by (simp only: ahead_def)
qed

lemma in_window_forward:
  "in_window now t \<Longrightarrow> ahead now u \<le> ahead now t \<Longrightarrow> in_window u t"
  using ahead_forward [of now u t] by (simp add: in_window_def)

text \<open>What the signed comparisons say about the distance, including the half-period edge.\<close>

lemma int_ahead: "int (ahead now t) = (if uint now \<le> uint t then uint t - uint now else uint t - uint now + 2 ^ 64)"
  by (simp add: ahead_def uint_sub_if')

lemma len64: "LENGTH(64) = 64"
  by simp

lemma half_arith:
  fixes a b :: int
  assumes "a < 2 ^ 64" "b < 2 ^ 64" "0 \<le> a" "0 \<le> b"
  shows "((if (if b \<le> a then a - b else a - b + 2 ^ 64) < 2 ^ 63
      then if b \<le> a then a - b else a - b + 2 ^ 64
      else (if b \<le> a then a - b else a - b + 2 ^ 64) - 2 ^ 64) \<le> 0)
    = ((if a \<le> b then b - a else b - a + 2 ^ 64) \<le> 2 ^ 63)"
  using assms by (simp split: if_split)

lemma sint_minus_ahead: "sint (now - t) \<le> 0 \<longleftrightarrow> ahead now t \<le> 2 ^ 63"
proof -
  have b: "uint now < 2 ^ 64" "uint t < 2 ^ 64" "0 \<le> uint now" "0 \<le> uint t"
    using uint_lt2p [of now] uint_lt2p [of t] by simp_all
  have "sint (now - t) \<le> 0 \<longleftrightarrow> int (ahead now t) \<le> 2 ^ 63"
    using half_arith [OF b] by (simp only: sint_u64_cases uint_sub_if' int_ahead len64)
  then show ?thesis
    by simp
qed

lemma time_ge_now_iff: "usfstl_time_cmp t (\<ge>) now \<longleftrightarrow> ahead now t \<le> 2 ^ 63"
  by (simp add: usfstl_time_cmp_def sint_minus_ahead)

lemma time_lt_now_iff: "usfstl_time_cmp t (<) now \<longleftrightarrow> 2 ^ 63 < ahead now t"
  unfolding usfstl_time_cmp_def using sint_minus_ahead [of now t] by linarith

lemma time_ge_in_window:
  "usfstl_time_cmp t (\<ge>) now \<Longrightarrow> t - now \<noteq> 2 ^ 63 \<Longrightarrow> in_window now t"
proof -
  assume a: "usfstl_time_cmp t (\<ge>) now" and n: "t - now \<noteq> 2 ^ 63"
  have "ahead now t \<noteq> 2 ^ 63"
  proof
    assume "ahead now t = 2 ^ 63"
    then have "unat (t - now) = unat (2 ^ 63 :: u64)"
      by (simp add: ahead_def)
    then show False
      using n by (simp only: word_unat_eq_iff [symmetric])
  qed
  with a show ?thesis
    by (simp add: time_ge_now_iff in_window_def)
qed

lemma not_lt_in_window:
  "\<not> usfstl_time_cmp t (<) now \<Longrightarrow> t - now \<noteq> 2 ^ 63 \<Longrightarrow> in_window now t"
  by (rule time_ge_in_window) (simp_all add: time_lt_now_iff time_ge_now_iff)

lemma in_window_not_half: "in_window now t \<Longrightarrow> t - now \<noteq> 2 ^ 63"
  by (auto simp: in_window_def ahead_def)

lemma sint_half_neg:
  fixes x :: u64
  assumes "uint x < 2 ^ 63"
  shows "sint (x - 0x8000000000000000) < 0"
proof -
  have "uint (x - 0x8000000000000000) = uint x - 2 ^ 63 + 2 ^ 64"
    using assms uint_sub_if' [of x "0x8000000000000000"] by simp
  then show ?thesis
    using assms by (simp add: sint_u64_cases)
qed

lemma time_le_window:
  assumes "in_window now f" and "ahead now t \<le> 2 ^ 63" and "usfstl_time_cmp t (\<le>) f"
  shows "in_window now t"
proof (rule ccontr)
  assume "\<not> in_window now t"
  then have "ahead now t = 2 ^ 63"
    using assms(2) by (simp add: in_window_def)
  then have "unat (t - now) = unat (0x8000000000000000 :: u64)"
    by (simp add: ahead_def)
  then have "t - now = 0x8000000000000000"
    by (simp only: word_unat_eq_iff)
  then have eq: "f - t = (f - now) - 0x8000000000000000"
    by (simp add: algebra_simps)
  have "uint (f - now) < 2 ^ 63"
    using assms(1) by (simp add: uint_ahead in_window_def)
  from sint_half_neg [OF this] have "sint (f - t) < 0"
    by (simp only: eq)
  then show False
    using assms(3) by (simp add: usfstl_time_cmp_def)
qed

section \<open>Queues kept in order by insertion\<close>

text \<open>
  The loop \<^verbatim>\<open>for each item: if (stop(item)) break\<close> followed by \<^verbatim>\<open>append\<close> when no
  item was found and \<^verbatim>\<open>insert_before\<close> otherwise.
\<close>

fun insert_before_first :: "('a \<Rightarrow> bool) \<Rightarrow> 'a \<Rightarrow> 'a list \<Rightarrow> 'a list" where
  "insert_before_first stop x [] = [x]"
| "insert_before_first stop x (y # ys) =
     (if stop y then x # y # ys else y # insert_before_first stop x ys)"

lemma insert_before_first_split:
  "insert_before_first stop x ys =
     takeWhile (\<lambda>y. \<not> stop y) ys @ x # dropWhile (\<lambda>y. \<not> stop y) ys"
  by (induction ys) auto

lemma set_insert_before_first [simp]: "set (insert_before_first stop x ys) = insert x (set ys)"
  by (induction ys) auto

lemma length_insert_before_first [simp]: "length (insert_before_first stop x ys) = Suc (length ys)"
  by (induction ys) auto

lemma distinct_insert_before_first [simp]:
  "distinct (insert_before_first stop x ys) \<longleftrightarrow> x \<notin> set ys \<and> distinct ys"
  by (induction ys) auto

lemma remove1_insert_before_first [simp]:
  "x \<notin> set ys \<Longrightarrow> remove1 x (insert_before_first stop x ys) = ys"
  by (induction ys) auto

lemma insert_before_first_cong:
  "(\<And>y. y \<in> set ys \<Longrightarrow> stop y = stop' y) \<Longrightarrow>
     insert_before_first stop x ys = insert_before_first stop' x ys"
  by (induction ys) auto

text \<open>
  The contract of such a queue: \<open>le a b\<close> says that \<open>a\<close> may stand before \<open>b\<close>,
  and \<open>stop x y\<close> is the code's test that ends the search for the place of \<open>x\<close>
  at \<open>y\<close>. Only items that satisfy \<open>ok\<close> are compared.
\<close>

locale insertion_queue =
  fixes le :: "'a \<Rightarrow> 'a \<Rightarrow> bool"
    and stop :: "'a \<Rightarrow> 'a \<Rightarrow> bool"
    and ok :: "'a \<Rightarrow> bool"
  assumes le_trans: "le a b \<Longrightarrow> le b c \<Longrightarrow> le a c"
    and stop_le: "ok x \<Longrightarrow> ok y \<Longrightarrow> stop x y \<Longrightarrow> le x y"
    and not_stop_le: "ok x \<Longrightarrow> ok y \<Longrightarrow> \<not> stop x y \<Longrightarrow> le y x"
begin

lemma insert_sorted:
  assumes "sorted_wrt le ys" and "\<forall>y \<in> set ys. ok y" and "ok x"
  shows "sorted_wrt le (insert_before_first (stop x) x ys)"
  using assms
proof (induction ys)
  case (Cons y ys)
  then show ?case
    by (auto intro: stop_le not_stop_le le_trans)
qed simp

end

text \<open>When the search passes every item of equal rank, equal items stay in arrival order.\<close>

locale fifo_queue = insertion_queue +
  assumes stop_strict: "ok x \<Longrightarrow> ok y \<Longrightarrow> stop x y \<Longrightarrow> \<not> le y x"
begin

lemma stop_iff: "ok x \<Longrightarrow> ok y \<Longrightarrow> stop x y \<longleftrightarrow> \<not> le y x"
  using stop_strict not_stop_le by blast

lemma insert_fifo:
  assumes "sorted_wrt le ys" and "\<forall>y \<in> set ys. ok y" and "ok x"
  shows "insert_before_first (stop x) x ys
    = filter (\<lambda>y. le y x) ys @ x # filter (\<lambda>y. \<not> le y x) ys"
  using assms
proof (induction ys)
  case (Cons y ys)
  show ?case
  proof (cases "stop x y")
    case True
    with Cons.prems have "\<not> le z x" if "z \<in> set (y # ys)" for z
      using that le_trans stop_strict [of x y] by auto
    then have "filter (\<lambda>z. le z x) (y # ys) = []" and "filter (\<lambda>z. \<not> le z x) (y # ys) = y # ys"
      by (auto simp: filter_empty_conv filter_id_conv)
    with True show ?thesis
      by (simp only: insert_before_first.simps if_True append_Nil)
  next
    case False
    with Cons show ?thesis
      by (simp add: stop_iff)
  qed
qed simp

end

text \<open>The item after a given one, as \<^verbatim>\<open>usfstl_next_item\<close> finds it through the entry.\<close>

fun next_item :: "'a list \<Rightarrow> 'a \<Rightarrow> 'a option" where
  "next_item [] x = None"
| "next_item [y] x = None"
| "next_item (y # z # zs) x = (if y = x then Some z else next_item (z # zs) x)"

definition first_item :: "'a list \<Rightarrow> 'a option" where
  "first_item xs = (case xs of [] \<Rightarrow> None | x # _ \<Rightarrow> Some x)"

lemma first_item_simps [simp]:
  "first_item [] = None"
  "first_item (x # xs) = Some x"
  by (simp_all add: first_item_def)

lemma first_item_None_iff [simp]: "first_item xs = None \<longleftrightarrow> xs = []"
  by (simp add: first_item_def split: list.split)

lemma first_item_Some_iff: "first_item xs = Some x \<longleftrightarrow> (\<exists>ys. xs = x # ys)"
  by (auto simp: first_item_def split: list.split)

lemma next_item_append:
  "x \<notin> set xs \<Longrightarrow> next_item (xs @ x # ys) x = first_item ys"
proof (induction xs)
  case Nil
  then show ?case by (cases ys) auto
next
  case (Cons z zs)
  then show ?case by (cases zs) auto
qed

lemma find_unique:
  "(\<And>x. x \<in> set xs \<Longrightarrow> P x \<longleftrightarrow> x = a) \<Longrightarrow> a \<in> set xs \<Longrightarrow> find P xs = Some a"
  by (induction xs) auto

end
