(* ===== verification/Lists.thy ===== *)
theory Lists
  imports Prelude
begin

text \<open>
  The intrusive doubly linked lists of \<^verbatim>\<open>include/usfstl/list.h\<close> on an explicit
  store of list entries. A list head and the entries embedded in other
  structures are all objects at addresses; address 0 is \<^verbatim>\<open>NULL\<close> and holds no
  object, so a dereference of it (or of any address without an object) is
  \<^term>\<open>NullDeref\<close>. The lemmas show that the pointer operations implement
  operations on a plain sequence of entries, which is the view the other
  theories take; the locale \<open>intrusive_list\<close> is that interface.
\<close>

section \<open>Entries, heads and the store\<close>

type_synonym addr = nat

record usfstl_list_entry =
  entry_next :: addr
  entry_prev :: addr

type_synonym entry_store = "addr \<rightharpoonup> usfstl_list_entry"

definition load_entry :: "entry_store \<Rightarrow> addr \<Rightarrow> usfstl_list_entry res" where
  "load_entry h a = (case h a of None \<Rightarrow> Inl NullDeref | Some e \<Rightarrow> Inr e)"

definition store_next :: "entry_store \<Rightarrow> addr \<Rightarrow> addr \<Rightarrow> entry_store res" where
  "store_next h a v = bind_res (load_entry h a) (\<lambda>e. Inr (h(a \<mapsto> e\<lparr>entry_next := v\<rparr>)))"

definition store_prev :: "entry_store \<Rightarrow> addr \<Rightarrow> addr \<Rightarrow> entry_store res" where
  "store_prev h a v = bind_res (load_entry h a) (\<lambda>e. Inr (h(a \<mapsto> e\<lparr>entry_prev := v\<rparr>)))"

section \<open>The operations of list.h\<close>

definition usfstl_list_init :: "entry_store \<Rightarrow> addr \<Rightarrow> entry_store res" where
  "usfstl_list_init h l =
     bind_res (store_next h l l) (\<lambda>h.
     store_prev h l l)"

definition usfstl_list_insert_before :: "entry_store \<Rightarrow> addr \<Rightarrow> addr \<Rightarrow> entry_store res" where
  "usfstl_list_insert_before h existing new =
     bind_res (load_entry h existing) (\<lambda>e.
     bind_res (store_prev h new (entry_prev e)) (\<lambda>h.
     bind_res (load_entry h existing) (\<lambda>e.
     bind_res (store_next h (entry_prev e) new) (\<lambda>h.
     bind_res (store_prev h existing new) (\<lambda>h.
     store_next h new existing)))))"

definition usfstl_list_append :: "entry_store \<Rightarrow> addr \<Rightarrow> addr \<Rightarrow> entry_store res" where
  "usfstl_list_append h l new = usfstl_list_insert_before h l new"

definition usfstl_list_empty :: "entry_store \<Rightarrow> addr \<Rightarrow> bool res" where
  "usfstl_list_empty h l = bind_res (load_entry h l) (\<lambda>e. Inr (entry_next e = l))"

definition usfstl_list_first_item :: "entry_store \<Rightarrow> addr \<Rightarrow> addr option res" where
  "usfstl_list_first_item h l =
     bind_res (usfstl_list_empty h l) (\<lambda>empty.
     if empty then Inr None
     else bind_res (load_entry h l) (\<lambda>e. Inr (Some (entry_next e))))"

definition usfstl_next_item :: "entry_store \<Rightarrow> addr \<Rightarrow> addr \<Rightarrow> addr option res" where
  "usfstl_next_item h l entry =
     bind_res (load_entry h entry) (\<lambda>e.
     Inr (if entry_next e \<noteq> l then Some (entry_next e) else None))"

definition usfstl_list_item_remove :: "entry_store \<Rightarrow> addr \<Rightarrow> entry_store res" where
  "usfstl_list_item_remove h entry =
     bind_res (load_entry h entry) (\<lambda>e.
     bind_res (store_prev h (entry_next e) (entry_prev e)) (\<lambda>h.
     bind_res (load_entry h entry) (\<lambda>e.
     bind_res (store_next h (entry_prev e) (entry_next e)) (\<lambda>h.
     bind_res (store_next h entry 0) (\<lambda>h.
     store_prev h entry 0)))))"

fun list_length_loop :: "nat \<Rightarrow> entry_store \<Rightarrow> addr \<Rightarrow> addr \<Rightarrow> u32 \<Rightarrow> u32 res" where
  "list_length_loop 0 h l item count = Inl OutOfFuel"
| "list_length_loop (Suc n) h l item count =
     (if item = l then Inr count
      else bind_res (load_entry h item) (\<lambda>e.
           list_length_loop n h l (entry_next e) (count + 1)))"

definition usfstl_list_length :: "nat \<Rightarrow> entry_store \<Rightarrow> addr \<Rightarrow> u32 res" where
  "usfstl_list_length fuel h l =
     bind_res (load_entry h l) (\<lambda>e. list_length_loop fuel h l (entry_next e) 0)"

text \<open>
  \<^verbatim>\<open>usfstl_for_each_list_item(tmp, list, member) if (stop) break;\<close>: the item at
  which the loop is left, or \<^term>\<open>None\<close> when it runs to the end. The function
  that finds the next item is an argument.
\<close>

fun for_each_until :: "('a \<Rightarrow> 'a option res) \<Rightarrow> nat \<Rightarrow> ('a \<Rightarrow> bool) \<Rightarrow> 'a option \<Rightarrow> 'a option res" where
  "for_each_until nxt fuel stop None = Inr None"
| "for_each_until nxt 0 stop (Some a) = Inl OutOfFuel"
| "for_each_until nxt (Suc n) stop (Some a) =
     (if stop a then Inr (Some a)
      else bind_res (nxt a) (for_each_until nxt n stop))"

text \<open>The search followed by \<^verbatim>\<open>append\<close> or \<^verbatim>\<open>insert_before\<close>, as every ordered list does it.\<close>

definition list_insert_ordered :: "nat \<Rightarrow> entry_store \<Rightarrow> addr \<Rightarrow> (addr \<Rightarrow> bool) \<Rightarrow> addr \<Rightarrow> entry_store res" where
  "list_insert_ordered fuel h l stop new =
     bind_res (usfstl_list_first_item h l) (\<lambda>first.
     bind_res (for_each_until (usfstl_next_item h l) fuel stop first) (\<lambda>tmp.
     case tmp of None \<Rightarrow> usfstl_list_append h l new
     | Some t \<Rightarrow> usfstl_list_insert_before h t new))"

text \<open>
  \<^verbatim>\<open>usfstl_for_each_list_item_safe\<close> (and \<^verbatim>\<open>..._continue_safe\<close> started at \<^verbatim>\<open>NULL\<close>):
  the following item is fetched before the body runs, and the one after it from
  the list as the body left it.
\<close>

fun for_each_safe :: "('s \<Rightarrow> 'a \<Rightarrow> 'a option) \<Rightarrow> nat \<Rightarrow> ('a \<Rightarrow> 's \<Rightarrow> 's res) \<Rightarrow>
    'a option \<Rightarrow> 'a option \<Rightarrow> 's \<Rightarrow> 's res" where
  "for_each_safe nxt fuel body None next s = Inr s"
| "for_each_safe nxt 0 body (Some a) next s = Inl OutOfFuel"
| "for_each_safe nxt (Suc n) body (Some a) next s =
     bind_res (body a s) (\<lambda>s.
     for_each_safe nxt n body next (case next of None \<Rightarrow> None | Some b \<Rightarrow> nxt s b) s)"

text \<open>The same body run over a fixed sequence of items.\<close>

fun fold_res :: "('a \<Rightarrow> 's \<Rightarrow> 's res) \<Rightarrow> 'a list \<Rightarrow> 's \<Rightarrow> 's res" where
  "fold_res f [] s = Inr s"
| "fold_res f (x # xs) s = bind_res (f x s) (fold_res f xs)"

text \<open>
  When the body takes at most its own item off the list that is walked (and
  leaves what follows it alone), the safe iteration visits exactly the items
  that were on the list at its start.
\<close>

lemma for_each_safe_eq_fold:
  assumes step: "\<And>a s s' pre post. J s \<Longrightarrow> distinct (L s) \<Longrightarrow> L s = pre @ a # post \<Longrightarrow>
      body a s = Inr s' \<Longrightarrow> J s' \<and> distinct (L s') \<and> (\<exists>pre'. L s' = pre' @ post)"
    and "J s" and "distinct (L s)" and "L s = pre @ xs" and "length xs \<le> fuel"
  shows "for_each_safe (\<lambda>s. next_item (L s)) fuel body (first_item xs) (first_item (tl xs)) s
    = fold_res body xs s"
  using assms(2-)
proof (induction xs arbitrary: s pre fuel)
  case (Cons a ys)
  then obtain n where n: "fuel = Suc n" "length ys \<le> n"
    by (cases fuel) auto
  show ?case
  proof (cases "body a s")
    case (Inr s')
    with step Cons.prems obtain pre' where s': "J s'" "distinct (L s')" "L s' = pre' @ ys"
      by blast
    have "(case first_item ys of None \<Rightarrow> None | Some b \<Rightarrow> next_item (L s') b) = first_item (tl ys)"
      using s'(2,3) by (cases ys) (simp_all add: next_item_append)
    then show ?thesis
      using Cons.IH [OF s' n(2)] Inr n(1) by simp
  qed (simp add: n)
qed simp

section \<open>The represented sequence\<close>

definition next_of :: "entry_store \<Rightarrow> addr \<Rightarrow> addr option" where
  "next_of h a = map_option entry_next (h a)"

definition prev_of :: "entry_store \<Rightarrow> addr \<Rightarrow> addr option" where
  "prev_of h a = map_option entry_prev (h a)"

definition linked :: "entry_store \<Rightarrow> addr \<Rightarrow> addr \<Rightarrow> bool" where
  "linked h a b \<longleftrightarrow> next_of h a = Some b \<and> prev_of h b = Some a"

definition dlist :: "entry_store \<Rightarrow> addr \<Rightarrow> addr list \<Rightarrow> bool" where
  "dlist h l xs \<longleftrightarrow> distinct (l # xs) \<and> 0 \<notin> set (l # xs)
     \<and> successively (linked h) (l # xs @ [l])"

text \<open>An entry on no list: \<^verbatim>\<open>usfstl_list_item_remove\<close> and \<^verbatim>\<open>memset\<close> leave it like this.\<close>

definition off_list :: "entry_store \<Rightarrow> addr \<Rightarrow> bool" where
  "off_list h a \<longleftrightarrow> h a = Some \<lparr>entry_next = 0, entry_prev = 0\<rparr> \<and> a \<noteq> 0"

named_theorems store_simps \<open>effect of the store accesses\<close>

lemma load_entry_Some [store_simps]: "h a = Some e \<Longrightarrow> load_entry h a = Inr e"
  by (simp add: load_entry_def)

lemma load_entry_None [store_simps]: "h a = None \<Longrightarrow> load_entry h a = Inl NullDeref"
  by (simp add: load_entry_def)

lemma store_next_Some [store_simps]:
  "h a = Some e \<Longrightarrow> store_next h a v = Inr (h(a \<mapsto> e\<lparr>entry_next := v\<rparr>))"
  by (simp add: store_next_def load_entry_def)

lemma store_prev_Some [store_simps]:
  "h a = Some e \<Longrightarrow> store_prev h a v = Inr (h(a \<mapsto> e\<lparr>entry_prev := v\<rparr>))"
  by (simp add: store_prev_def load_entry_def)

lemma store_None [store_simps]:
  "h a = None \<Longrightarrow> store_next h a v = Inl NullDeref"
  "h a = None \<Longrightarrow> store_prev h a v = Inl NullDeref"
  by (simp_all add: store_next_def store_prev_def load_entry_def)

lemma next_of_Some: "next_of h a = Some b \<longleftrightarrow> (\<exists>e. h a = Some e \<and> entry_next e = b)"
  by (auto simp: next_of_def)

lemma prev_of_Some: "prev_of h a = Some b \<longleftrightarrow> (\<exists>e. h a = Some e \<and> entry_prev e = b)"
  by (auto simp: prev_of_def)

lemma chain_frame:
  assumes "successively (linked h) xs"
    and "\<forall>a \<in> set (butlast xs). next_of h' a = next_of h a"
    and "\<forall>a \<in> set (tl xs). prev_of h' a = prev_of h a"
  shows "successively (linked h') xs"
  using assms
proof (induction xs)
  case (Cons a xs)
  show ?case
  proof (cases xs)
    case (Cons b ys)
    from Cons.prems Cons have "linked h' a b"
      by (simp add: linked_def)
    moreover have "successively (linked h') xs"
      using Cons.prems Cons by (intro Cons.IH) auto
    ultimately show ?thesis
      using Cons by simp
  qed simp
qed simp

lemma chain_entries:
  assumes "successively (linked h) (P @ Q)" and "P \<noteq> []" and "Q \<noteq> []"
  shows "linked h (last P) (hd Q)"
  using assms by (simp add: successively_append_iff)

lemma last_notin_butlast:
  assumes "distinct xs" and "xs \<noteq> []"
  shows "last xs \<notin> set (butlast xs)"
proof -
  have "distinct (butlast xs @ [last xs])"
    using assms by (metis append_butlast_last_id)
  then show ?thesis
    by simp
qed

lemma dlist_split: "dlist h l (xs @ ys) \<longleftrightarrow>
   distinct (l # xs @ ys) \<and> 0 \<notin> set (l # xs @ ys)
   \<and> successively (linked h) (l # xs) \<and> successively (linked h) (ys @ [l])
   \<and> linked h (last (l # xs)) (hd (ys @ [l]))"
proof -
  have "l # (xs @ ys) @ [l] = (l # xs) @ (ys @ [l])"
    by simp
  then show ?thesis
    unfolding dlist_def by (simp only: successively_append_iff) auto
qed

lemma linkedD:
  assumes "linked h a b"
  obtains ea eb where "h a = Some ea" "entry_next ea = b" "h b = Some eb" "entry_prev eb = a"
  using assms by (auto simp: linked_def next_of_Some prev_of_Some)

lemma insert_before_effect:
  assumes "linked h p e" and "h new \<noteq> None" and "new \<noteq> e" and "new \<noteq> p"
  shows "\<exists>h'. usfstl_list_insert_before h e new = Inr h'
     \<and> next_of h' = (next_of h)(p \<mapsto> new, new \<mapsto> e)
     \<and> prev_of h' = (prev_of h)(new \<mapsto> p, e \<mapsto> new)
     \<and> (\<forall>a. a \<notin> {p, e, new} \<longrightarrow> h' a = h a)"
proof -
  obtain n where n: "h new = Some n"
    using assms(2) by auto
  from assms(1) show ?thesis
  proof (cases rule: linkedD)
    case (1 ep ee)
    define h2 where "h2 = h(new \<mapsto> n\<lparr>entry_prev := p\<rparr>, p \<mapsto> ep\<lparr>entry_next := new\<rparr>)"
    define h4 where "h4 = h2(e \<mapsto> (the (h2 e))\<lparr>entry_prev := new\<rparr>,
       new \<mapsto> n\<lparr>entry_prev := p, entry_next := e\<rparr>)"
    have "usfstl_list_insert_before h e new = Inr h4"
      using 1 n assms(3,4)
      by (cases "p = e") (auto simp: usfstl_list_insert_before_def store_simps h2_def h4_def)
    moreover have "next_of h4 = (next_of h)(p \<mapsto> new, new \<mapsto> e)"
      using 1 n assms(3,4) by (auto simp: next_of_def h2_def h4_def fun_eq_iff)
    moreover have "prev_of h4 = (prev_of h)(new \<mapsto> p, e \<mapsto> new)"
      using 1 n assms(3,4) by (auto simp: prev_of_def h2_def h4_def fun_eq_iff)
    moreover have "\<forall>a. a \<notin> {p, e, new} \<longrightarrow> h4 a = h a"
      by (simp add: h2_def h4_def)
    ultimately show ?thesis
      by blast
  qed
qed

lemma dlist_insert:
  assumes "dlist h l (xs @ ys)" and "new \<notin> set (l # xs @ ys)" and "h new \<noteq> None" and "new \<noteq> 0"
  shows "\<exists>h'. usfstl_list_insert_before h (hd (ys @ [l])) new = Inr h' \<and> dlist h' l (xs @ new # ys)
     \<and> (\<forall>a. a \<notin> insert new (set (l # xs @ ys)) \<longrightarrow> h' a = h a)"
proof -
  let ?p = "last (l # xs)" and ?e = "hd (ys @ [l])"
  have P: "?p \<in> set (l # xs)"
    by (rule last_in_set) simp
  have E: "?e \<in> set (ys @ [l])"
    by (rule hd_in_set) simp
  from assms(1) have d: "distinct (l # xs @ ys)" "0 \<notin> set (l # xs @ ys)"
    and c1: "successively (linked h) (l # xs)" and c2: "successively (linked h) (ys @ [l])"
    and lk: "linked h ?p ?e"
    by (auto simp: dlist_split)
  have ne: "new \<noteq> ?e" "new \<noteq> ?p"
    using assms(2) P E by auto
  from insert_before_effect [OF lk assms(3) ne] obtain h' where
    ins: "usfstl_list_insert_before h ?e new = Inr h'"
    and nx: "next_of h' = (next_of h)(?p \<mapsto> new, new \<mapsto> ?e)"
    and pv: "prev_of h' = (prev_of h)(new \<mapsto> ?p, ?e \<mapsto> new)"
    and fr: "\<forall>a. a \<notin> {?p, ?e, new} \<longrightarrow> h' a = h a"
    by blast
  have p_but: "?p \<notin> set (butlast (l # xs))"
    using d by (intro last_notin_butlast) auto
  have p_ys: "?p \<notin> set (butlast (ys @ [l]))"
    using d P by auto
  have e_tl: "?e \<notin> set (tl (ys @ [l]))" and e_xs: "?e \<notin> set (tl (l # xs))"
    using d by (cases ys; auto)+
  have "successively (linked h') (l # xs)"
    using assms(2) p_but e_xs
    by (intro chain_frame [OF c1]) (auto simp: nx pv dest: in_set_butlastD)
  moreover have "successively (linked h') (ys @ [l])"
    using assms(2) p_ys e_tl
    by (intro chain_frame [OF c2]) (auto simp: nx pv dest: in_set_butlastD list.set_sel(2) [rotated])
  moreover have "linked h' ?p new" "linked h' new ?e"
    using ne by (auto simp: linked_def nx pv)
  ultimately have "dlist h' l (xs @ new # ys)"
    using d assms(2,4) by (auto simp: dlist_split successively_Cons)
  moreover have "{?p, ?e, new} \<subseteq> insert new (set (l # xs @ ys))"
    using P E by auto
  ultimately show ?thesis
    using ins fr by blast
qed

lemma remove_effect:
  assumes "linked h p a" and "linked h a q" and "p \<noteq> a" and "q \<noteq> a"
  shows "\<exists>h'. usfstl_list_item_remove h a = Inr h'
     \<and> next_of h' = (next_of h)(p \<mapsto> q, a \<mapsto> 0)
     \<and> prev_of h' = (prev_of h)(q \<mapsto> p, a \<mapsto> 0)
     \<and> h' a = Some \<lparr>entry_next = 0, entry_prev = 0\<rparr>
     \<and> (\<forall>b. b \<notin> {p, a, q} \<longrightarrow> h' b = h b)"
proof -
  from assms(1,2) obtain ep ea eq where 1: "h p = Some ep" "entry_next ep = a"
    "h a = Some ea" "entry_prev ea = p" "entry_next ea = q" "h q = Some eq" "entry_prev eq = a"
    by (auto simp: linked_def next_of_Some prev_of_Some)
  define h1 where "h1 = h(q \<mapsto> eq\<lparr>entry_prev := p\<rparr>)"
  define h4 where "h4 = h1(p \<mapsto> (the (h1 p))\<lparr>entry_next := q\<rparr>,
     a \<mapsto> ea\<lparr>entry_next := 0, entry_prev := 0\<rparr>)"
  have "usfstl_list_item_remove h a = Inr h4"
    using 1 assms(3,4)
    by (cases "p = q") (auto simp: usfstl_list_item_remove_def store_simps h1_def h4_def)
  moreover have "next_of h4 = (next_of h)(p \<mapsto> q, a \<mapsto> 0)"
    using 1 assms(3,4) by (auto simp: next_of_def h1_def h4_def fun_eq_iff)
  moreover have "prev_of h4 = (prev_of h)(q \<mapsto> p, a \<mapsto> 0)"
    using 1 assms(3,4) by (auto simp: prev_of_def h1_def h4_def fun_eq_iff)
  moreover have "h4 a = Some \<lparr>entry_next = 0, entry_prev = 0\<rparr>"
    by (simp add: h4_def)
  moreover have "\<forall>b. b \<notin> {p, a, q} \<longrightarrow> h4 b = h b"
    by (simp add: h1_def h4_def)
  ultimately show ?thesis
    by blast
qed

lemma dlist_remove:
  assumes "dlist h l (xs @ a # ys)"
  shows "\<exists>h'. usfstl_list_item_remove h a = Inr h' \<and> dlist h' l (xs @ ys) \<and> off_list h' a
     \<and> (\<forall>b. b \<notin> set (l # xs @ a # ys) \<longrightarrow> h' b = h b)"
proof -
  let ?p = "last (l # xs)" and ?q = "hd (ys @ [l])"
  have P: "?p \<in> set (l # xs)"
    by (rule last_in_set) simp
  have Q: "?q \<in> set (ys @ [l])"
    by (rule hd_in_set) simp
  from assms have d: "distinct (l # xs @ a # ys)" "0 \<notin> set (l # xs @ a # ys)"
    and c1: "successively (linked h) (l # xs)" and c2: "successively (linked h) (ys @ [l])"
    and lk: "linked h ?p a" "linked h a ?q"
    by (auto simp: dlist_split successively_Cons)
  have ne: "?p \<noteq> a" "?q \<noteq> a"
    using d P Q by auto
  from remove_effect [OF lk ne] obtain h' where
    rm: "usfstl_list_item_remove h a = Inr h'"
    and nx: "next_of h' = (next_of h)(?p \<mapsto> ?q, a \<mapsto> 0)"
    and pv: "prev_of h' = (prev_of h)(?q \<mapsto> ?p, a \<mapsto> 0)"
    and off: "h' a = Some \<lparr>entry_next = 0, entry_prev = 0\<rparr>"
    and fr: "\<forall>b. b \<notin> {?p, a, ?q} \<longrightarrow> h' b = h b"
    by blast
  have p_but: "?p \<notin> set (butlast (l # xs))"
    using d by (intro last_notin_butlast) auto
  have p_ys: "?p \<notin> set (butlast (ys @ [l]))"
    using d P by auto
  have q_tl: "?q \<notin> set (tl (ys @ [l]))" and q_xs: "?q \<notin> set (tl (l # xs))"
    using d by (cases ys; auto)+
  have "successively (linked h') (l # xs)"
    using d p_but q_xs by (intro chain_frame [OF c1]) (auto simp: nx pv dest: in_set_butlastD)
  moreover have "successively (linked h') (ys @ [l])"
    using d p_ys q_tl
    by (intro chain_frame [OF c2]) (auto simp: nx pv dest: in_set_butlastD list.set_sel(2) [rotated])
  moreover have "linked h' ?p ?q"
    using ne by (auto simp: linked_def nx pv)
  ultimately have "dlist h' l (xs @ ys)"
    using d by (auto simp: dlist_split)
  moreover have "off_list h' a"
    using off d by (simp add: off_list_def)
  moreover have "{?p, a, ?q} \<subseteq> set (l # xs @ a # ys)"
    using P Q by auto
  ultimately show ?thesis
    using rm fr by blast
qed

section \<open>The list interface\<close>

text \<open>
  What the users of \<^verbatim>\<open>list.h\<close> rely on, stated over the represented sequence:
  \<open>rep h l xs\<close> says that in store \<open>h\<close> the list with head \<open>l\<close> holds the entries
  \<open>xs\<close> in this order, and \<open>off h a\<close> that the entry \<open>a\<close> is on no list.
\<close>

locale intrusive_list =
  fixes rep :: "'h \<Rightarrow> 'a \<Rightarrow> 'a list \<Rightarrow> bool"
    and off :: "'h \<Rightarrow> 'a \<Rightarrow> bool"
    and first :: "'h \<Rightarrow> 'a \<Rightarrow> 'a option res"
    and nxt :: "'h \<Rightarrow> 'a \<Rightarrow> 'a \<Rightarrow> 'a option res"
    and insert_before :: "'h \<Rightarrow> 'a \<Rightarrow> 'a \<Rightarrow> 'h res"
    and append :: "'h \<Rightarrow> 'a \<Rightarrow> 'a \<Rightarrow> 'h res"
    and remove :: "'h \<Rightarrow> 'a \<Rightarrow> 'h res"
  assumes rep_distinct: "rep h l xs \<Longrightarrow> distinct xs"
    and rep_first: "rep h l xs \<Longrightarrow> first h l = Inr (first_item xs)"
    and rep_next: "rep h l xs \<Longrightarrow> x \<in> set xs \<Longrightarrow> nxt h l x = Inr (next_item xs x)"
    and rep_insert: "rep h l (xs @ y # ys) \<Longrightarrow> off h x \<Longrightarrow> x \<notin> set (l # xs @ y # ys) \<Longrightarrow>
       \<exists>h'. insert_before h y x = Inr h' \<and> rep h' l (xs @ x # y # ys)"
    and rep_append: "rep h l xs \<Longrightarrow> off h x \<Longrightarrow> x \<notin> set (l # xs) \<Longrightarrow>
       \<exists>h'. append h l x = Inr h' \<and> rep h' l (xs @ [x])"
    and rep_remove: "rep h l (xs @ x # ys) \<Longrightarrow>
       \<exists>h'. remove h x = Inr h' \<and> rep h' l (xs @ ys) \<and> off h' x"
begin

lemma until_suffix:
  assumes "rep h l (xs @ ys)" and "length ys \<le> fuel"
  shows "for_each_until (nxt h l) fuel stop (first_item ys) = Inr (find stop ys)"
  using assms
proof (induction ys arbitrary: xs fuel)
  case (Cons y ys)
  then obtain n where n: "fuel = Suc n" "length ys \<le> n"
    by (cases fuel) auto
  have "y \<notin> set xs"
    using rep_distinct [OF Cons.prems(1)] by simp
  then have "nxt h l y = Inr (first_item ys)"
    using rep_next [OF Cons.prems(1), of y] by (simp add: next_item_append)
  moreover have "for_each_until (nxt h l) n stop (first_item ys) = Inr (find stop ys)"
    using Cons.IH [of "xs @ [y]" n] Cons.prems(1) n by simp
  ultimately show ?case
    using n by simp
qed simp

lemma ordered_insert:
  assumes "rep h l xs" and "off h x" and "x \<notin> set (l # xs)" and "length xs \<le> fuel"
  shows "\<exists>h'. bind_res (first h l) (\<lambda>i.
       bind_res (for_each_until (nxt h l) fuel stop i) (\<lambda>tmp.
       case tmp of None \<Rightarrow> append h l x | Some t \<Rightarrow> insert_before h t x)) = Inr h'
     \<and> rep h' l (insert_before_first stop x xs)"
proof -
  have scan: "for_each_until (nxt h l) fuel stop (first_item xs) = Inr (find stop xs)"
    using until_suffix [of h l "[]" xs] assms(1,4) by simp
  show ?thesis
  proof (cases "find stop xs")
    case None
    then have "\<forall>x \<in> set xs. \<not> stop x"
      by (simp add: find_None_iff)
    then have "insert_before_first stop x xs = xs @ [x]"
      by (simp add: insert_before_first_split takeWhile_eq_all_conv dropWhile_eq_Nil_conv)
    then show ?thesis
      using rep_append [OF assms(1-3)] rep_first [OF assms(1)] scan None by simp
  next
    case (Some y)
    let ?b = "takeWhile (\<lambda>z. \<not> stop z) xs"
    obtain zs where zs: "dropWhile (\<lambda>z. \<not> stop z) xs = y # zs"
      using Some by (induction xs) (auto split: if_splits)
    then have xs: "xs = ?b @ y # zs"
      by (metis takeWhile_dropWhile_id)
    have "rep h l (?b @ y # zs)" and "x \<notin> set (l # ?b @ y # zs)"
      using assms(1,3) xs by simp_all
    from rep_insert [OF this(1) assms(2) this(2)] show ?thesis
      using rep_first [OF assms(1)] scan Some zs by (simp add: insert_before_first_split)
  qed
qed

end

text \<open>The pointer operations provide this interface.\<close>

lemma dlist_next:
  assumes "dlist h l (xs @ x # ys)"
  shows "usfstl_next_item h l x = Inr (first_item ys)"
proof -
  have "linked h x (hd (ys @ [l]))" and "l \<notin> set ys"
    using assms by (auto simp: dlist_split successively_Cons)
  then show ?thesis
    by (cases ys) (auto simp: linked_def next_of_Some usfstl_next_item_def store_simps)
qed

lemma dlist_first:
  assumes "dlist h l xs"
  shows "usfstl_list_first_item h l = Inr (first_item xs)"
proof -
  have "linked h l (hd (xs @ [l]))" and "l \<notin> set xs"
    using assms dlist_split [of h l "[]" xs] by (auto simp: dlist_def)
  then show ?thesis
    by (cases xs)
      (auto simp: linked_def next_of_Some usfstl_list_first_item_def usfstl_list_empty_def store_simps)
qed

lemma dlist_append:
  assumes "dlist h l xs" and "off_list h x" and "x \<notin> set (l # xs)"
  shows "\<exists>h'. usfstl_list_append h l x = Inr h' \<and> dlist h' l (xs @ [x])"
  using dlist_insert [of h l xs "[]" x] assms by (auto simp: usfstl_list_append_def off_list_def)

interpretation pl: intrusive_list dlist off_list usfstl_list_first_item usfstl_next_item
  usfstl_list_insert_before usfstl_list_append usfstl_list_item_remove
proof unfold_locales
  fix h l xs
  assume "dlist h l xs"
  then show "distinct xs"
    by (simp add: dlist_def)
next
  fix h l xs
  assume "dlist h l xs"
  then show "usfstl_list_first_item h l = Inr (first_item xs)"
    by (rule dlist_first)
next
  fix h l xs x
  assume d: "dlist h l xs" and "x \<in> set xs"
  then obtain as bs where "xs = as @ x # bs"
    by (meson split_list)
  moreover have "x \<notin> set as"
    using d calculation by (simp add: dlist_def)
  ultimately show "usfstl_next_item h l x = Inr (next_item xs x)"
    using d dlist_next by (simp add: next_item_append)
next
  fix h l xs y ys x
  assume "dlist h l (xs @ y # ys)" "off_list h x" "x \<notin> set (l # xs @ y # ys)"
  then show "\<exists>h'. usfstl_list_insert_before h y x = Inr h' \<and> dlist h' l (xs @ x # y # ys)"
    using dlist_insert [of h l xs "y # ys" x] by (auto simp: off_list_def)
next
  fix h l xs x
  assume "dlist h l xs" "off_list h x" "x \<notin> set (l # xs)"
  then show "\<exists>h'. usfstl_list_append h l x = Inr h' \<and> dlist h' l (xs @ [x])"
    by (rule dlist_append)
next
  fix h l xs x ys
  assume "dlist h l (xs @ x # ys)"
  then show "\<exists>h'. usfstl_list_item_remove h x = Inr h' \<and> dlist h' l (xs @ ys) \<and> off_list h' x"
    using dlist_remove by blast
qed

section \<open>Properties\<close>

lemma dlist_frame:
  assumes "dlist h m zs" and "\<forall>b \<in> set (m # zs). h' b = h b"
  shows "dlist h' m zs"
proof -
  have nx: "\<forall>b \<in> set (butlast (m # zs @ [m])). next_of h' b = next_of h b"
    and pv: "\<forall>b \<in> set (tl (m # zs @ [m])). prev_of h' b = prev_of h b"
    using assms(2) by (simp_all add: next_of_def prev_of_def butlast_append)
  have "successively (linked h) (m # zs @ [m])"
    using assms(1) by (simp only: dlist_def)
  from chain_frame [OF this nx pv] show ?thesis
    using assms(1) by (simp add: dlist_def)
qed

lemma length_loop_suffix:
  assumes "dlist h l (xs @ ys)" and "length ys < fuel"
  shows "list_length_loop fuel h l (hd (ys @ [l])) c = Inr (c + of_nat (length ys))"
  using assms
proof (induction ys arbitrary: xs fuel c)
  case (Cons y ys)
  then obtain n where n: "fuel = Suc n" "length ys < n"
    by (cases fuel) auto
  have lk: "linked h y (hd (ys @ [l]))" and ne: "y \<noteq> l"
    using Cons.prems(1) by (auto simp: dlist_split successively_Cons)
  have "list_length_loop n h l (hd (ys @ [l])) (c + 1) = Inr (c + 1 + of_nat (length ys))"
    using Cons.IH [of "xs @ [y]" n] Cons.prems(1) n by simp
  with lk ne n show ?case
    by (auto simp: linked_def next_of_Some store_simps algebra_simps)
next
  case Nil
  then show ?case
    by (cases fuel) auto
qed


text \<open>
  C10: removing an entry from a list leaves the other entries in order, marks the
  entry as being on no list, and does not touch any other list.
\<close>

theorem list_item_remove_refines:
  assumes "dlist h l (xs @ a # ys)" and "dlist h m zs" and "set (m # zs) \<inter> set (l # xs @ a # ys) = {}"
  shows "\<exists>h'. usfstl_list_item_remove h a = Inr h' \<and> dlist h' l (xs @ ys) \<and> off_list h' a
     \<and> dlist h' m zs"
proof -
  obtain h' where h': "usfstl_list_item_remove h a = Inr h'" "dlist h' l (xs @ ys)" "off_list h' a"
    "\<forall>b. b \<notin> set (l # xs @ a # ys) \<longrightarrow> h' b = h b"
    using dlist_remove [OF assms(1)] by blast
  moreover have "\<forall>b \<in> set (m # zs). h' b = h b"
    using h'(4) assms(3) by blast
  ultimately show ?thesis
    using dlist_frame [OF assms(2)] by blast
qed

text \<open>
  The length loop ends after one step per entry and returns the number of
  entries modulo the width of its \<^verbatim>\<open>unsigned int\<close> counter.
\<close>

theorem list_length_correct:
  assumes "dlist h l xs" and "length xs < fuel"
  shows "usfstl_list_length fuel h l = Inr (of_nat (length xs))"
proof -
  have "linked h l (hd (xs @ [l]))"
    using assms(1) dlist_split [of h l "[]" xs] by simp
  then show ?thesis
    using length_loop_suffix [of h l "[]" xs fuel 0] assms
    by (auto simp: usfstl_list_length_def linked_def next_of_Some store_simps)
qed

text \<open>A store with one list of two entries (head 1), an empty list (head 5) and a free entry 4.\<close>

definition example_store :: entry_store where
  "example_store = [1 \<mapsto> \<lparr>entry_next = 2, entry_prev = 3\<rparr>, 2 \<mapsto> \<lparr>entry_next = 3, entry_prev = 1\<rparr>,
     3 \<mapsto> \<lparr>entry_next = 1, entry_prev = 2\<rparr>, 4 \<mapsto> \<lparr>entry_next = 0, entry_prev = 0\<rparr>,
     5 \<mapsto> \<lparr>entry_next = 5, entry_prev = 5\<rparr>]"

lemma example_store_lists:
  "dlist example_store 1 [2, 3]" "dlist example_store 5 []" "off_list example_store 4"
  by (simp_all add: example_store_def dlist_def off_list_def linked_def next_of_def prev_of_def)


theorem list_item_remove_refines_witness:
  "\<exists>h'. usfstl_list_item_remove example_store 3 = Inr h' \<and> dlist h' 1 [2] \<and> off_list h' 3 \<and> dlist h' 5 []"
  using list_item_remove_refines [of example_store 1 "[2]" 3 "[]" 5 "[]"] example_store_lists by simp

theorem list_length_correct_witness: "usfstl_list_length 3 example_store 1 = Inr 2"
  using list_length_correct [OF example_store_lists(1), of 3] by simp

end
