(* ===== verification/Sched.thy ===== *)
theory Sched
  imports Lists
begin

text \<open>
  The job scheduler, \<^verbatim>\<open>src/sched.c\<close> and \<^verbatim>\<open>include/usfstl/sched.h\<close>, without the
  linking of schedulers (theory \<open>Sched_Link\<close>). Jobs live in a store indexed by
  pointer; the scheduler's two lists are sequences of pointers (theory
  \<open>Lists\<close> relates sequences to \<^verbatim>\<open>list.h\<close>), and a job's list entry is linked exactly
  when the job is on one of them. The function pointers of
  \<^verbatim>\<open>struct usfstl_scheduler\<close> are a record of optional functions, a null pointer
  being \<^term>\<open>None\<close>; what they act on besides the scheduler itself is the field
  \<open>env\<close>.
\<close>

section \<open>Data\<close>

type_synonym job_ptr = nat

record usfstl_job =
  start :: u64
  priority :: u32
  group :: u8
  job_name :: string
  job_data :: nat
  callback :: nat
  blocked :: bool
  pending :: bool

datatype usfstl_sched_req_status =
    USFSTL_SCHED_REQ_STATUS_CAN_RUN
  | USFSTL_SCHED_REQ_STATUS_WAIT

record 'x usfstl_scheduler =
  current_time :: u64
  prev_external_sync :: u64
  next_external_sync :: u64
  sched_name :: string
  joblist :: "job_ptr list"
  pending_jobs :: "job_ptr list"
  allowed_job :: "job_ptr option"
  blocked_groups :: u32
  next_external_sync_set :: bool
  prev_external_sync_set :: bool
  waiting :: bool
  jobs :: "job_ptr \<Rightarrow> usfstl_job"
  env :: 'x

text \<open>
  The callbacks. Reading and setting the external time concerns only the local
  time value and what lies outside the scheduler; requests, waiting and the
  change notification may run arbitrary code that uses the scheduler again.
  The command line flag that disables skipping requests is kept here as well.
\<close>

record 'x sched_hooks =
  external_request :: "('x usfstl_scheduler \<Rightarrow> u64 \<Rightarrow> (usfstl_sched_req_status \<times> 'x usfstl_scheduler) res) option"
  external_wait :: "('x usfstl_scheduler \<Rightarrow> 'x usfstl_scheduler res) option"
  external_get_time :: "(u64 \<Rightarrow> 'x \<Rightarrow> u64 \<times> 'x) option"
  external_set_time :: "('x \<Rightarrow> u64 \<Rightarrow> 'x res) option"
  time_advanced :: "('x usfstl_scheduler \<Rightarrow> u64 \<Rightarrow> 'x usfstl_scheduler res) option"
  next_time_changed :: "('x usfstl_scheduler \<Rightarrow> 'x usfstl_scheduler res) option"
  disable_skip_external_request :: bool

text \<open>\<^verbatim>\<open>USFSTL_SCHEDULER(name)\<close>: every other member is zero or a null pointer.\<close>

definition USFSTL_SCHEDULER :: "string \<Rightarrow> (job_ptr \<Rightarrow> usfstl_job) \<Rightarrow> 'x \<Rightarrow> 'x usfstl_scheduler" where
  "USFSTL_SCHEDULER nm js e = \<lparr>current_time = 0, prev_external_sync = 0, next_external_sync = 0,
     sched_name = nm, joblist = [], pending_jobs = [], allowed_job = None, blocked_groups = 0,
     next_external_sync_set = False, prev_external_sync_set = False, waiting = False,
     jobs = js, env = e\<rparr>"

definition no_hooks :: "'x sched_hooks" where
  "no_hooks = \<lparr>external_request = None, external_wait = None, external_get_time = None,
     external_set_time = None, time_advanced = None, next_time_changed = None,
     disable_skip_external_request = False\<rparr>"

definition with_job :: "job_ptr \<Rightarrow> (usfstl_job \<Rightarrow> usfstl_job) \<Rightarrow> 'x usfstl_scheduler \<Rightarrow> 'x usfstl_scheduler" where
  "with_job j f s = s\<lparr>jobs := (jobs s)(j := f (jobs s j))\<rparr>"

text \<open>\<^verbatim>\<open>1 << job->group\<close>, and the test of that bit in \<^verbatim>\<open>blocked_groups\<close>.\<close>

definition group_bit :: "u8 \<Rightarrow> u32" where
  "group_bit g = push_bit (unat g) 1"

definition group_blocked :: "'x usfstl_scheduler \<Rightarrow> job_ptr \<Rightarrow> bool" where
  "group_blocked s j \<longleftrightarrow> group_bit (group (jobs s j)) AND blocked_groups s \<noteq> 0"

section \<open>Operations\<close>

definition usfstl_sched_current_time :: "'x sched_hooks \<Rightarrow> 'x usfstl_scheduler \<Rightarrow> u64 \<times> 'x usfstl_scheduler" where
  "usfstl_sched_current_time H s =
     (case external_get_time H of
        Some f \<Rightarrow> (let (t, e) = f (current_time s) (env s) in (t, s\<lparr>env := e\<rparr>))
      | None \<Rightarrow> (current_time s, s))"

definition usfstl_sched_external_request ::
    "'x sched_hooks \<Rightarrow> 'x usfstl_scheduler \<Rightarrow> u64 \<Rightarrow> (usfstl_sched_req_status \<times> 'x usfstl_scheduler) res" where
  "usfstl_sched_external_request H s time =
     (case external_request H of
        None \<Rightarrow> Inr (USFSTL_SCHED_REQ_STATUS_CAN_RUN, s)
      | Some request \<Rightarrow>
          if \<not> disable_skip_external_request H \<and> \<not> waiting s \<and> next_external_sync_set s
             \<and> usfstl_time_cmp time (<) (next_external_sync s)
          then Inr (USFSTL_SCHED_REQ_STATUS_CAN_RUN, s)
          else if waiting s \<and> prev_external_sync_set s \<and> time = prev_external_sync s
          then Inr (USFSTL_SCHED_REQ_STATUS_WAIT, s)
          else request (s\<lparr>prev_external_sync := time, prev_external_sync_set := True\<rparr>) time)"

definition usfstl_sched_external_wait :: "'x sched_hooks \<Rightarrow> 'x usfstl_scheduler \<Rightarrow> 'x usfstl_scheduler res" where
  "usfstl_sched_external_wait H s =
     (case external_wait H of
        None \<Rightarrow> Inl NullDeref
      | Some wait \<Rightarrow>
          bind_res (wait (s\<lparr>prev_external_sync_set := False, waiting := True\<rparr>)) (\<lambda>s.
          Inr (s\<lparr>waiting := False\<rparr>)))"

definition usfstl_job_scheduled :: "'x usfstl_scheduler \<Rightarrow> job_ptr \<Rightarrow> bool" where
  "usfstl_job_scheduled s j \<longleftrightarrow> j \<in> set (joblist s) \<or> j \<in> set (pending_jobs s)"

text \<open>The test that ends the search for the new job's place: \<open>tmp\<close> must come after it.\<close>

definition job_goes_before :: "(job_ptr \<Rightarrow> usfstl_job) \<Rightarrow> job_ptr \<Rightarrow> job_ptr \<Rightarrow> bool" where
  "job_goes_before js j tmp \<longleftrightarrow>
     usfstl_time_cmp (start (js tmp)) (>) (start (js j))
     \<or> start (js tmp) = start (js j) \<and> priority (js tmp) < priority (js j)"

definition usfstl_sched_add_job :: "'x sched_hooks \<Rightarrow> 'x usfstl_scheduler \<Rightarrow> job_ptr \<Rightarrow> 'x usfstl_scheduler res" where
  "usfstl_sched_add_job H s j =
     (let (now, s) = usfstl_sched_current_time H s in
      usfstl_assert (usfstl_time_cmp (start (jobs s j)) (\<ge>) now) ''job->start >= current_time'' (
      usfstl_assert (\<not> usfstl_job_scheduled s j) ''!usfstl_job_scheduled(job)'' (
      usfstl_assert (group (jobs s j) < 32) ''job->group < 32'' (
      if blocked (jobs s j) then
        Inr (with_job j (\<lambda>b. b\<lparr>start := 0, pending := True\<rparr>) s)
      else if group_blocked s j \<and> allowed_job s \<noteq> Some j then
        Inr ((with_job j (\<lambda>b. b\<lparr>start := 0\<rparr>) s)\<lparr>pending_jobs := pending_jobs s @ [j]\<rparr>)
      else
        let s = s\<lparr>joblist := insert_before_first (job_goes_before (jobs s) j) j (joblist s)\<rparr> in
        bind_res (usfstl_sched_external_request H s (start (jobs s j))) (\<lambda>(_, s).
        case next_time_changed H of None \<Rightarrow> Inr s | Some changed \<Rightarrow> changed s)))))"

definition usfstl_sched_del_job :: "'x usfstl_scheduler \<Rightarrow> job_ptr \<Rightarrow> 'x usfstl_scheduler" where
  "usfstl_sched_del_job s j =
     (if \<not> usfstl_job_scheduled s j then s
      else s\<lparr>joblist := remove1 j (joblist s), pending_jobs := remove1 j (pending_jobs s)\<rparr>)"

text \<open>The function \<^verbatim>\<open>_usfstl_sched_set_time\<close>.\<close>

definition usfstl_sched_set_time_raw :: "'x sched_hooks \<Rightarrow> 'x usfstl_scheduler \<Rightarrow> u64 \<Rightarrow> 'x usfstl_scheduler res" where
  "usfstl_sched_set_time_raw H s time =
     bind_res (case external_set_time H of
                 None \<Rightarrow> Inr s
               | Some set_time \<Rightarrow> bind_res (set_time (env s) time) (\<lambda>e. Inr (s\<lparr>env := e\<rparr>))) (\<lambda>s.
     bind_res (case external_get_time H of
                 Some _ \<Rightarrow>
                   (let (now, s) = usfstl_sched_current_time H s in
                    usfstl_assert (usfstl_time_cmp time (=) now) ''time == current_time'' (
                    Inr (now, s)))
               | None \<Rightarrow>
                   usfstl_assert (usfstl_time_cmp time (\<ge>) (current_time s)) ''time >= sched->current_time'' (
                   Inr (time, s\<lparr>current_time := time\<rparr>))) (\<lambda>(now, s).
     if now = time then Inr s
     else case time_advanced H of
            None \<Rightarrow> Inr s
          | Some advanced \<Rightarrow> advanced s (time - now)))"

definition usfstl_sched_next_pending :: "'x usfstl_scheduler \<Rightarrow> job_ptr option \<Rightarrow> job_ptr option" where
  "usfstl_sched_next_pending s j =
     (case j of Some j \<Rightarrow> next_item (joblist s) j | None \<Rightarrow> first_item (joblist s))"

definition usfstl_sched_set_time :: "'x sched_hooks \<Rightarrow> 'x usfstl_scheduler \<Rightarrow> u64 \<Rightarrow> 'x usfstl_scheduler res" where
  "usfstl_sched_set_time H s time =
     usfstl_assert (case usfstl_sched_next_pending s None of
                      None \<Rightarrow> True
                    | Some j \<Rightarrow> usfstl_time_cmp time (\<le>) (start (jobs s j)))
       ''!job || time <= job->start'' (
     usfstl_sched_set_time_raw H s time)"

definition usfstl_sched_forward :: "'x sched_hooks \<Rightarrow> 'x usfstl_scheduler \<Rightarrow> u64 \<Rightarrow> 'x usfstl_scheduler res" where
  "usfstl_sched_forward H s until =
     (let (now, s) = usfstl_sched_current_time H s in
      usfstl_assert (usfstl_time_cmp until (\<ge>) now) ''until >= current_time'' (
      bind_res (usfstl_sched_external_request H s until) (\<lambda>(st, s).
      if st = USFSTL_SCHED_REQ_STATUS_WAIT then usfstl_sched_external_wait H s
      else usfstl_sched_set_time_raw H s until)))"

definition usfstl_sched_start :: "'x sched_hooks \<Rightarrow> 'x usfstl_scheduler \<Rightarrow> 'x usfstl_scheduler res" where
  "usfstl_sched_start H s =
     (let (now, s) = usfstl_sched_current_time H s in
      bind_res (usfstl_sched_external_request H s now) (\<lambda>(st, s).
      if st = USFSTL_SCHED_REQ_STATUS_WAIT then usfstl_sched_external_wait H s
      else Inr s))"

text \<open>
  The loop of \<^verbatim>\<open>usfstl_sched_next\<close> runs until a job is reached; each iteration uses
  one unit of fuel. \<open>run\<close> stands for the call \<^verbatim>\<open>job->callback(job)\<close>.
\<close>

fun usfstl_sched_next :: "nat \<Rightarrow> 'x sched_hooks \<Rightarrow> (job_ptr \<Rightarrow> 'x usfstl_scheduler \<Rightarrow> 'x usfstl_scheduler res) \<Rightarrow>
    'x usfstl_scheduler \<Rightarrow> (job_ptr \<times> 'x usfstl_scheduler) res" where
  "usfstl_sched_next 0 H run s = Inl OutOfFuel"
| "usfstl_sched_next (Suc n) H run s =
     (case usfstl_sched_next_pending s None of
        None \<Rightarrow>
          (case external_request H of
             None \<Rightarrow> Inl (Assertion ''nothing to do'')
           | Some _ \<Rightarrow> bind_res (usfstl_sched_external_wait H s) (usfstl_sched_next n H run))
      | Some j \<Rightarrow>
          let (now, s) = usfstl_sched_current_time H s in
          bind_res (if usfstl_time_cmp (start (jobs s j)) (>) now
                    then usfstl_sched_forward H s (start (jobs s j)) else Inr s) (\<lambda>s.
          if usfstl_sched_next_pending s None \<noteq> Some j then usfstl_sched_next n H run s
          else bind_res (run j (usfstl_sched_del_job s j)) (\<lambda>s. Inr (j, s))))"

definition usfstl_sched_set_sync_time :: "'x sched_hooks \<Rightarrow> 'x usfstl_scheduler \<Rightarrow> u64 \<Rightarrow> 'x usfstl_scheduler res" where
  "usfstl_sched_set_sync_time H s time =
     (let (now, s) = usfstl_sched_current_time H s in
      usfstl_assert (usfstl_time_cmp time (\<ge>) now) ''time >= current_time'' (
      Inr (s\<lparr>next_external_sync := time, next_external_sync_set := True\<rparr>)))"

definition usfstl_sched_block_job_in_group :: "'x usfstl_scheduler \<Rightarrow> job_ptr \<Rightarrow> 'x usfstl_scheduler" where
  "usfstl_sched_block_job_in_group s j =
     (let s = usfstl_sched_del_job s j in s\<lparr>pending_jobs := pending_jobs s @ [j]\<rparr>)"

definition usfstl_sched_remove_blocked_jobs :: "'x usfstl_scheduler \<Rightarrow> 'x usfstl_scheduler res" where
  "usfstl_sched_remove_blocked_jobs s =
     for_each_safe (\<lambda>s. next_item (joblist s)) (length (joblist s))
       (\<lambda>j s. if allowed_job s = Some j then Inr s
              else if group_blocked s j then Inr (usfstl_sched_block_job_in_group s j)
              else Inr s)
       (first_item (joblist s)) (first_item (tl (joblist s))) s"

definition usfstl_sched_restore_job :: "'x sched_hooks \<Rightarrow> 'x usfstl_scheduler \<Rightarrow> job_ptr \<Rightarrow> 'x usfstl_scheduler res" where
  "usfstl_sched_restore_job H s j =
     (let s = usfstl_sched_del_job s j;
          (now, s) = usfstl_sched_current_time H s;
          s = (if usfstl_time_cmp (start (jobs s j)) (<) now
               then (let (now, s) = usfstl_sched_current_time H s in with_job j (\<lambda>b. b\<lparr>start := now\<rparr>) s)
               else s)
      in usfstl_sched_add_job H s j)"

definition usfstl_sched_restore_blocked_jobs :: "'x sched_hooks \<Rightarrow> 'x usfstl_scheduler \<Rightarrow> 'x usfstl_scheduler res" where
  "usfstl_sched_restore_blocked_jobs H s =
     for_each_safe (\<lambda>s. next_item (pending_jobs s)) (length (pending_jobs s))
       (\<lambda>j s. if allowed_job s = Some j \<or> \<not> group_blocked s j then usfstl_sched_restore_job H s j
              else Inr s)
       (first_item (pending_jobs s)) (first_item (tl (pending_jobs s))) s"

record usfstl_sched_block_data =
  save_groups :: u32
  save_job :: "job_ptr option"

definition usfstl_sched_block_groups :: "'x usfstl_scheduler \<Rightarrow> u32 \<Rightarrow> job_ptr option \<Rightarrow>
    (usfstl_sched_block_data \<times> 'x usfstl_scheduler) res" where
  "usfstl_sched_block_groups s groups job =
     (let save = \<lparr>save_groups = blocked_groups s, save_job = allowed_job s\<rparr> in
      usfstl_assert (case job of None \<Rightarrow> True
                     | Some j \<Rightarrow> group_bit (group (jobs s j)) AND (groups OR save_groups save) \<noteq> 0)
        ''!job || (1 << job->group) & (groups | save->groups)'' (
      usfstl_assert (case job of None \<Rightarrow> True | Some j \<Rightarrow> \<not> blocked (jobs s j))
        ''!job || !job->blocked'' (
      bind_res (usfstl_sched_remove_blocked_jobs
                  (s\<lparr>blocked_groups := blocked_groups s OR groups, allowed_job := job\<rparr>)) (\<lambda>s.
      Inr (save, s)))))"

definition usfstl_sched_restore_groups :: "'x sched_hooks \<Rightarrow> 'x usfstl_scheduler \<Rightarrow> usfstl_sched_block_data \<Rightarrow>
    'x usfstl_scheduler res" where
  "usfstl_sched_restore_groups H s restore =
     bind_res (usfstl_sched_restore_blocked_jobs H
                 (s\<lparr>blocked_groups := save_groups restore, allowed_job := save_job restore\<rparr>))
       usfstl_sched_remove_blocked_jobs"

definition usfstl_sched_block_job :: "'x usfstl_scheduler \<Rightarrow> job_ptr \<Rightarrow> 'x usfstl_scheduler res" where
  "usfstl_sched_block_job s j =
     usfstl_assert (\<not> blocked (jobs s j)) ''!job->blocked'' (
     usfstl_assert (\<not> pending (jobs s j)) ''!job->pending'' (
     let s = with_job j (\<lambda>b. b\<lparr>blocked := True\<rparr>) s in
     Inr (if usfstl_job_scheduled s j
          then usfstl_sched_del_job (with_job j (\<lambda>b. b\<lparr>pending := True\<rparr>) s) j
          else s)))"

definition usfstl_sched_unblock_job :: "'x sched_hooks \<Rightarrow> 'x usfstl_scheduler \<Rightarrow> job_ptr \<Rightarrow> 'x usfstl_scheduler res" where
  "usfstl_sched_unblock_job H s j =
     usfstl_assert (blocked (jobs s j)) ''job->blocked'' (
     let s = with_job j (\<lambda>b. b\<lparr>blocked := False\<rparr>) s in
     if pending (jobs s j)
     then usfstl_sched_restore_job H (with_job j (\<lambda>b. b\<lparr>pending := False\<rparr>) s) j
     else Inr s)"

definition usfstl_sched_get_sync_time :: "'x sched_hooks \<Rightarrow> 'x usfstl_scheduler \<Rightarrow> u64 \<times> 'x usfstl_scheduler" where
  "usfstl_sched_get_sync_time H s =
     (let (time, s) = usfstl_sched_current_time H s;
          sync = time + 2 ^ 62;
          sync = (if next_external_sync_set s
                     \<and> usfstl_time_cmp sync (>) (next_external_sync s)
                     \<and> usfstl_time_cmp (next_external_sync s) (\<ge>) time
                  then next_external_sync s else sync)
      in case usfstl_sched_next_pending s None of
           Some j \<Rightarrow> (if usfstl_time_cmp (start (jobs s j)) (<) sync then start (jobs s j) else sync, s)
         | None \<Rightarrow> (sync, s))"

section \<open>The invariant\<close>

text \<open>Which of two jobs runs first when the time is \<open>now\<close>: earlier start, then higher priority.\<close>

definition job_le :: "(job_ptr \<Rightarrow> usfstl_job) \<Rightarrow> u64 \<Rightarrow> job_ptr \<Rightarrow> job_ptr \<Rightarrow> bool" where
  "job_le js now a b \<longleftrightarrow> ahead now (start (js a)) < ahead now (start (js b))
     \<or> start (js a) = start (js b) \<and> priority (js b) \<le> priority (js a)"

interpretation jq: fifo_queue "job_le js now" "job_goes_before js" "\<lambda>j. in_window now (start (js j))" for js now
proof unfold_locales
  fix a b c
  show "job_le js now a b \<Longrightarrow> job_le js now b c \<Longrightarrow> job_le js now a c"
    by (auto simp: job_le_def)
next
  fix x y
  assume "in_window now (start (js x))" "in_window now (start (js y))"
  note cmp = time_cmp_window [OF this] time_cmp_window [OF this(2,1)]
  show "job_goes_before js x y \<Longrightarrow> job_le js now x y"
    and "\<not> job_goes_before js x y \<Longrightarrow> job_le js now y x"
    and "job_goes_before js x y \<Longrightarrow> \<not> job_le js now y x"
    by (auto simp: job_goes_before_def job_le_def cmp not_less ahead_inj [of now, symmetric])
qed

text \<open>
  The part of the invariant that does not depend on which groups are blocked;
  it also holds between the steps of restoring blocked groups.
\<close>

definition sched_core_at :: "u64 \<Rightarrow> 'x usfstl_scheduler \<Rightarrow> bool" where
  "sched_core_at now s \<longleftrightarrow>
     distinct (joblist s @ pending_jobs s)
     \<and> sorted_wrt (job_le (jobs s) now) (joblist s)
     \<and> (\<forall>j \<in> set (joblist s). in_window now (start (jobs s j)))
     \<and> (\<forall>j \<in> set (joblist s) \<union> set (pending_jobs s). \<not> blocked (jobs s j) \<and> group (jobs s j) < 32)
     \<and> (\<forall>j. pending (jobs s j) \<longrightarrow> blocked (jobs s j))"

definition may_run :: "'x usfstl_scheduler \<Rightarrow> job_ptr \<Rightarrow> bool" where
  "may_run s j \<longleftrightarrow> (group_blocked s j \<longrightarrow> allowed_job s = Some j)"

definition sched_inv_at :: "u64 \<Rightarrow> 'x usfstl_scheduler \<Rightarrow> bool" where
  "sched_inv_at now s \<longleftrightarrow> sched_core_at now s
     \<and> (\<forall>j \<in> set (joblist s). may_run s j)
     \<and> (\<forall>j \<in> set (pending_jobs s). group_blocked s j)"

definition sched_now :: "'x sched_hooks \<Rightarrow> 'x usfstl_scheduler \<Rightarrow> u64" where
  "sched_now H s = fst (usfstl_sched_current_time H s)"

definition sched_inv :: "'x sched_hooks \<Rightarrow> 'x usfstl_scheduler \<Rightarrow> bool" where
  "sched_inv H s \<longleftrightarrow> sched_inv_at (sched_now H s) s"

definition sched_ok :: "'x sched_hooks \<Rightarrow> ('x \<Rightarrow> bool) \<Rightarrow> 'x usfstl_scheduler \<Rightarrow> bool" where
  "sched_ok H env_ok s \<longleftrightarrow> sched_inv H s \<and> env_ok (env s)"

named_theorems sched_frame \<open>updates that keep the invariant at a fixed time\<close>

lemma group_blocked_frame [sched_frame, simp]:
  "group_blocked (s\<lparr>env := e\<rparr>) = group_blocked s"
  "group_blocked (s\<lparr>current_time := t\<rparr>) = group_blocked s"
  "group_blocked (s\<lparr>waiting := w\<rparr>) = group_blocked s"
  "group_blocked (s\<lparr>prev_external_sync := t\<rparr>) = group_blocked s"
  "group_blocked (s\<lparr>prev_external_sync_set := b\<rparr>) = group_blocked s"
  "group_blocked (s\<lparr>next_external_sync := t\<rparr>) = group_blocked s"
  "group_blocked (s\<lparr>next_external_sync_set := b\<rparr>) = group_blocked s"
  "group_blocked (s\<lparr>joblist := xs\<rparr>) = group_blocked s"
  "group_blocked (s\<lparr>pending_jobs := xs\<rparr>) = group_blocked s"
  "group_blocked (s\<lparr>allowed_job := a\<rparr>) = group_blocked s"
  by (simp_all add: group_blocked_def fun_eq_iff)

lemma sched_core_at_frame [sched_frame, simp]:
  "sched_core_at now (s\<lparr>env := e\<rparr>) = sched_core_at now s"
  "sched_core_at now (s\<lparr>current_time := t\<rparr>) = sched_core_at now s"
  "sched_core_at now (s\<lparr>waiting := w\<rparr>) = sched_core_at now s"
  "sched_core_at now (s\<lparr>prev_external_sync := t\<rparr>) = sched_core_at now s"
  "sched_core_at now (s\<lparr>prev_external_sync_set := b\<rparr>) = sched_core_at now s"
  "sched_core_at now (s\<lparr>next_external_sync := t\<rparr>) = sched_core_at now s"
  "sched_core_at now (s\<lparr>next_external_sync_set := b\<rparr>) = sched_core_at now s"
  "sched_core_at now (s\<lparr>blocked_groups := g\<rparr>) = sched_core_at now s"
  "sched_core_at now (s\<lparr>allowed_job := a\<rparr>) = sched_core_at now s"
  by (simp_all add: sched_core_at_def)

lemma sched_inv_at_frame [sched_frame, simp]:
  "sched_inv_at now (s\<lparr>env := e\<rparr>) = sched_inv_at now s"
  "sched_inv_at now (s\<lparr>current_time := t\<rparr>) = sched_inv_at now s"
  "sched_inv_at now (s\<lparr>waiting := w\<rparr>) = sched_inv_at now s"
  "sched_inv_at now (s\<lparr>prev_external_sync := t\<rparr>) = sched_inv_at now s"
  "sched_inv_at now (s\<lparr>prev_external_sync_set := b\<rparr>) = sched_inv_at now s"
  "sched_inv_at now (s\<lparr>next_external_sync := t\<rparr>) = sched_inv_at now s"
  "sched_inv_at now (s\<lparr>next_external_sync_set := b\<rparr>) = sched_inv_at now s"
  by (simp_all add: sched_inv_at_def may_run_def)

lemma sched_now_cong:
  "current_time s' = current_time s \<Longrightarrow> env s' = env s \<Longrightarrow> sched_now H s' = sched_now H s"
  by (simp add: sched_now_def usfstl_sched_current_time_def split: option.split prod.split)

lemma with_job_sel [simp]:
  "joblist (with_job j f s) = joblist s"
  "pending_jobs (with_job j f s) = pending_jobs s"
  "allowed_job (with_job j f s) = allowed_job s"
  "blocked_groups (with_job j f s) = blocked_groups s"
  "current_time (with_job j f s) = current_time s"
  "env (with_job j f s) = env s"
  "jobs (with_job j f s) = (jobs s)(j := f (jobs s j))"
  by (simp_all add: with_job_def)

lemma del_job_sel [simp]:
  "allowed_job (usfstl_sched_del_job s j) = allowed_job s"
  "blocked_groups (usfstl_sched_del_job s j) = blocked_groups s"
  "current_time (usfstl_sched_del_job s j) = current_time s"
  "env (usfstl_sched_del_job s j) = env s"
  "jobs (usfstl_sched_del_job s j) = jobs s"
  by (simp_all add: usfstl_sched_del_job_def)

lemma del_job_lists:
  "joblist (usfstl_sched_del_job s j) = remove1 j (joblist s)"
  "pending_jobs (usfstl_sched_del_job s j) = remove1 j (pending_jobs s)"
  by (auto simp: usfstl_sched_del_job_def usfstl_job_scheduled_def remove1_idem)

lemma core_del_job:
  assumes "sched_core_at now s"
  shows "sched_core_at now (usfstl_sched_del_job s j)"
proof -
  have d: "distinct (joblist s)" "distinct (pending_jobs s)"
    using assms by (auto simp: sched_core_at_def)
  then have "joblist (usfstl_sched_del_job s j) = filter (\<lambda>x. x \<noteq> j) (joblist s)"
    and "pending_jobs (usfstl_sched_del_job s j) = filter (\<lambda>x. x \<noteq> j) (pending_jobs s)"
    by (simp_all add: del_job_lists distinct_remove1_removeAll removeAll_filter_not_eq eq_commute)
  then show ?thesis
    using assms by (auto simp: sched_core_at_def sorted_wrt_filter)
qed

lemma del_job_not_scheduled:
  "sched_core_at now s \<Longrightarrow> \<not> usfstl_job_scheduled (usfstl_sched_del_job s j) j"
  by (auto simp: usfstl_job_scheduled_def del_job_lists sched_core_at_def)

lemma core_with_job:
  assumes "sched_core_at now s" and "\<not> usfstl_job_scheduled s j"
    and "pending (f (jobs s j)) \<longrightarrow> blocked (f (jobs s j))"
  shows "sched_core_at now (with_job j f s)"
proof -
  have "sorted_wrt (job_le (jobs (with_job j f s)) now) (joblist s)"
  proof (rule sorted_wrt_mono_rel [of "joblist s" "job_le (jobs s) now"])
    show "sorted_wrt (job_le (jobs s) now) (joblist s)"
      using assms(1) by (simp add: sched_core_at_def)
    fix x y
    assume "x \<in> set (joblist s)" "y \<in> set (joblist s)" "job_le (jobs s) now x y"
    moreover have "x \<noteq> j" "y \<noteq> j"
      using assms(2) calculation by (auto simp: usfstl_job_scheduled_def)
    ultimately show "job_le (jobs (with_job j f s)) now x y"
      by (simp add: job_le_def)
  qed
  then show ?thesis
    using assms by (auto simp: sched_core_at_def usfstl_job_scheduled_def)
qed

lemma core_enqueue:
  assumes "sched_core_at now s" and "\<not> usfstl_job_scheduled s j" and "group (jobs s j) < 32"
    and "\<not> blocked (jobs s j)" and "in_window now (start (jobs s j))"
  shows "sched_core_at now (s\<lparr>joblist := insert_before_first (job_goes_before (jobs s) j) j (joblist s)\<rparr>)"
proof -
  have "sorted_wrt (job_le (jobs s) now) (insert_before_first (job_goes_before (jobs s) j) j (joblist s))"
    using assms(1,5) by (intro jq.insert_sorted) (auto simp: sched_core_at_def)
  then show ?thesis
    using assms by (auto simp: sched_core_at_def usfstl_job_scheduled_def)
qed

lemma core_append_pending:
  assumes "sched_core_at now s" and "\<not> usfstl_job_scheduled s j" and "group (jobs s j) < 32"
    and "\<not> blocked (jobs s j)"
  shows "sched_core_at now (s\<lparr>pending_jobs := pending_jobs s @ [j]\<rparr>)"
  using assms by (auto simp: sched_core_at_def usfstl_job_scheduled_def)

text \<open>Time may move forward as far as the first job on the list.\<close>

lemma core_forward_time:
  assumes inv: "sched_core_at now s" and "ahead now t \<le> 2 ^ 63"
    and first: "\<And>j. first_item (joblist s) = Some j \<Longrightarrow> usfstl_time_cmp t (\<le>) (start (jobs s j))"
  shows "sched_core_at t s"
proof (cases "joblist s")
  case Nil
  then show ?thesis
    using inv by (simp add: sched_core_at_def)
next
  case (Cons f fs)
  have f: "in_window now (start (jobs s f))"
    using inv Cons by (simp add: sched_core_at_def)
  have le: "usfstl_time_cmp t (\<le>) (start (jobs s f))"
    using first Cons by simp
  have t: "in_window now t"
    using f assms(2) le by (rule time_le_window)
  have tf: "ahead now t \<le> ahead now (start (jobs s f))"
    using le time_cmp_window(3) [OF t f] by simp
  have fj: "ahead now (start (jobs s f)) \<le> ahead now (start (jobs s j))" if "j \<in> set (joblist s)" for j
    using inv Cons that by (auto simp: sched_core_at_def job_le_def)
  have all: "ahead now t \<le> ahead now (start (jobs s j))" if "j \<in> set (joblist s)" for j
    using tf fj [OF that] by (rule order_trans)
  have "sorted_wrt (job_le (jobs s) t) (joblist s)"
  proof (rule sorted_wrt_mono_rel [of "joblist s" "job_le (jobs s) now"])
    show "sorted_wrt (job_le (jobs s) now) (joblist s)"
      using inv by (simp add: sched_core_at_def)
    fix x y
    assume x: "x \<in> set (joblist s)" and y: "y \<in> set (joblist s)" and le: "job_le (jobs s) now x y"
    show "job_le (jobs s) t x y"
      using le ahead_forward [OF all [OF x]] ahead_forward [OF all [OF y]] all [OF x]
      by (auto simp: job_le_def)
  qed
  moreover have "in_window t (start (jobs s j))" if "j \<in> set (joblist s)" for j
  proof (rule in_window_forward [OF _ all [OF that]])
    show "in_window now (start (jobs s j))"
      using inv that by (simp add: sched_core_at_def)
  qed
  ultimately show ?thesis
    using inv by (simp add: sched_core_at_def)
qed

lemma inv_del_job:
  assumes "sched_inv_at now s"
  shows "sched_inv_at now (usfstl_sched_del_job s j)"
proof -
  have "set (joblist (usfstl_sched_del_job s j)) \<subseteq> set (joblist s)"
    and "set (pending_jobs (usfstl_sched_del_job s j)) \<subseteq> set (pending_jobs s)"
    by (simp_all add: del_job_lists set_remove1_subset)
  then show ?thesis
    using assms core_del_job by (auto simp: sched_inv_at_def may_run_def group_blocked_def)
qed

lemma inv_with_job:
  assumes "sched_inv_at now s" and "\<not> usfstl_job_scheduled s j"
    and "pending (f (jobs s j)) \<longrightarrow> blocked (f (jobs s j))"
  shows "sched_inv_at now (with_job j f s)"
  using assms core_with_job [of now s j f]
  by (auto simp: sched_inv_at_def may_run_def group_blocked_def usfstl_job_scheduled_def)

lemma inv_forward_time:
  assumes "sched_inv_at now s" and "ahead now t \<le> 2 ^ 63"
    and "\<And>j. first_item (joblist s) = Some j \<Longrightarrow> usfstl_time_cmp t (\<le>) (start (jobs s j))"
  shows "sched_inv_at t s"
  using assms core_forward_time [of now s t] by (simp add: sched_inv_at_def)

text \<open>What taking blocked jobs off the list does, exactly; the loop ends after one pass.\<close>

lemma block_job_in_group_eq:
  assumes "distinct (joblist s @ pending_jobs s)" and "j \<in> set (joblist s)"
  shows "usfstl_sched_block_job_in_group s j =
    s\<lparr>joblist := remove1 j (joblist s), pending_jobs := pending_jobs s @ [j]\<rparr>"
proof -
  have "j \<notin> set (pending_jobs s)"
    using assms by auto
  then show ?thesis
    using assms(2) by (simp add: usfstl_sched_block_job_in_group_def usfstl_sched_del_job_def
        usfstl_job_scheduled_def remove1_idem)
qed

lemma remove_blocked_fold:
  assumes "distinct (joblist s @ pending_jobs s)" and "joblist s = pre @ xs"
  shows "fold_res (\<lambda>j s. if allowed_job s = Some j then Inr s
            else if group_blocked s j then Inr (usfstl_sched_block_job_in_group s j)
            else Inr s) xs s =
    Inr (s\<lparr>joblist := pre @ filter (may_run s) xs,
           pending_jobs := pending_jobs s @ filter (\<lambda>j. \<not> may_run s j) xs\<rparr>)"
  using assms
proof (induction xs arbitrary: s pre)
  case (Cons a xs)
  show ?case
  proof (cases "may_run s a")
    case True
    then have "\<not> group_blocked s a \<or> allowed_job s = Some a"
      by (auto simp: may_run_def)
    with True show ?thesis
      using Cons.IH [of s "pre @ [a]"] Cons.prems by auto
  next
    case False
    let ?s = "s\<lparr>joblist := pre @ xs, pending_jobs := pending_jobs s @ [a]\<rparr>"
    have "usfstl_sched_block_job_in_group s a = ?s"
      using Cons.prems by (subst block_job_in_group_eq) (auto simp: remove1_append)
    moreover have "may_run ?s = may_run s"
      by (simp add: fun_eq_iff may_run_def)
    ultimately show ?thesis
      using False Cons.IH [of ?s pre] Cons.prems by (simp add: may_run_def)
  qed
qed simp

lemma remove_blocked_jobs_eq:
  assumes "distinct (joblist s @ pending_jobs s)"
  shows "usfstl_sched_remove_blocked_jobs s =
    Inr (s\<lparr>joblist := filter (may_run s) (joblist s),
           pending_jobs := pending_jobs s @ filter (\<lambda>j. \<not> may_run s j) (joblist s)\<rparr>)"
proof -
  let ?body = "\<lambda>j s. if allowed_job s = Some j then Inr s
            else if group_blocked s j then Inr (usfstl_sched_block_job_in_group s j)
            else Inr s"
  have "usfstl_sched_remove_blocked_jobs s = fold_res ?body (joblist s) s"
    unfolding usfstl_sched_remove_blocked_jobs_def
  proof (rule for_each_safe_eq_fold [where J = "\<lambda>s. distinct (joblist s @ pending_jobs s)" and pre = "[]"])
    fix a pre post and s s' :: "'a usfstl_scheduler"
    assume "distinct (joblist s @ pending_jobs s)" "joblist s = pre @ a # post" "?body a s = Inr s'"
    then show "distinct (joblist s' @ pending_jobs s') \<and> distinct (joblist s') \<and> (\<exists>pre'. joblist s' = pre' @ post)"
      by (auto simp: block_job_in_group_eq remove1_append split: if_splits)
  qed (use assms in auto)
  then show ?thesis
    using remove_blocked_fold [of s "[]" "joblist s"] assms by simp
qed

lemma core_remove_blocked_jobs:
  assumes "sched_core_at now s"
  shows "sched_core_at now (s\<lparr>joblist := filter P (joblist s),
           pending_jobs := pending_jobs s @ filter (\<lambda>j. \<not> P j) (joblist s)\<rparr>)"
  using assms by (auto simp: sched_core_at_def sorted_wrt_filter)

lemma inv_remove_blocked_jobs:
  assumes "sched_core_at now s" and "\<forall>j \<in> set (pending_jobs s). group_blocked s j"
    and "usfstl_sched_remove_blocked_jobs s = Inr s'"
  shows "sched_inv_at now s'"
proof -
  have "distinct (joblist s @ pending_jobs s)"
    using assms(1) by (simp add: sched_core_at_def)
  then have s': "s' = s\<lparr>joblist := filter (may_run s) (joblist s),
           pending_jobs := pending_jobs s @ filter (\<lambda>j. \<not> may_run s j) (joblist s)\<rparr>"
    using assms(3) by (simp add: remove_blocked_jobs_eq)
  have "sched_core_at now s'"
    unfolding s' by (rule core_remove_blocked_jobs [OF assms(1)])
  moreover have "may_run s' = may_run s" and "group_blocked s' = group_blocked s"
    by (simp_all add: s' fun_eq_iff may_run_def)
  ultimately show ?thesis
    using assms(2) by (auto simp: sched_inv_at_def) (auto simp: s' may_run_def)
qed

lemma group_blocked_more:
  "group_blocked s j \<Longrightarrow> group_blocked (s\<lparr>blocked_groups := blocked_groups s OR g\<rparr>) j"
proof -
  let ?x = "group_bit (group (jobs s j))"
  have absorb: "(?x AND (blocked_groups s OR g)) AND blocked_groups s = ?x AND blocked_groups s"
    by (auto intro!: bit_eqI simp: bit_and_iff bit_or_iff)
  assume "group_blocked s j"
  then have "?x AND (blocked_groups s OR g) \<noteq> 0"
    using absorb by (auto simp: group_blocked_def)
  then show ?thesis
    by (simp add: group_blocked_def)
qed

lemma inv_block_groups:
  assumes "sched_inv_at now s" and "usfstl_sched_block_groups s groups job = Inr (save, s')"
  shows "sched_inv_at now s'"
proof (rule inv_remove_blocked_jobs)
  let ?s = "s\<lparr>blocked_groups := blocked_groups s OR groups, allowed_job := job\<rparr>"
  show "usfstl_sched_remove_blocked_jobs ?s = Inr s'"
    using assms(2) by (auto simp: usfstl_sched_block_groups_def res_simps Let_def)
  show "sched_core_at now ?s" and "\<forall>j \<in> set (pending_jobs ?s). group_blocked ?s j"
    using assms(1) group_blocked_more [of s] by (auto simp: sched_inv_at_def)
qed

lemma inv_block_job:
  assumes "sched_inv_at now s" and "usfstl_sched_block_job s j = Inr s'"
  shows "sched_inv_at now s'"
proof (cases "usfstl_job_scheduled s j")
  case True
  have "s' = with_job j (\<lambda>b. b\<lparr>blocked := True, pending := True\<rparr>) (usfstl_sched_del_job s j)"
    using assms(2) True by (auto simp: usfstl_sched_block_job_def res_simps with_job_def
        usfstl_sched_del_job_def usfstl_job_scheduled_def Let_def)
  then show ?thesis
    using inv_with_job [OF inv_del_job [OF assms(1)], of j j] del_job_not_scheduled [of now s j] assms(1)
    by (simp add: sched_inv_at_def)
next
  case False
  then have "s' = with_job j (\<lambda>b. b\<lparr>blocked := True\<rparr>) s"
    using assms(2) by (auto simp: usfstl_sched_block_job_def res_simps with_job_def
        usfstl_job_scheduled_def Let_def)
  then show ?thesis
    using False assms(1) by (simp add: inv_with_job)
qed

lemma inv_enqueue:
  assumes "sched_inv_at now s" and "\<not> usfstl_job_scheduled s j" and "group (jobs s j) < 32"
    and "\<not> blocked (jobs s j)" and "in_window now (start (jobs s j))" and "may_run s j"
  shows "sched_inv_at now (s\<lparr>joblist := insert_before_first (job_goes_before (jobs s) j) j (joblist s)\<rparr>)"
  using assms core_enqueue [of now s j] by (auto simp: sched_inv_at_def may_run_def)

lemma inv_append_pending:
  assumes "sched_inv_at now s" and "\<not> usfstl_job_scheduled s j" and "group (jobs s j) < 32"
    and "\<not> blocked (jobs s j)" and "group_blocked s j"
  shows "sched_inv_at now (s\<lparr>pending_jobs := pending_jobs s @ [j]\<rparr>)"
  using assms core_append_pending [of now s j] by (auto simp: sched_inv_at_def may_run_def)

lemma inv_pendingD: "sched_inv_at now s \<Longrightarrow> pending (jobs s j) \<Longrightarrow> blocked (jobs s j)"
  by (simp add: sched_inv_at_def sched_core_at_def)

text \<open>The three ways in which adding a job succeeds.\<close>

lemma add_job_elim:
  assumes "usfstl_sched_add_job H s j = Inr s'" and "usfstl_sched_current_time H s = (now, s1)"
  obtains (blocked) "blocked (jobs s1 j)" "s' = with_job j (\<lambda>b. b\<lparr>start := 0, pending := True\<rparr>) s1"
      "usfstl_time_cmp (start (jobs s1 j)) (\<ge>) now" "\<not> usfstl_job_scheduled s1 j" "group (jobs s1 j) < 32"
  | (held) "\<not> blocked (jobs s1 j)" "\<not> may_run s1 j"
      "s' = (with_job j (\<lambda>b. b\<lparr>start := 0\<rparr>) s1)\<lparr>pending_jobs := pending_jobs s1 @ [j]\<rparr>"
      "usfstl_time_cmp (start (jobs s1 j)) (\<ge>) now" "\<not> usfstl_job_scheduled s1 j" "group (jobs s1 j) < 32"
  | (queued) st s2 where "\<not> blocked (jobs s1 j)" "may_run s1 j"
      "usfstl_sched_external_request H
         (s1\<lparr>joblist := insert_before_first (job_goes_before (jobs s1) j) j (joblist s1)\<rparr>)
         (start (jobs s1 j)) = Inr (st, s2)"
      "(case next_time_changed H of None \<Rightarrow> Inr s2 | Some changed \<Rightarrow> changed s2) = Inr s'"
      "usfstl_time_cmp (start (jobs s1 j)) (\<ge>) now" "\<not> usfstl_job_scheduled s1 j" "group (jobs s1 j) < 32"
proof -
  note unf = assms(1) [unfolded usfstl_sched_add_job_def assms(2), simplified, simplified res_simps]
  then have g: "usfstl_time_cmp (start (jobs s1 j)) (\<ge>) now" "\<not> usfstl_job_scheduled s1 j"
      "group (jobs s1 j) < 32"
    by auto
  show thesis
  proof (cases "blocked (jobs s1 j)")
    case True
    with unf show thesis by (intro blocked g) auto
  next
    case nb: False
    show thesis
    proof (cases "may_run s1 j")
      case True
      then show thesis
        using unf nb by (auto simp: may_run_def Let_def res_simps split: if_splits intro: queued g)
    next
      case False
      then show thesis
        using unf nb by (intro held g) (auto simp: may_run_def)
    qed
  qed
qed

text \<open>The two ways in which setting the time succeeds; neither calls \<^verbatim>\<open>time_advanced\<close>.\<close>

lemma set_time_raw_elim:
  assumes "usfstl_sched_set_time_raw H s t = Inr s'"
  obtains (own) e where "external_set_time H = None \<and> e = env s \<or>
        (\<exists>f. external_set_time H = Some f \<and> f (env s) t = Inr e)"
      "external_get_time H = None" "usfstl_time_cmp t (\<ge>) (current_time s)"
      "s' = s\<lparr>current_time := t, env := e\<rparr>"
  | (external) g e e2 where "external_set_time H = None \<and> e = env s \<or>
        (\<exists>f. external_set_time H = Some f \<and> f (env s) t = Inr e)"
      "external_get_time H = Some g" "g (current_time s) e = (t, e2)" "s' = s\<lparr>env := e2\<rparr>"
proof -
  obtain e where set: "external_set_time H = None \<and> e = env s \<or>
        (\<exists>f. external_set_time H = Some f \<and> f (env s) t = Inr e)"
    using assms by (cases "external_set_time H") (auto simp: usfstl_sched_set_time_raw_def res_simps)
  then have first: "(case external_set_time H of None \<Rightarrow> Inr s
      | Some f \<Rightarrow> bind_res (f (env s) t) (\<lambda>e. Inr (s\<lparr>env := e\<rparr>))) = Inr (s\<lparr>env := e\<rparr>)"
    by auto
  note rest = assms [unfolded usfstl_sched_set_time_raw_def first bind_res_simps]
  show thesis
  proof (cases "external_get_time H")
    case None
    with rest show thesis
      by (intro own [OF set]) (auto simp: res_simps)
  next
    case (Some g)
    with rest show thesis
      by (intro external [OF set Some, of "snd (g (current_time s) e)"])
        (auto simp: usfstl_sched_current_time_def res_simps split: prod.splits)
  qed
qed

lemma set_time_own:
  assumes "external_get_time H = None" and "external_set_time H = None"
    and "usfstl_time_cmp t (\<ge>) (current_time s)"
    and "\<And>j. first_item (joblist s) = Some j \<Longrightarrow> usfstl_time_cmp t (\<le>) (start (jobs s j))"
  shows "usfstl_sched_set_time H s t = Inr (s\<lparr>current_time := t\<rparr>)"
proof -
  have "case first_item (joblist s) of None \<Rightarrow> True | Some j \<Rightarrow> usfstl_time_cmp t (\<le>) (start (jobs s j))"
    using assms(4) by (auto split: option.split)
  then show ?thesis
    using assms(1-3) by (simp add: usfstl_sched_set_time_def usfstl_sched_next_pending_def
        usfstl_sched_set_time_raw_def)
qed

section \<open>The contract of the callbacks, and what every operation keeps\<close>

text \<open>
  What \<^verbatim>\<open>sched.c\<close> relies on: reading the time does not change it, setting it never
  moves it back, a request that is answered "can run" has no other effect, and
  requests, waiting and the change notification leave the scheduler in a state
  that satisfies the invariant (they only use the operations of this theory).
\<close>

locale sched_env =
  fixes H :: "'x sched_hooks" and env_ok :: "'x \<Rightarrow> bool"
  assumes get_time_stable: "external_get_time H = Some g \<Longrightarrow> env_ok e \<Longrightarrow> g c e = (t, e') \<Longrightarrow>
      env_ok e' \<and> g c e' = (t, e')"
    and set_time_env: "external_set_time H = Some f \<Longrightarrow> env_ok e \<Longrightarrow> f e t = Inr e' \<Longrightarrow> env_ok e'"
    and set_time_forward: "external_set_time H = Some f \<Longrightarrow> external_get_time H = Some g \<Longrightarrow> env_ok e \<Longrightarrow>
      f e t = Inr e' \<Longrightarrow> fst (g c e') = t \<Longrightarrow> usfstl_time_cmp t (\<ge>) (fst (g c e))"
    and request_ok: "external_request H = Some r \<Longrightarrow> sched_ok H env_ok s \<Longrightarrow> r s t = Inr (st, s') \<Longrightarrow>
      sched_ok H env_ok s'"
    and request_can_run: "external_request H = Some r \<Longrightarrow> sched_ok H env_ok s \<Longrightarrow>
      r s t = Inr (USFSTL_SCHED_REQ_STATUS_CAN_RUN, s') \<Longrightarrow> s' = s"
    and wait_ok: "external_wait H = Some w \<Longrightarrow> sched_ok H env_ok s \<Longrightarrow> w s = Inr s' \<Longrightarrow> sched_ok H env_ok s'"
    and changed_ok: "next_time_changed H = Some n \<Longrightarrow> sched_ok H env_ok s \<Longrightarrow> n s = Inr s' \<Longrightarrow> sched_ok H env_ok s'"
begin

lemma ok_cong:
  assumes "sched_ok H env_ok s" and "sched_inv_at (sched_now H s) s'"
    and "current_time s' = current_time s" and "env s' = env s"
  shows "sched_ok H env_ok s'"
  using assms sched_now_cong [of s' s H] by (simp add: sched_ok_def sched_inv_def)

lemma tick:
  assumes "env_ok (env s)" and "usfstl_sched_current_time H s = (now, s1)"
  shows "now = sched_now H s" and "sched_now H s1 = now" and "s1 = s\<lparr>env := env s1\<rparr>"
    and "env_ok (env s1)"
proof -
  show "now = sched_now H s"
    using assms(2) by (simp add: sched_now_def)
  show "sched_now H s1 = now" and "s1 = s\<lparr>env := env s1\<rparr>" and "env_ok (env s1)"
    using assms by (auto simp: usfstl_sched_current_time_def sched_now_def
        split: option.splits prod.splits dest!: get_time_stable)
qed

lemma tick_same:
  assumes "usfstl_sched_current_time H s = (now, s1)"
  shows "joblist s1 = joblist s" and "pending_jobs s1 = pending_jobs s" and "jobs s1 = jobs s"
    and "allowed_job s1 = allowed_job s" and "blocked_groups s1 = blocked_groups s"
  using assms by (auto simp: usfstl_sched_current_time_def split: option.splits prod.splits)

lemma tick_ok:
  assumes "sched_ok H env_ok s" and "usfstl_sched_current_time H s = (now, s1)"
  shows "sched_ok H env_ok s1"
proof -
  have e: "env_ok (env s)" and inv: "sched_inv_at (sched_now H s) s"
    using assms(1) by (simp_all add: sched_ok_def sched_inv_def)
  note t = tick [OF e assms(2)]
  have "sched_inv_at now s1"
    using inv by (subst t(3)) (simp add: t(1))
  then show ?thesis
    using t by (simp add: sched_ok_def sched_inv_def)
qed

lemma external_request_ok:
  assumes "sched_ok H env_ok s" and "usfstl_sched_external_request H s t = Inr (st, s')"
  shows "sched_ok H env_ok s'"
    and "st = USFSTL_SCHED_REQ_STATUS_CAN_RUN \<Longrightarrow>
      \<exists>p q. s' = s\<lparr>prev_external_sync := p, prev_external_sync_set := q\<rparr>"
proof -
  let ?s = "s\<lparr>prev_external_sync := t, prev_external_sync_set := True\<rparr>"
  have ok: "sched_ok H env_ok ?s"
    using assms(1) by (intro ok_cong [OF assms(1)]) (auto simp: sched_ok_def sched_inv_def)
  consider "s' = s" | r where "external_request H = Some r" "r ?s t = Inr (st, s')"
    using assms(2) by (auto simp: usfstl_sched_external_request_def split: option.splits if_splits)
  note cases = this
  show "sched_ok H env_ok s'"
    by (rule cases) (use assms(1) request_ok [OF _ ok] in auto)
  show "\<exists>p q. s' = s\<lparr>prev_external_sync := p, prev_external_sync_set := q\<rparr>"
    if "st = USFSTL_SCHED_REQ_STATUS_CAN_RUN"
  proof (rule cases)
    assume "s' = s"
    then have "s' = s\<lparr>prev_external_sync := prev_external_sync s, prev_external_sync_set := prev_external_sync_set s\<rparr>"
      by simp
    then show ?thesis by blast
  next
    fix r
    assume "external_request H = Some r" "r ?s t = Inr (st, s')"
    then have "s' = ?s"
      using request_can_run [OF _ ok] that by blast
    then show ?thesis by blast
  qed
qed

lemma external_wait_ok:
  assumes "sched_ok H env_ok s" and "usfstl_sched_external_wait H s = Inr s'"
  shows "sched_ok H env_ok s'"
proof -
  let ?s = "s\<lparr>prev_external_sync_set := False, waiting := True\<rparr>"
  obtain w s2 where w: "external_wait H = Some w" "w ?s = Inr s2" "s' = s2\<lparr>waiting := False\<rparr>"
    using assms(2) by (auto simp: usfstl_sched_external_wait_def res_simps split: option.splits)
  have "sched_ok H env_ok ?s"
    using assms(1) by (intro ok_cong [OF assms(1)]) (auto simp: sched_ok_def sched_inv_def)
  then have ok2: "sched_ok H env_ok s2"
    using wait_ok w by blast
  then show ?thesis
    unfolding w(3) by (intro ok_cong [OF ok2]) (auto simp: sched_ok_def sched_inv_def)
qed

lemma changed_hook_ok:
  assumes "sched_ok H env_ok s"
    and "(case next_time_changed H of None \<Rightarrow> Inr s | Some changed \<Rightarrow> changed s) = Inr s'"
  shows "sched_ok H env_ok s'"
  using assms changed_ok by (auto split: option.splits)

lemma add_job_ok:
  assumes ok: "sched_ok H env_ok s" and half: "start (jobs s j) - sched_now H s \<noteq> 2 ^ 63"
    and add: "usfstl_sched_add_job H s j = Inr s'"
  shows "sched_ok H env_ok s'"
proof -
  obtain now s1 where ct: "usfstl_sched_current_time H s = (now, s1)"
    by fastforce
  have e: "env_ok (env s)"
    using ok by (simp add: sched_ok_def)
  note t = tick [OF e ct] and ok1 = tick_ok [OF ok ct]
  have inv1: "sched_inv_at now s1"
    using ok1 t by (simp add: sched_ok_def sched_inv_def)
  note js = tick_same(3) [OF ct]
  from add ct show ?thesis
  proof (cases rule: add_job_elim)
    case blocked
    then show ?thesis
      using inv1 t(2) by (intro ok_cong [OF ok1]) (auto intro!: inv_with_job)
  next
    case held
    let ?s = "with_job j (\<lambda>b. b\<lparr>start := 0\<rparr>) s1"
    have "sched_inv_at now ?s"
      using inv1 held inv_pendingD by (intro inv_with_job) auto
    then have "sched_inv_at now s'"
      unfolding held(3) using held inv_append_pending [of now ?s j]
      by (auto simp: usfstl_job_scheduled_def group_blocked_def may_run_def)
    then show ?thesis
      using t(2) held(3) by (intro ok_cong [OF ok1]) auto
  next
    case (queued st s2)
    have "in_window now (start (jobs s1 j))"
      using queued(5) half js t(1) by (intro time_ge_in_window) auto
    then have "sched_ok H env_ok (s1\<lparr>joblist := insert_before_first (job_goes_before (jobs s1) j) j (joblist s1)\<rparr>)"
      using t(2) queued inv1 by (intro ok_cong [OF ok1]) (auto intro!: inv_enqueue)
    then show ?thesis
      using queued(3,4) external_request_ok(1) changed_hook_ok by blast
  qed
qed

lemma del_job_ok: "sched_ok H env_ok s \<Longrightarrow> sched_ok H env_ok (usfstl_sched_del_job s j)"
  by (rule ok_cong [of s]) (auto simp: sched_ok_def sched_inv_def intro!: inv_del_job)

text \<open>Setting the time keeps the invariant as long as no job is overtaken.\<close>

lemma set_time_raw_forward:
  assumes "env_ok (env s)" and "usfstl_sched_set_time_raw H s t = Inr s'"
  shows "ahead (sched_now H s) t \<le> 2 ^ 63" and "sched_now H s' = t" and "env_ok (env s')"
    and "s' = s\<lparr>current_time := current_time s', env := env s'\<rparr>"
proof -
  have "ahead (sched_now H s) t \<le> 2 ^ 63 \<and> sched_now H s' = t \<and> env_ok (env s')
    \<and> s' = s\<lparr>current_time := current_time s', env := env s'\<rparr>"
    using assms(2)
  proof (cases rule: set_time_raw_elim)
    case (own e)
    then show ?thesis
      using assms(1) set_time_env by (auto simp: time_ge_now_iff sched_now_def usfstl_sched_current_time_def)
  next
    case (external g e e2)
    have e: "env_ok e"
      using external(1) assms(1) set_time_env by auto
    have now: "sched_now H s = fst (g (current_time s) (env s))"
      using external(2) by (simp add: sched_now_def usfstl_sched_current_time_def split: prod.split)
    have "usfstl_time_cmp t (\<ge>) (sched_now H s)"
      using external(1,3) now set_time_forward [OF _ external(2) assms(1), of _ t e "current_time s"] by auto
    then have "ahead (sched_now H s) t \<le> 2 ^ 63"
      by (simp only: time_ge_now_iff)
    then show ?thesis
      using get_time_stable [OF external(2) e external(3)] external(2,4)
      by (simp add: sched_now_def usfstl_sched_current_time_def)
  qed
  then show "ahead (sched_now H s) t \<le> 2 ^ 63" and "sched_now H s' = t" and "env_ok (env s')"
    and "s' = s\<lparr>current_time := current_time s', env := env s'\<rparr>"
    by blast+
qed

lemma set_time_raw_ok:
  assumes "sched_ok H env_ok s" and "usfstl_sched_set_time_raw H s t = Inr s'"
    and "\<And>j. first_item (joblist s) = Some j \<Longrightarrow> usfstl_time_cmp t (\<le>) (start (jobs s j))"
  shows "sched_ok H env_ok s'"
proof -
  have e: "env_ok (env s)" and inv: "sched_inv_at (sched_now H s) s"
    using assms(1) by (simp_all add: sched_ok_def sched_inv_def)
  note f = set_time_raw_forward [OF e assms(2)]
  have "sched_inv_at t s"
    using inv f(1) assms(3) by (rule inv_forward_time)
  then have "sched_inv_at t s'"
    by (subst f(4)) simp
  then show ?thesis
    using f by (simp add: sched_ok_def sched_inv_def)
qed

lemma set_time_ok:
  assumes "sched_ok H env_ok s" and "usfstl_sched_set_time H s t = Inr s'"
  shows "sched_ok H env_ok s'"
  using assms(2) by (intro set_time_raw_ok [OF assms(1)])
    (auto simp: usfstl_sched_set_time_def usfstl_sched_next_pending_def res_simps)

lemma forward_ok:
  assumes "sched_ok H env_ok s" and "usfstl_sched_forward H s t = Inr s'"
    and "\<And>j. first_item (joblist s) = Some j \<Longrightarrow> usfstl_time_cmp t (\<le>) (start (jobs s j))"
  shows "sched_ok H env_ok s'"
proof -
  obtain now s1 where ct: "usfstl_sched_current_time H s = (now, s1)"
    by fastforce
  obtain st s2 where r: "usfstl_sched_external_request H s1 t = Inr (st, s2)"
    and n: "(if st = USFSTL_SCHED_REQ_STATUS_WAIT then usfstl_sched_external_wait H s2
        else usfstl_sched_set_time_raw H s2 t) = Inr s'"
    using assms(2) ct by (auto simp: usfstl_sched_forward_def res_simps)
  have ok1: "sched_ok H env_ok s1"
    using assms(1) ct by (rule tick_ok)
  note ok2 = external_request_ok [OF ok1 r]
  show ?thesis
  proof (cases "st = USFSTL_SCHED_REQ_STATUS_WAIT")
    case True
    then show ?thesis
      using ok2(1) n external_wait_ok by simp
  next
    case False
    then have "st = USFSTL_SCHED_REQ_STATUS_CAN_RUN"
      by (cases st) auto
    then have "joblist s2 = joblist s1" "jobs s2 = jobs s1"
      using ok2(2) by auto
    moreover have "joblist s1 = joblist s" "jobs s1 = jobs s"
      using tick_same [OF ct] by simp_all
    ultimately show ?thesis
      using False n assms(3) by (intro set_time_raw_ok [OF ok2(1)]) auto
  qed
qed

lemma start_ok:
  assumes "sched_ok H env_ok s" and "usfstl_sched_start H s = Inr s'"
  shows "sched_ok H env_ok s'"
proof -
  obtain now s1 where ct: "usfstl_sched_current_time H s = (now, s1)"
    by fastforce
  then obtain st s2 where r: "usfstl_sched_external_request H s1 now = Inr (st, s2)"
    and n: "(if st = USFSTL_SCHED_REQ_STATUS_WAIT then usfstl_sched_external_wait H s2 else Inr s2) = Inr s'"
    using assms(2) by (auto simp: usfstl_sched_start_def res_simps)
  show ?thesis
    using external_request_ok(1) [OF tick_ok [OF assms(1) ct] r] n external_wait_ok
    by (auto split: if_splits)
qed

lemma set_sync_time_ok:
  assumes "sched_ok H env_ok s" and "usfstl_sched_set_sync_time H s t = Inr s'"
  shows "sched_ok H env_ok s'"
proof -
  obtain now s1 where ct: "usfstl_sched_current_time H s = (now, s1)"
    by fastforce
  have ok1: "sched_ok H env_ok s1"
    using assms(1) ct by (rule tick_ok)
  then show ?thesis
    using assms(2) ct by (intro ok_cong [OF ok1])
      (auto simp: usfstl_sched_set_sync_time_def res_simps sched_ok_def sched_inv_def)
qed

lemma next_ok:
  assumes "\<And>j s s'. sched_ok H env_ok s \<Longrightarrow> run j s = Inr s' \<Longrightarrow> sched_ok H env_ok s'"
    and "sched_ok H env_ok s" and "usfstl_sched_next n H run s = Inr (j, s')"
  shows "sched_ok H env_ok s'"
  using assms(2-)
proof (induction n arbitrary: s)
  case (Suc n)
  show ?case
  proof (cases "usfstl_sched_next_pending s None")
    case None
    then show ?thesis
      using Suc external_wait_ok by (auto simp: res_simps split: option.splits)
  next
    case (Some k)
    obtain now s1 where ct: "usfstl_sched_current_time H s = (now, s1)"
      by fastforce
    obtain s2 where f: "(if usfstl_time_cmp (start (jobs s1 k)) (>) now
          then usfstl_sched_forward H s1 (start (jobs s1 k)) else Inr s1) = Inr s2"
      and r: "(if usfstl_sched_next_pending s2 None \<noteq> Some k then usfstl_sched_next n H run s2
          else bind_res (run k (usfstl_sched_del_job s2 k)) (\<lambda>s. Inr (k, s))) = Inr (j, s')"
      using Suc.prems(2) Some ct by (auto simp: res_simps)
    have ok1: "sched_ok H env_ok s1"
      using Suc.prems(1) ct by (rule tick_ok)
    have k: "first_item (joblist s1) = Some k"
      using Some tick_same(1) [OF ct] by (simp add: usfstl_sched_next_pending_def)
    have ok2: "sched_ok H env_ok s2"
      using f ok1 forward_ok [OF ok1, of "start (jobs s1 k)" s2] k by (auto split: if_splits)
    show ?thesis
      using r Suc.IH [OF ok2] assms(1) [OF del_job_ok [OF ok2]] by (auto simp: res_simps split: if_splits)
  qed
qed simp

lemma restore_job_ok:
  assumes "sched_ok H env_ok s" and "start (jobs s j) - sched_now H s \<noteq> 2 ^ 63"
    and "usfstl_sched_restore_job H s j = Inr s'"
  shows "sched_ok H env_ok s'"
proof -
  let ?d = "usfstl_sched_del_job s j"
  obtain now s1 where ct: "usfstl_sched_current_time H ?d = (now, s1)"
    by fastforce
  have okd: "sched_ok H env_ok ?d"
    using assms(1) by (rule del_job_ok)
  have ed: "env_ok (env ?d)"
    using okd by (simp add: sched_ok_def)
  have ok1: "sched_ok H env_ok s1" and t: "sched_now H s1 = now" "now = sched_now H s"
    using tick_ok [OF okd ct] tick [OF ed ct] sched_now_cong [of ?d s H] by simp_all
  obtain s2 where ct1: "usfstl_sched_current_time H s1 = (now, s2)"
    using t(1) by (metis sched_now_def prod.collapse)
  have ok2: "sched_ok H env_ok s2" and now2: "sched_now H s2 = now"
    using tick_ok [OF ok1 ct1] tick(2) [OF _ ct1] ok1 by (simp_all add: sched_ok_def)
  have same: "jobs s1 = jobs s" "jobs s2 = jobs s"
    using tick_same [OF ct] tick_same [OF ct1] by simp_all
  show ?thesis
  proof (cases "usfstl_time_cmp (start (jobs s j)) (<) now")
    case False
    then have "usfstl_sched_add_job H s1 j = Inr s'"
      using assms(3) ct same by (simp add: usfstl_sched_restore_job_def)
    then show ?thesis
      using add_job_ok [OF ok1] assms(2) t same by simp
  next
    case True
    let ?w = "with_job j (\<lambda>b. b\<lparr>start := now\<rparr>) s2"
    have add: "usfstl_sched_add_job H ?w j = Inr s'"
      using assms(3) ct ct1 same True by (simp add: usfstl_sched_restore_job_def)
    have "\<not> usfstl_job_scheduled s2 j"
      using del_job_not_scheduled [of _ s j] assms(1) tick_same [OF ct] tick_same [OF ct1]
      by (auto simp: usfstl_job_scheduled_def sched_ok_def sched_inv_def sched_inv_at_def)
    then have "sched_ok H env_ok ?w"
      using ok2 inv_pendingD by (intro ok_cong [OF ok2] inv_with_job) (auto simp: sched_ok_def sched_inv_def)
    then show ?thesis
      using sched_now_cong [of ?w s2 H] now2 by (intro add_job_ok [OF _ _ add]) simp_all
  qed
qed

lemma unblock_job_ok:
  assumes "sched_ok H env_ok s" and "pending (jobs s j) \<Longrightarrow> start (jobs s j) - sched_now H s \<noteq> 2 ^ 63"
    and "usfstl_sched_unblock_job H s j = Inr s'"
  shows "sched_ok H env_ok s'"
proof -
  have inv: "sched_inv_at (sched_now H s) s"
    using assms(1) by (simp add: sched_ok_def sched_inv_def)
  have b: "blocked (jobs s j)"
    using assms(3) by (simp add: usfstl_sched_unblock_job_def res_simps)
  have ns: "\<not> usfstl_job_scheduled s j"
    using inv b by (auto simp: usfstl_job_scheduled_def sched_inv_at_def sched_core_at_def)
  have upd: "sched_ok H env_ok (with_job j f s)" if "\<not> pending (f (jobs s j))" for f
    using that inv ns assms(1) by (intro ok_cong [OF assms(1)] inv_with_job) auto
  show ?thesis
  proof (cases "pending (jobs s j)")
    case False
    then have "s' = with_job j (\<lambda>b. b\<lparr>blocked := False\<rparr>) s"
      using assms(3) by (simp add: usfstl_sched_unblock_job_def res_simps)
    then show ?thesis
      using upd False by simp
  next
    case True
    let ?w = "with_job j (\<lambda>b. b\<lparr>blocked := False, pending := False\<rparr>) s"
    have "with_job j (\<lambda>b. b\<lparr>pending := False\<rparr>) (with_job j (\<lambda>b. b\<lparr>blocked := False\<rparr>) s) = ?w"
      by (simp add: with_job_def)
    then have r: "usfstl_sched_restore_job H ?w j = Inr s'"
      using assms(3) True by (simp add: usfstl_sched_unblock_job_def res_simps)
    have "start (jobs ?w j) - sched_now H ?w \<noteq> 2 ^ 63"
      using assms(2) True sched_now_cong [of ?w s H] by simp
    then show ?thesis
      using restore_job_ok [OF upd _ r] by simp
  qed
qed

end

section \<open>Callbacks that leave the queues alone\<close>

text \<open>
  Restoring blocked groups walks the list of pending jobs while it adds them
  back one by one; this needs callbacks that do not change the queues (the
  ones of a linked scheduler, of the wall clock and of the time controller only
  send or record something).
\<close>

definition same_queues :: "'x usfstl_scheduler \<Rightarrow> 'x usfstl_scheduler \<Rightarrow> bool" where
  "same_queues s s' \<longleftrightarrow> joblist s' = joblist s \<and> pending_jobs s' = pending_jobs s
     \<and> jobs s' = jobs s \<and> allowed_job s' = allowed_job s \<and> blocked_groups s' = blocked_groups s"

lemma core_cong:
  assumes "sched_core_at now s" and "joblist s' = joblist s" and "pending_jobs s' = pending_jobs s"
    and "jobs s' = jobs s"
  shows "sched_core_at now s'"
  using assms by (simp add: sched_core_at_def)

locale sched_quiet = sched_env +
  assumes request_quiet: "external_request H = Some r \<Longrightarrow> env_ok (env s) \<Longrightarrow> r s t = Inr (st, s') \<Longrightarrow>
      same_queues s s' \<and> sched_now H s' = sched_now H s \<and> env_ok (env s')"
    and changed_quiet: "next_time_changed H = Some n \<Longrightarrow> env_ok (env s) \<Longrightarrow> n s = Inr s' \<Longrightarrow>
      same_queues s s' \<and> sched_now H s' = sched_now H s \<and> env_ok (env s')"
begin

lemma external_request_quiet:
  assumes "env_ok (env s)" and "usfstl_sched_external_request H s t = Inr (st, s')"
  shows "same_queues s s' \<and> sched_now H s' = sched_now H s \<and> env_ok (env s')"
proof -
  let ?s = "s\<lparr>prev_external_sync := t, prev_external_sync_set := True\<rparr>"
  consider "s' = s" | r where "external_request H = Some r" "r ?s t = Inr (st, s')"
    using assms(2) by (auto simp: usfstl_sched_external_request_def split: option.splits if_splits)
  then show ?thesis
  proof cases
    case 1
    then show ?thesis
      using assms(1) by (simp add: same_queues_def)
  next
    case 2
    then show ?thesis
      using request_quiet [OF 2(1) _ 2(2)] assms(1) sched_now_cong [of ?s s H]
      by (simp add: same_queues_def)
  qed
qed

text \<open>A job that may run is put on the list at once, with its start moved up to now if it has passed.\<close>

lemma restore_job_queued:
  assumes core: "sched_core_at (sched_now H s) s" and e: "env_ok (env s)"
    and j: "\<not> blocked (jobs s j)" "may_run s j" "start (jobs s j) - sched_now H s \<noteq> 2 ^ 63"
    and res: "usfstl_sched_restore_job H s j = Inr s'"
  shows "sched_core_at (sched_now H s) s' \<and> sched_now H s' = sched_now H s \<and> env_ok (env s')
    \<and> set (joblist s') = insert j (set (joblist s)) \<and> pending_jobs s' = remove1 j (pending_jobs s)
    \<and> (\<forall>k. k \<noteq> j \<longrightarrow> jobs s' k = jobs s k) \<and> (\<exists>t. jobs s' j = (jobs s j)\<lparr>start := t\<rparr>)
    \<and> allowed_job s' = allowed_job s \<and> blocked_groups s' = blocked_groups s"
proof -
  let ?d = "usfstl_sched_del_job s j"
  let ?now = "sched_now H s"
  obtain now s1 where ct: "usfstl_sched_current_time H ?d = (now, s1)"
    by fastforce
  have now: "now = ?now" and n1: "sched_now H s1 = ?now" and e1: "env_ok (env s1)"
    using tick [of ?d, OF _ ct] e sched_now_cong [of ?d s H] by simp_all
  obtain s2 where ct1: "usfstl_sched_current_time H s1 = (?now, s2)"
    using n1 by (metis sched_now_def prod.collapse)
  define w where "w = (if usfstl_time_cmp (start (jobs s j)) (<) ?now
      then with_job j (\<lambda>b. b\<lparr>start := ?now\<rparr>) s2 else s1)"
  have add: "usfstl_sched_add_job H w j = Inr s'"
    using res ct ct1 now tick_same(3) [OF ct] by (simp add: usfstl_sched_restore_job_def w_def split: if_splits)
  have w: "joblist w = remove1 j (joblist s)" "pending_jobs w = remove1 j (pending_jobs s)"
    "allowed_job w = allowed_job s" "blocked_groups w = blocked_groups s"
    "\<forall>k. k \<noteq> j \<longrightarrow> jobs w k = jobs s k" "\<exists>t. jobs w j = (jobs s j)\<lparr>start := t\<rparr>"
    using tick_same [OF ct] tick_same [OF ct1] by (auto simp: w_def del_job_lists intro: exI [of _ "start (jobs s j)"])
  have wn: "sched_now H w = ?now" "env_ok (env w)"
    using n1 e1 tick [OF e1 ct1] sched_now_cong [of "with_job j (\<lambda>b. b\<lparr>start := ?now\<rparr>) s2" s2 H]
    by (simp_all add: w_def)
  obtain now3 s3 where ct3: "usfstl_sched_current_time H w = (now3, s3)"
    by fastforce
  have n3: "now3 = ?now" "sched_now H s3 = ?now" "env_ok (env s3)"
    using tick [OF wn(2) ct3] wn(1) by simp_all
  note s3 = tick_same [OF ct3]
  have js: "jobs w j = (if usfstl_time_cmp (start (jobs s j)) (<) ?now
      then (jobs s j)\<lparr>start := ?now\<rparr> else jobs s j)"
    using tick_same [OF ct] tick_same [OF ct1] by (simp add: w_def)
  have win: "in_window ?now (start (jobs w j))"
    using js j(3) by (auto intro: not_lt_in_window)
  have ns: "\<not> usfstl_job_scheduled s3 j"
    using core by (auto simp: usfstl_job_scheduled_def s3 w sched_core_at_def)
  have "sched_core_at ?now (with_job j (\<lambda>_. jobs w j) ?d)"
    using core j(1) by (intro core_with_job core_del_job del_job_not_scheduled) (auto simp: js sched_core_at_def)
  then have core3: "sched_core_at ?now s3"
    by (rule core_cong) (use w s3 in \<open>auto simp: del_job_lists fun_eq_iff\<close>)
  from add ct3 show ?thesis
  proof (cases rule: add_job_elim)
    case (queued st s4)
    let ?q = "s3\<lparr>joblist := insert_before_first (job_goes_before (jobs s3) j) j (joblist s3)\<rparr>"
    have "sched_core_at ?now ?q"
      using core3 ns queued(7) js j(1) s3 win by (intro core_enqueue) auto
    moreover have r: "same_queues ?q s4 \<and> sched_now H s4 = ?now \<and> env_ok (env s4)"
      using external_request_quiet [OF _ queued(3)] n3 sched_now_cong [of ?q s3 H] by simp
    moreover have "same_queues s4 s' \<and> sched_now H s' = ?now \<and> env_ok (env s')"
      using queued(4) r changed_quiet [of _ s4 s'] by (auto simp: same_queues_def split: option.splits)
    moreover have "insert j (set (remove1 j (joblist s))) = insert j (set (joblist s))"
      by auto (metis in_set_remove1)+
    ultimately show ?thesis
      using core_cong [of ?now ?q s'] w s3 by (simp add: same_queues_def)
  qed (use j w s3 in \<open>auto simp: may_run_def group_blocked_def\<close>)
qed

abbreviation restore_body :: "nat \<Rightarrow> 'a usfstl_scheduler \<Rightarrow> 'a usfstl_scheduler res" where
  "restore_body \<equiv> \<lambda>j s. if allowed_job s = Some j \<or> \<not> group_blocked s j
     then usfstl_sched_restore_job H s j else Inr s"

abbreviation restoring :: "u64 \<Rightarrow> 'a usfstl_scheduler \<Rightarrow> bool" where
  "restoring now s \<equiv> sched_core_at now s \<and> sched_now H s = now \<and> env_ok (env s)
     \<and> (\<forall>j \<in> set (pending_jobs s). start (jobs s j) - now \<noteq> 2 ^ 63)"

lemma restore_body_step:
  assumes "restoring now s" and "pending_jobs s = pre @ a # post" and "restore_body a s = Inr s'"
  shows "restoring now s'" and "pending_jobs s' = (if may_run s a then pre else pre @ [a]) @ post"
    and "set (joblist s') = (if may_run s a then insert a (set (joblist s)) else set (joblist s))"
    and "may_run s' = may_run s" and "group_blocked s' = group_blocked s"
proof -
  have "restoring now s' \<and> pending_jobs s' = (if may_run s a then pre else pre @ [a]) @ post
    \<and> set (joblist s') = (if may_run s a then insert a (set (joblist s)) else set (joblist s))
    \<and> may_run s' = may_run s \<and> group_blocked s' = group_blocked s"
  proof (cases "may_run s a")
    case True
    then have res: "usfstl_sched_restore_job H s a = Inr s'"
      using assms(3) by (auto simp: may_run_def split: if_splits)
    have a: "\<not> blocked (jobs s a)" "start (jobs s a) - now \<noteq> 2 ^ 63" "a \<notin> set pre" "a \<notin> set post"
      using assms(1,2) by (auto simp: sched_core_at_def)
    have core: "sched_core_at (sched_now H s) s" and "env_ok (env s)"
      using assms(1) by auto
    note r = restore_job_queued [OF this a(1) True _ res]
    have grp: "group (jobs s' k) = group (jobs s k)" for k
      using r a(2) assms(1) by (cases "k = a") auto
    have pre: "pending_jobs s' = pre @ post"
      using r a assms(1,2) by (simp add: remove1_append)
    have gb: "group_blocked s' = group_blocked s"
      using r a(2) assms(1) by (simp add: fun_eq_iff group_blocked_def grp)
    have mr: "may_run s' = may_run s"
      using r a(2) assms(1) gb by (simp add: fun_eq_iff may_run_def)
    have "\<forall>j \<in> set (pending_jobs s'). start (jobs s' j) - now \<noteq> 2 ^ 63"
    proof
      fix k
      assume "k \<in> set (pending_jobs s')"
      then have "k \<noteq> a" "k \<in> set (pending_jobs s)"
        using pre a assms(2) by auto
      then show "start (jobs s' k) - now \<noteq> 2 ^ 63"
        using r a(2) assms(1) by simp
    qed
    moreover have "sched_core_at now s' \<and> sched_now H s' = now \<and> env_ok (env s')
        \<and> set (joblist s') = insert a (set (joblist s))"
      using r a(2) assms(1) by simp
    ultimately show ?thesis
      using gb mr pre True by simp
  next
    case False
    then show ?thesis
      using assms by (auto simp: may_run_def split: if_splits)
  qed
  then show "restoring now s'" and "pending_jobs s' = (if may_run s a then pre else pre @ [a]) @ post"
    and "set (joblist s') = (if may_run s a then insert a (set (joblist s)) else set (joblist s))"
    and "may_run s' = may_run s" and "group_blocked s' = group_blocked s"
    by blast+
qed

lemma restore_fold:
  assumes "restoring now s" and "pending_jobs s = pre @ xs" and "fold_res restore_body xs s = Inr s'"
  shows "restoring now s' \<and> pending_jobs s' = pre @ filter (\<lambda>j. \<not> may_run s j) xs
    \<and> set (joblist s') = set (joblist s) \<union> {j \<in> set xs. may_run s j}
    \<and> may_run s' = may_run s \<and> group_blocked s' = group_blocked s"
  using assms
proof (induction xs arbitrary: s pre)
  case (Cons a xs)
  obtain s1 where s1: "restore_body a s = Inr s1" and rest: "fold_res restore_body xs s1 = Inr s'"
    using Cons.prems(3) unfolding fold_res.simps bind_res_Inr_iff by blast
  note st = restore_body_step [OF Cons.prems(1,2) s1]
  show ?case
    using Cons.IH [OF st(1,2) rest] st by (auto split: if_splits)
qed auto

lemma restore_blocked_jobs_fold:
  assumes "restoring now s"
  shows "usfstl_sched_restore_blocked_jobs H s = fold_res restore_body (pending_jobs s) s"
  unfolding usfstl_sched_restore_blocked_jobs_def
proof (rule for_each_safe_eq_fold [where J = "restoring now" and pre = "[]"])
  fix a pre post and u u' :: "'a usfstl_scheduler"
  assume "restoring now u" "pending_jobs u = pre @ a # post" "restore_body a u = Inr u'"
  note st = restore_body_step [OF this]
  show "restoring now u' \<and> distinct (pending_jobs u') \<and> (\<exists>pre'. pending_jobs u' = pre' @ post)"
    using st(1,2) by (auto simp: sched_core_at_def)
qed (use assms in \<open>auto simp: sched_core_at_def\<close>)

lemma restore_blocked_jobs_result:
  assumes "restoring now s" and "usfstl_sched_restore_blocked_jobs H s = Inr s'"
  shows "restoring now s' \<and> pending_jobs s' = filter (\<lambda>j. \<not> may_run s j) (pending_jobs s)
    \<and> set (joblist s') = set (joblist s) \<union> {j \<in> set (pending_jobs s). may_run s j}
    \<and> may_run s' = may_run s \<and> group_blocked s' = group_blocked s"
  using restore_fold [of now s "[]" "pending_jobs s" s'] assms restore_blocked_jobs_fold [OF assms(1)]
  by simp

lemma restore_groups_ok:
  assumes "sched_ok H env_ok s" and "\<forall>j \<in> set (pending_jobs s). start (jobs s j) - sched_now H s \<noteq> 2 ^ 63"
    and "usfstl_sched_restore_groups H s restore = Inr s'"
  shows "sched_ok H env_ok s'"
proof -
  let ?s = "s\<lparr>blocked_groups := save_groups restore, allowed_job := save_job restore\<rparr>"
  let ?now = "sched_now H s"
  obtain s1 where s1: "usfstl_sched_restore_blocked_jobs H ?s = Inr s1"
    and s': "usfstl_sched_remove_blocked_jobs s1 = Inr s'"
    using assms(3) by (auto simp: usfstl_sched_restore_groups_def res_simps)
  have "restoring ?now ?s"
    using assms(1,2) sched_now_cong [of ?s s H] by (simp add: sched_ok_def sched_inv_def sched_inv_at_def)
  note r = restore_blocked_jobs_result [OF this s1]
  have "sched_inv_at ?now s'"
    using r s' by (intro inv_remove_blocked_jobs [of ?now s1]) (auto simp: may_run_def)
  moreover have "sched_core_at ?now s1"
    using r by blast
  then have "distinct (joblist s1 @ pending_jobs s1)"
    by (simp only: sched_core_at_def)
  then have "current_time s' = current_time s1" "env s' = env s1"
    using s' by (auto simp: remove_blocked_jobs_eq)
  ultimately show ?thesis
    using r sched_now_cong [of s' s1 H] by (simp add: sched_ok_def sched_inv_def)
qed

end

text \<open>A scheduler on its own has no callbacks at all.\<close>

interpretation plain: sched_quiet no_hooks "\<lambda>_. True"
  by unfold_locales (simp_all add: no_hooks_def)

section \<open>Every use of the scheduler keeps the invariant\<close>

text \<open>
  The states that a program can bring a scheduler to: it calls the functions of
  \<^verbatim>\<open>sched.h\<close>, changes the start, priority and group of jobs that are not
  scheduled, and the callbacks of its jobs do the same. A start or restore time
  exactly half the clock period away, which is neither past nor future for the
  wrap-around comparison, is excluded.
\<close>

inductive sched_reach :: "'x sched_hooks \<Rightarrow> 'x usfstl_scheduler \<Rightarrow> 'x usfstl_scheduler \<Rightarrow> bool"
  for H :: "'x sched_hooks" where
  done_nothing: "sched_reach H s s"
| set_job: "sched_reach H s s1 \<Longrightarrow> \<not> usfstl_job_scheduled s1 j \<Longrightarrow>
    sched_reach H s (with_job j (\<lambda>b. b\<lparr>start := t, priority := p, group := g\<rparr>) s1)"
| current_time: "sched_reach H s s1 \<Longrightarrow> usfstl_sched_current_time H s1 = (t, s2) \<Longrightarrow> sched_reach H s s2"
| add_job: "sched_reach H s s1 \<Longrightarrow> start (jobs s1 j) - sched_now H s1 \<noteq> 2 ^ 63 \<Longrightarrow>
    usfstl_sched_add_job H s1 j = Inr s2 \<Longrightarrow> sched_reach H s s2"
| del_job: "sched_reach H s s1 \<Longrightarrow> sched_reach H s (usfstl_sched_del_job s1 j)"
| set_time: "sched_reach H s s1 \<Longrightarrow> usfstl_sched_set_time H s1 t = Inr s2 \<Longrightarrow> sched_reach H s s2"
| sched_start: "sched_reach H s s1 \<Longrightarrow> usfstl_sched_start H s1 = Inr s2 \<Longrightarrow> sched_reach H s s2"
| set_sync_time: "sched_reach H s s1 \<Longrightarrow> usfstl_sched_set_sync_time H s1 t = Inr s2 \<Longrightarrow> sched_reach H s s2"
| block_groups: "sched_reach H s s1 \<Longrightarrow> usfstl_sched_block_groups s1 g job = Inr (save, s2) \<Longrightarrow>
    sched_reach H s s2"
| restore_groups: "sched_reach H s s1 \<Longrightarrow>
    \<forall>j \<in> set (pending_jobs s1). start (jobs s1 j) - sched_now H s1 \<noteq> 2 ^ 63 \<Longrightarrow>
    usfstl_sched_restore_groups H s1 save = Inr s2 \<Longrightarrow> sched_reach H s s2"
| block_job: "sched_reach H s s1 \<Longrightarrow> usfstl_sched_block_job s1 j = Inr s2 \<Longrightarrow> sched_reach H s s2"
| unblock_job: "sched_reach H s s1 \<Longrightarrow> start (jobs s1 j) - sched_now H s1 \<noteq> 2 ^ 63 \<Longrightarrow>
    usfstl_sched_unblock_job H s1 j = Inr s2 \<Longrightarrow> sched_reach H s s2"
| next_job: "sched_reach H s s1 \<Longrightarrow> (\<And>j u u'. run j u = Inr u' \<Longrightarrow> sched_reach H u u') \<Longrightarrow>
    usfstl_sched_next n H run s1 = Inr (j, s2) \<Longrightarrow> sched_reach H s s2"

context sched_quiet
begin

lemma block_groups_ok:
  assumes "sched_ok H env_ok s" and "usfstl_sched_block_groups s g job = Inr (save, s')"
  shows "sched_ok H env_ok s'"
proof -
  let ?s = "s\<lparr>blocked_groups := blocked_groups s OR g, allowed_job := job\<rparr>"
  have inv: "sched_inv_at (sched_now H s) s"
    using assms(1) by (simp add: sched_ok_def sched_inv_def)
  then have "distinct (joblist ?s @ pending_jobs ?s)"
    by (simp add: sched_inv_at_def sched_core_at_def)
  moreover have "usfstl_sched_remove_blocked_jobs ?s = Inr s'"
    using assms(2) by (auto simp: usfstl_sched_block_groups_def res_simps Let_def)
  ultimately have "current_time s' = current_time s" "env s' = env s"
    by (auto simp: remove_blocked_jobs_eq)
  then show ?thesis
    using inv_block_groups [OF inv assms(2)] by (intro ok_cong [OF assms(1)])
qed

lemma block_job_ok:
  assumes "sched_ok H env_ok s" and "usfstl_sched_block_job s j = Inr s'"
  shows "sched_ok H env_ok s'"
proof (rule ok_cong [OF assms(1)])
  show "sched_inv_at (sched_now H s) s'"
    using assms inv_block_job by (auto simp: sched_ok_def sched_inv_def)
  show "current_time s' = current_time s" and "env s' = env s"
    using assms(2) by (auto simp: usfstl_sched_block_job_def res_simps Let_def)
qed

lemma set_job_ok:
  assumes "sched_ok H env_ok s" and "\<not> usfstl_job_scheduled s j"
  shows "sched_ok H env_ok (with_job j (\<lambda>b. b\<lparr>start := t, priority := p, group := g\<rparr>) s)"
proof (rule ok_cong [OF assms(1)])
  show "sched_inv_at (sched_now H s) (with_job j (\<lambda>b. b\<lparr>start := t, priority := p, group := g\<rparr>) s)"
    using assms inv_pendingD by (intro inv_with_job) (auto simp: sched_ok_def sched_inv_def)
qed simp_all

lemma reach_ok: "sched_reach H s s' \<Longrightarrow> sched_ok H env_ok s \<Longrightarrow> sched_ok H env_ok s'"
proof (induction rule: sched_reach.induct)
  case (done_nothing s)
  then show ?case by simp
next
  case (set_job s s1 j t p g)
  then show ?case by (simp add: set_job_ok)
next
  case (current_time s s1 t s2)
  then show ?case by (simp add: tick_ok [of s1])
next
  case (add_job s s1 j s2)
  then show ?case by (simp add: add_job_ok [of s1 j])
next
  case (del_job s s1 j)
  then show ?case by (simp add: del_job_ok)
next
  case (set_time s s1 t s2)
  then show ?case by (simp add: set_time_ok [of s1])
next
  case (sched_start s s1 s2)
  then show ?case by (simp add: start_ok [of s1])
next
  case (set_sync_time s s1 t s2)
  then show ?case by (simp add: set_sync_time_ok [of s1])
next
  case (block_groups s s1 g job save s2)
  then show ?case by (simp add: block_groups_ok [of s1])
next
  case (restore_groups s s1 save s2)
  then show ?case by (simp add: restore_groups_ok [of s1])
next
  case (block_job s s1 j s2)
  then show ?case by (simp add: block_job_ok [of s1])
next
  case (unblock_job s s1 j s2)
  then show ?case by (simp add: unblock_job_ok [of s1 j])
next
  case (next_job s s1 run n j s2)
  then show ?case
    using next_ok [of run s1 n j s2] by blast
qed

end


definition example_jobs :: "job_ptr \<Rightarrow> usfstl_job" where
  "example_jobs j = \<lparr>start = of_nat (10 * j), priority = 0, group = 1, job_name = ''job'',
     job_data = 0, callback = 0, blocked = False, pending = False\<rparr>"

definition example_sched :: "unit usfstl_scheduler" where
  "example_sched = (USFSTL_SCHEDULER ''example'' example_jobs ())\<lparr>joblist := [1, 2]\<rparr>"

lemma in_window_small: "unat t < 2 ^ 63 \<Longrightarrow> in_window 0 t"
  by (simp add: in_window_def ahead_def)

lemma example_sched_inv: "sched_inv no_hooks example_sched"
  by (simp add: sched_inv_def sched_inv_at_def sched_core_at_def example_sched_def example_jobs_def
      USFSTL_SCHEDULER_def sched_now_def usfstl_sched_current_time_def no_hooks_def job_le_def
      may_run_def group_blocked_def in_window_def ahead_def)


section \<open>What the operations do\<close>

lemma plain_current_time [simp]:
  "usfstl_sched_current_time no_hooks s = (current_time s, s)"
  "sched_now no_hooks s = current_time s"
  by (simp_all add: usfstl_sched_current_time_def no_hooks_def sched_now_def)

lemma plain_request [simp]:
  "usfstl_sched_external_request no_hooks s t = Inr (USFSTL_SCHED_REQ_STATUS_CAN_RUN, s)"
  by (simp add: usfstl_sched_external_request_def no_hooks_def)

lemma plain_hooks [simp]:
  "external_request no_hooks = None" "external_wait no_hooks = None"
  "external_get_time no_hooks = None" "external_set_time no_hooks = None"
  "time_advanced no_hooks = None" "next_time_changed no_hooks = None"
  by (simp_all add: no_hooks_def)

lemma plain_inv: "sched_inv no_hooks s = sched_inv_at (current_time s) s"
  by (simp add: sched_inv_def)

text \<open>
  C2: adding a job that may run puts it behind every job that is due earlier, or
  at the same time with at least its priority, and before all others; nothing
  else of the scheduler changes. In particular jobs with equal start and equal
  priority run in the order in which they were added.
\<close>

theorem add_job_fifo:
  assumes "sched_inv no_hooks s" and "\<not> usfstl_job_scheduled s j" and "group (jobs s j) < 32"
    and "\<not> blocked (jobs s j)" and "may_run s j" and "in_window (current_time s) (start (jobs s j))"
  shows "usfstl_sched_add_job no_hooks s j = Inr (s\<lparr>joblist :=
    filter (\<lambda>k. job_le (jobs s) (current_time s) k j) (joblist s) @ j #
    filter (\<lambda>k. \<not> job_le (jobs s) (current_time s) k j) (joblist s)\<rparr>)"
proof -
  have "insert_before_first (job_goes_before (jobs s) j) j (joblist s)
    = filter (\<lambda>k. job_le (jobs s) (current_time s) k j) (joblist s) @ j #
      filter (\<lambda>k. \<not> job_le (jobs s) (current_time s) k j) (joblist s)"
    using assms(1,6) by (intro jq.insert_fifo) (auto simp: plain_inv sched_inv_at_def sched_core_at_def)
  then show ?thesis
    using assms by (auto simp: usfstl_sched_add_job_def may_run_def time_ge_now_iff in_window_def)
qed

theorem add_job_fifo_witness:
  "usfstl_sched_add_job no_hooks example_sched 3 = Inr (example_sched\<lparr>joblist := [1, 2, 3]\<rparr>)"
proof -
  have "usfstl_sched_add_job no_hooks example_sched 3 = Inr (example_sched\<lparr>joblist :=
    filter (\<lambda>k. job_le (jobs example_sched) (current_time example_sched) k 3) (joblist example_sched) @ 3 #
    filter (\<lambda>k. \<not> job_le (jobs example_sched) (current_time example_sched) k 3) (joblist example_sched)\<rparr>)"
    by (rule add_job_fifo [OF example_sched_inv])
      (simp_all add: example_sched_def example_jobs_def USFSTL_SCHEDULER_def usfstl_job_scheduled_def
        may_run_def group_blocked_def in_window_def ahead_def)
  then show ?thesis
    by (simp add: example_sched_def example_jobs_def USFSTL_SCHEDULER_def job_le_def ahead_def)
qed

lemma plain_next:
  assumes "sched_inv no_hooks s" and "joblist s = j # js"
  shows "usfstl_sched_next (Suc n) no_hooks run s =
    bind_res (run j (s\<lparr>joblist := js, current_time := start (jobs s j)\<rparr>)) (\<lambda>s'. Inr (j, s'))"
proof -
  have w: "in_window (current_time s) (start (jobs s j))" and d: "distinct (joblist s @ pending_jobs s)"
    using assms by (auto simp: plain_inv sched_inv_at_def sched_core_at_def)
  have nw: "ahead (current_time s) (start (jobs s j)) \<le> 2 ^ 63"
    using w by (simp add: in_window_def)
  have gt: "usfstl_time_cmp (start (jobs s j)) (>) (current_time s) \<longleftrightarrow> start (jobs s j) \<noteq> current_time s"
    using time_cmp_window(2) [OF w in_window_self] ahead_inj [of "current_time s" "start (jobs s j)" "current_time s"]
    by auto
  have fwd: "(if usfstl_time_cmp (start (jobs s j)) (>) (current_time s)
      then usfstl_sched_forward no_hooks s (start (jobs s j)) else Inr s)
    = Inr (s\<lparr>current_time := start (jobs s j)\<rparr>)"
    using nw by (auto simp: gt usfstl_sched_forward_def usfstl_sched_set_time_raw_def time_ge_now_iff)
  have "usfstl_sched_del_job (s\<lparr>current_time := start (jobs s j)\<rparr>) j
    = s\<lparr>joblist := js, current_time := start (jobs s j)\<rparr>"
    using d assms(2) by (auto simp: usfstl_sched_del_job_def usfstl_job_scheduled_def remove1_idem)
  then show ?thesis
    using assms(2) fwd by (simp add: usfstl_sched_next_pending_def)
qed



text \<open>
  The hook \<^verbatim>\<open>time_advanced\<close> is never called: whenever the scheduler's time is set,
  the result is the same as with a null pointer in its place.
\<close>

theorem time_advanced_never_called:
  "usfstl_sched_set_time_raw H s t = usfstl_sched_set_time_raw (H\<lparr>time_advanced := None\<rparr>) s t"
proof -
  have ct: "usfstl_sched_current_time (H\<lparr>time_advanced := None\<rparr>) = usfstl_sched_current_time H"
    by (simp add: fun_eq_iff usfstl_sched_current_time_def)
  show ?thesis
    unfolding usfstl_sched_set_time_raw_def ct
    by (rule bind_res_cong, simp, rule bind_res_cong) (auto simp: res_simps split: option.splits prod.splits)
qed


definition early_hooks :: "unit sched_hooks" where
  "early_hooks = no_hooks\<lparr>external_request := Some (\<lambda>s t. Inr (USFSTL_SCHED_REQ_STATUS_WAIT, s)),
     external_wait := Some (\<lambda>s. usfstl_sched_set_time no_hooks s 5)\<rparr>"


section \<open>Blocking and restoring groups\<close>

lemma plain_restore_job:
  assumes "sched_core_at (current_time s) s" and "\<not> blocked (jobs s j)" and "may_run s j"
    and "group (jobs s j) < 32" and "in_window (current_time s) (start (jobs s j))"
  shows "usfstl_sched_restore_job no_hooks s j =
    Inr (s\<lparr>joblist := insert_before_first (job_goes_before (jobs s) j) j (remove1 j (joblist s)),
           pending_jobs := remove1 j (pending_jobs s)\<rparr>)"
proof -
  let ?d = "s\<lparr>joblist := remove1 j (joblist s), pending_jobs := remove1 j (pending_jobs s)\<rparr>"
  have d: "usfstl_sched_del_job s j = ?d"
    by (auto simp: usfstl_sched_del_job_def usfstl_job_scheduled_def remove1_idem)
  have ns: "\<not> usfstl_job_scheduled ?d j"
    using del_job_not_scheduled [OF assms(1), of j] d by simp
  have "\<not> usfstl_time_cmp (start (jobs s j)) (<) (current_time s)"
    and "usfstl_time_cmp (start (jobs s j)) (\<ge>) (current_time s)"
    using assms(5) by (simp_all add: time_lt_now_iff time_ge_now_iff in_window_def)
  then show ?thesis
    using assms ns by (auto simp: usfstl_sched_restore_job_def d usfstl_sched_add_job_def may_run_def)
qed

lemma plain_restore_fold:
  assumes "sched_core_at (current_time s) s" and "pending_jobs s = xs"
    and "\<forall>j \<in> set xs. may_run s j \<and> in_window (current_time s) (start (jobs s j))"
  shows "\<exists>js. fold_res plain.restore_body xs s = Inr (s\<lparr>joblist := js, pending_jobs := []\<rparr>)
    \<and> set js = set (joblist s) \<union> set xs \<and> sched_core_at (current_time s) (s\<lparr>joblist := js, pending_jobs := []\<rparr>)"
  using assms
proof (induction xs arbitrary: s)
  case Nil
  then show ?case
    by (intro exI [of _ "joblist s"]) (auto intro: core_cong)
next
  case (Cons j xs)
  have j: "\<not> blocked (jobs s j)" "group (jobs s j) < 32" "j \<notin> set (joblist s)" "j \<notin> set xs"
    using Cons.prems by (auto simp: sched_core_at_def)
  let ?s = "s\<lparr>pending_jobs := xs, joblist := insert_before_first (job_goes_before (jobs s) j) j (joblist s)\<rparr>"
  have body: "plain.restore_body j s = Inr ?s"
    using plain_restore_job [of s j] Cons.prems j by (auto simp: may_run_def remove1_idem)
  have "sched_core_at (current_time s) (usfstl_sched_del_job s j)"
    using Cons.prems(1) by (rule core_del_job)
  moreover have "usfstl_sched_del_job s j = s\<lparr>pending_jobs := xs\<rparr>"
    using j Cons.prems(2) by (auto simp: usfstl_sched_del_job_def usfstl_job_scheduled_def remove1_idem)
  ultimately have "sched_core_at (current_time ?s) ?s"
    using j Cons.prems core_enqueue [of "current_time s" "s\<lparr>pending_jobs := xs\<rparr>" j]
    by (simp add: usfstl_job_scheduled_def)
  moreover have "may_run ?s = may_run s"
    by (simp add: fun_eq_iff may_run_def)
  ultimately obtain js where "fold_res plain.restore_body xs ?s = Inr (?s\<lparr>joblist := js, pending_jobs := []\<rparr>)"
    "set js = set (joblist ?s) \<union> set xs" "sched_core_at (current_time ?s) (?s\<lparr>joblist := js, pending_jobs := []\<rparr>)"
    using Cons.IH [of ?s] Cons.prems(3) by auto
  then show ?case
    unfolding fold_res.simps body bind_res_simps by (intro exI [of _ js]) auto
qed



section \<open>The time up to which a scheduler can run\<close>

lemma ahead_add: "ahead now (now + d) = unat d"
  by (simp add: ahead_def)

lemma sync_cap:
  "usfstl_time_cmp (now + 2 ^ 62) (>) x \<and> usfstl_time_cmp x (\<ge>) now \<longleftrightarrow> ahead now x < 2 ^ 62"
proof (cases "in_window now x")
  case True
  have c: "in_window now (now + 2 ^ 62)" "ahead now (now + 2 ^ 62) = 2 ^ 62"
    by (simp_all add: in_window_def ahead_add)
  show ?thesis
    using time_cmp_window(2) [OF c(1) True] time_cmp_window(4) [OF True in_window_self] c(2) by simp
next
  case False
  then have "\<not> ahead now x < 2 ^ 62"
    by (simp add: in_window_def)
  moreover have "\<not> (usfstl_time_cmp (now + 2 ^ 62) (>) x \<and> usfstl_time_cmp x (\<ge>) now)"
  proof
    assume a: "usfstl_time_cmp (now + 2 ^ 62) (>) x \<and> usfstl_time_cmp x (\<ge>) now"
    then have "x - now = 2 ^ 63"
      using False time_ge_in_window by blast
    then have "x - (now + 2 ^ 62) = 2 ^ 63 - 2 ^ 62"
      by (simp only: diff_diff_eq [symmetric])
    moreover have "\<not> sint (2 ^ 63 - 2 ^ 62 :: u64) < 0"
      by simp
    ultimately show False
      using a unfolding usfstl_time_cmp_def by metis
  qed
  ultimately show ?thesis
    by blast
qed

text \<open>
  C11: the sync time that a scheduler reports is never past the first job on its
  list, never past the external sync point (when that lies ahead), and at most a
  quarter of the clock period away; it is one of these three times.
\<close>

theorem get_sync_time_bounds:
  assumes "sched_inv H s" and "now = sched_now H s" and "sync = fst (usfstl_sched_get_sync_time H s)"
  shows "ahead now sync \<le> 2 ^ 62
    \<and> (\<forall>j \<in> set (joblist s). ahead now sync \<le> ahead now (start (jobs s j)))
    \<and> (next_external_sync_set s \<longrightarrow> in_window now (next_external_sync s) \<longrightarrow>
         ahead now sync \<le> ahead now (next_external_sync s))
    \<and> (sync = now + 2 ^ 62 \<or> next_external_sync_set s \<and> sync = next_external_sync s
       \<or> (\<exists>j js. joblist s = j # js \<and> sync = start (jobs s j)))"
proof -
  define cap where "cap = (if next_external_sync_set s \<and> ahead now (next_external_sync s) < 2 ^ 62
      then next_external_sync s else now + 2 ^ 62)"
  have cap: "ahead now cap \<le> 2 ^ 62" "in_window now cap"
    by (auto simp: cap_def ahead_add in_window_def)
  have win: "in_window now (start (jobs s j))" if "j \<in> set (joblist s)" for j
    using that assms(1,2) by (simp add: sched_inv_def sched_inv_at_def sched_core_at_def)
  have first: "ahead now (start (jobs s j)) \<le> ahead now (start (jobs s k))"
    if "joblist s = j # js" "k \<in> set (joblist s)" for j js k
    using that assms(1,2) by (auto simp: sched_inv_def sched_inv_at_def sched_core_at_def job_le_def)
  have fields: "fst (usfstl_sched_current_time H s) = now"
    "next_external_sync_set (snd (usfstl_sched_current_time H s)) = next_external_sync_set s"
    "next_external_sync (snd (usfstl_sched_current_time H s)) = next_external_sync s"
    "joblist (snd (usfstl_sched_current_time H s)) = joblist s"
    "jobs (snd (usfstl_sched_current_time H s)) = jobs s"
    using assms(2) by (auto simp: sched_now_def usfstl_sched_current_time_def split: option.splits prod.splits)
  have sync: "sync = (case joblist s of [] \<Rightarrow> cap
      | j # _ \<Rightarrow> if usfstl_time_cmp (start (jobs s j)) (<) cap then start (jobs s j) else cap)"
    unfolding assms(3) usfstl_sched_get_sync_time_def
    using fields sync_cap [of now "next_external_sync s"]
    by (auto simp: Let_def case_prod_unfold cap_def usfstl_sched_next_pending_def first_item_def split: list.splits)
  show ?thesis
  proof (cases "joblist s")
    case Nil
    then show ?thesis
      using sync cap by (auto simp: cap_def ahead_add in_window_def)
  next
    case (Cons j js)
    have lt: "usfstl_time_cmp (start (jobs s j)) (<) cap \<longleftrightarrow> ahead now (start (jobs s j)) < ahead now cap"
      using time_cmp_window(1) [OF win cap(2)] Cons by simp
    have le: "ahead now sync \<le> ahead now cap" "ahead now sync \<le> ahead now (start (jobs s j))"
      using sync Cons lt by auto
    have capn: "ahead now cap \<le> ahead now (next_external_sync s)" if "next_external_sync_set s"
      using that by (auto simp: cap_def ahead_add)
    have "sync = cap \<or> sync = start (jobs s j)"
      using sync Cons by (simp split: if_splits)
    then show ?thesis
      using le cap(1) capn first [OF Cons] Cons by (auto simp: cap_def split: if_splits intro: order_trans)
  qed
qed

theorem get_sync_time_bounds_witness:
  "ahead 0 (fst (usfstl_sched_get_sync_time no_hooks example_sched)) \<le> ahead 0 (start (jobs example_sched 2))"
proof -
  have "2 \<in> set (joblist example_sched)" "sched_now no_hooks example_sched = 0"
    by (simp_all add: example_sched_def USFSTL_SCHEDULER_def)
  then show ?thesis
    using get_sync_time_bounds [OF example_sched_inv refl refl] by simp
qed

end
