(* ===== verification/Sched_Link.thy ===== *)
theory Sched_Link
  imports Sched
begin

text \<open>
  Linking one scheduler below another, the second half of \<^verbatim>\<open>src/sched.c\<close>. The
  child's \<open>env\<close> holds the link and the parent scheduler; the parent may have
  callbacks of its own (\<open>PH\<close>). \<open>prun\<close> stands for the callbacks of the parent's
  other jobs, which act on the parent.
\<close>

section \<open>Data and operations\<close>

record 'p sched_link =
  link_parent :: bool
  tick_ratio :: u32
  link_offset :: u64
  link_waiting :: bool
  link_job :: job_ptr
  parent_sched :: "'p usfstl_scheduler"

definition usfstl_sched_link_job_callback :: "'p sched_link \<Rightarrow> 'p sched_link" where
  "usfstl_sched_link_job_callback e = e\<lparr>link_waiting := False\<rparr>"

definition usfstl_sched_link_external_get_time :: "'p sched_hooks \<Rightarrow> u64 \<Rightarrow> 'p sched_link \<Rightarrow> u64 \<times> 'p sched_link" where
  "usfstl_sched_link_external_get_time PH own e =
     (let (parent_time, p) = usfstl_sched_current_time PH (parent_sched e) in
      (DIV_ROUND_UP (parent_time - link_offset e) (ucast (tick_ratio e)), e\<lparr>parent_sched := p\<rparr>))"

definition usfstl_sched_link_external_set_time :: "'p sched_hooks \<Rightarrow> 'p sched_link \<Rightarrow> u64 \<Rightarrow> 'p sched_link res" where
  "usfstl_sched_link_external_set_time PH e time =
     (let parent_time = ucast (tick_ratio e) * time + link_offset e in
      bind_res (usfstl_sched_set_time PH (parent_sched e) parent_time) (\<lambda>p.
      Inr (e\<lparr>parent_sched := p\<rparr>)))"

definition link_time_hooks :: "'p sched_hooks \<Rightarrow> 'p sched_link sched_hooks \<Rightarrow> 'p sched_link sched_hooks" where
  "link_time_hooks PH H = H\<lparr>external_get_time := Some (usfstl_sched_link_external_get_time PH),
     external_set_time := Some (usfstl_sched_link_external_set_time PH)\<rparr>"

text \<open>\<^verbatim>\<open>while (sched->link.waiting) usfstl_sched_next(sched->link.parent)\<close>\<close>

fun link_wait_loop :: "nat \<Rightarrow> 'p sched_hooks \<Rightarrow> (job_ptr \<Rightarrow> 'p usfstl_scheduler \<Rightarrow> 'p usfstl_scheduler res) \<Rightarrow>
    'p sched_link \<Rightarrow> 'p sched_link res" where
  "link_wait_loop 0 PH prun e = (if link_waiting e then Inl OutOfFuel else Inr e)"
| "link_wait_loop (Suc n) PH prun e =
     (if link_waiting e then
        bind_res (usfstl_sched_next (Suc n) PH (\<lambda>j p. if j = link_job e then Inr p else prun j p)
                    (parent_sched e)) (\<lambda>(j, p).
        link_wait_loop n PH prun
          (if j = link_job e then usfstl_sched_link_job_callback (e\<lparr>parent_sched := p\<rparr>)
           else e\<lparr>parent_sched := p\<rparr>))
      else Inr e)"

definition usfstl_sched_link_external_wait :: "nat \<Rightarrow> 'p sched_hooks \<Rightarrow>
    (job_ptr \<Rightarrow> 'p usfstl_scheduler \<Rightarrow> 'p usfstl_scheduler res) \<Rightarrow> 'p sched_link sched_hooks \<Rightarrow>
    'p sched_link usfstl_scheduler \<Rightarrow> 'p sched_link usfstl_scheduler res" where
  "usfstl_sched_link_external_wait fuel PH prun H s =
     bind_res (link_wait_loop fuel PH prun ((env s)\<lparr>link_waiting := True\<rparr>)) (\<lambda>e.
     let s = s\<lparr>env := e\<rparr>;
         (now, s) = usfstl_sched_current_time H s
     in usfstl_sched_set_time H s now)"

definition usfstl_sched_link_external_request :: "'p sched_hooks \<Rightarrow>
    'p sched_link usfstl_scheduler \<Rightarrow> u64 \<Rightarrow> (usfstl_sched_req_status \<times> 'p sched_link usfstl_scheduler) res" where
  "usfstl_sched_link_external_request PH s time =
     (let e = env s;
          parent_time = ucast (tick_ratio e) * time + link_offset e;
          p = usfstl_sched_del_job (parent_sched e) (link_job e);
          p = with_job (link_job e) (\<lambda>b. b\<lparr>start := parent_time\<rparr>) p
      in bind_res (usfstl_sched_add_job PH p (link_job e)) (\<lambda>p.
         Inr (USFSTL_SCHED_REQ_STATUS_WAIT, s\<lparr>env := e\<lparr>parent_sched := p\<rparr>\<rparr>)))"

definition link_hooks :: "nat \<Rightarrow> 'p sched_hooks \<Rightarrow> (job_ptr \<Rightarrow> 'p usfstl_scheduler \<Rightarrow> 'p usfstl_scheduler res) \<Rightarrow>
    'p sched_link sched_hooks \<Rightarrow> 'p sched_link sched_hooks" where
  "link_hooks fuel PH prun H = (link_time_hooks PH H)\<lparr>
     external_request := Some (usfstl_sched_link_external_request PH),
     external_wait := Some (usfstl_sched_link_external_wait fuel PH prun (link_time_hooks PH H))\<rparr>"

definition usfstl_sched_link :: "nat \<Rightarrow> 'p sched_hooks \<Rightarrow> (job_ptr \<Rightarrow> 'p usfstl_scheduler \<Rightarrow> 'p usfstl_scheduler res) \<Rightarrow>
    'p sched_link sched_hooks \<Rightarrow> 'p sched_link usfstl_scheduler \<Rightarrow> u32 \<Rightarrow>
    ('p sched_link sched_hooks \<times> 'p sched_link usfstl_scheduler) res" where
  "usfstl_sched_link fuel PH prun H s ratio =
     usfstl_assert (ratio \<noteq> 0) ''tick_ratio'' (
     usfstl_assert (\<not> link_parent (env s)) ''!sched->link.parent'' (
     usfstl_assert (external_request H = None) ''sched->external_request == NULL'' (
     usfstl_assert (external_wait H = None) ''sched->external_wait == NULL'' (
     usfstl_assert (external_get_time H = None) ''sched->external_get_time == NULL'' (
     usfstl_assert (external_set_time H = None) ''sched->external_set_time == NULL'' (
     let H' = link_hooks fuel PH prun H;
         e = env s;
         p = with_job (link_job e) (\<lambda>b. b\<lparr>job_name := sched_name s\<rparr>) (parent_sched e);
         (parent_time, p) = usfstl_sched_current_time PH p;
         e = e\<lparr>tick_ratio := ratio, link_parent := True, parent_sched := p,
               link_offset := parent_time - current_time s * ucast ratio\<rparr>;
         s = s\<lparr>env := e\<rparr>
     in case usfstl_sched_next_pending s None of
          None \<Rightarrow> Inr (H', s)
        | Some j \<Rightarrow> bind_res (usfstl_sched_external_request H' s (start (jobs s j))) (\<lambda>(_, s).
                    Inr (H', s))))))))"

definition zero_job :: usfstl_job where
  "zero_job = \<lparr>start = 0, priority = 0, group = 0, job_name = [], job_data = 0, callback = 0,
     blocked = False, pending = False\<rparr>"

definition usfstl_sched_unlink :: "'p sched_link sched_hooks \<Rightarrow> 'p sched_link usfstl_scheduler \<Rightarrow>
    ('p sched_link sched_hooks \<times> 'p sched_link usfstl_scheduler) res" where
  "usfstl_sched_unlink H s =
     usfstl_assert (link_parent (env s)) ''sched->link.parent'' (
     let (now, s) = usfstl_sched_current_time H s;
         s = s\<lparr>current_time := now\<rparr>;
         H = H\<lparr>external_get_time := None, external_set_time := None,
               external_wait := None, external_request := None\<rparr>;
         e = env s;
         p = with_job (link_job e) (\<lambda>_. zero_job) (usfstl_sched_del_job (parent_sched e) (link_job e))
     in Inr (H, s\<lparr>env := e\<lparr>link_parent := False, tick_ratio := 0, link_offset := 0,
                          link_waiting := False, parent_sched := p\<rparr>\<rparr>))"

section \<open>Time conversion\<close>

text \<open>
  A linked scheduler reads the time of its parent as the first of its own
  ticks that is not before it: with ratio \<open>r\<close> and \<open>d\<close> parent ticks since the link's
  origin, the time \<open>t\<close> satisfies \<open>d \<le> r * t < d + r\<close>.
\<close>

theorem link_time_is_next_tick:
  assumes "tick_ratio e \<noteq> 0" and "d = unat (sched_now PH (parent_sched e) - link_offset e)"
    and "r = unat (tick_ratio e)" and "d + r \<le> 2 ^ 64"
    and "t = unat (fst (usfstl_sched_link_external_get_time PH own e))"
  shows "d \<le> r * t \<and> r * t < d + r"
proof -
  have "t = (d + r - 1) div r"
    using assms ratio_nonzero unat_DIV_ROUND_UP
    by (simp add: usfstl_sched_link_external_get_time_def sched_now_def case_prod_unfold Let_def)
  moreover have "0 < r"
    using assms(1,3) by (simp add: unat_gt_0)
  ultimately have "r * t + (d + r - 1) mod r = d + r - 1" "(d + r - 1) mod r < r"
    by simp_all
  then show ?thesis
    by linarith
qed

definition example_link :: "unit sched_link" where
  "example_link = \<lparr>link_parent = True, tick_ratio = 4, link_offset = 0, link_waiting = False,
     link_job = 1, parent_sched = example_sched\<lparr>current_time := 6\<rparr>\<rparr>"

theorem link_time_is_next_tick_witness:
  "6 \<le> 4 * unat (fst (usfstl_sched_link_external_get_time no_hooks 0 example_link))
   \<and> 4 * unat (fst (usfstl_sched_link_external_get_time no_hooks 0 example_link)) < 6 + 4"
  by (rule link_time_is_next_tick [of example_link _ no_hooks _ _ 0])
    (simp_all add: example_link_def)

text \<open>
  Setting the time of a linked scheduler and reading it back gives the same
  time, whatever the parent's own callbacks are, as long as the product of ratio
  and time fits in 64 bits.
\<close>

theorem link_time_roundtrip:
  assumes "sched_env PH env_ok" and "env_ok (env (parent_sched e))" and "tick_ratio e \<noteq> 0"
    and "unat (tick_ratio e) * (unat t + 1) \<le> 2 ^ 64"
    and "usfstl_sched_link_external_set_time PH e t = Inr e'"
  shows "fst (usfstl_sched_link_external_get_time PH own e') = t"
proof -
  obtain p where p: "usfstl_sched_set_time_raw PH (parent_sched e) (ucast (tick_ratio e) * t + link_offset e) = Inr p"
    and e': "e' = e\<lparr>parent_sched := p\<rparr>"
    using assms(5) by (auto simp: usfstl_sched_link_external_set_time_def usfstl_sched_set_time_def res_simps Let_def)
  have "sched_now PH p = ucast (tick_ratio e) * t + link_offset e"
    by (rule sched_env.set_time_raw_forward(2) [OF assms(1,2) p])
  then show ?thesis
    using DIV_ROUND_UP_exact [OF ratio_nonzero [OF assms(3)], of t] assms(4)
    by (simp add: e' usfstl_sched_link_external_get_time_def sched_now_def case_prod_unfold Let_def)
qed

theorem link_time_roundtrip_witness:
  "\<exists>e'. usfstl_sched_link_external_set_time no_hooks example_link 2 = Inr e'
     \<and> fst (usfstl_sched_link_external_get_time no_hooks 0 e') = 2"
proof -
  let ?e = "example_link\<lparr>parent_sched := example_sched\<lparr>current_time := 8\<rparr>\<rparr>"
  have s: "usfstl_sched_link_external_set_time no_hooks example_link 2 = Inr ?e"
    by (simp add: example_link_def usfstl_sched_link_external_set_time_def usfstl_sched_set_time_def
        usfstl_sched_set_time_raw_def usfstl_sched_next_pending_def usfstl_time_cmp_def
        example_sched_def example_jobs_def USFSTL_SCHEDULER_def)
  have "fst (usfstl_sched_link_external_get_time no_hooks 0 ?e) = 2"
    by (rule link_time_roundtrip [OF plain.sched_env_axioms _ _ _ s]) (simp_all add: example_link_def)
  then show ?thesis
    using s by blast
qed

section \<open>Waiting for the parent\<close>

text \<open>
  The loop ends: with callbacks that leave the parent alone it runs the jobs in
  front of the link job, then the link job, and the parent's time is the one
  that was asked for.
\<close>

lemma plain_next_inv:
  assumes "sched_inv no_hooks p" and "joblist p = j # js"
  shows "sched_inv no_hooks (p\<lparr>joblist := js, current_time := start (jobs p j)\<rparr>)"
proof -
  have "usfstl_sched_next (Suc 0) no_hooks (\<lambda>_. Inr) p
      = Inr (j, p\<lparr>joblist := js, current_time := start (jobs p j)\<rparr>)"
    by (subst plain_next [OF assms]) simp
  then show ?thesis
    using plain.next_ok [of "\<lambda>_. Inr" p "Suc 0" j] assms(1) by (auto simp: sched_ok_def)
qed

lemma link_wait_loop_reaches:
  assumes "sched_inv no_hooks (parent_sched e)" and "link_job e \<in> set (joblist (parent_sched e))"
    and "length (joblist (parent_sched e)) \<le> n" and "\<And>j p. prun j p = Inr p" and "link_waiting e"
  shows "\<exists>p. link_wait_loop n no_hooks prun e = Inr (e\<lparr>link_waiting := False, parent_sched := p\<rparr>)
    \<and> current_time p = start (jobs (parent_sched e) (link_job e)) \<and> sched_inv no_hooks p"
  using assms(1-3,5)
proof (induction n arbitrary: e)
  case (Suc n)
  obtain j js where js: "joblist (parent_sched e) = j # js"
    using Suc.prems(2) by (cases "joblist (parent_sched e)") auto
  let ?p = "(parent_sched e)\<lparr>joblist := js, current_time := start (jobs (parent_sched e) j)\<rparr>"
  have inv: "sched_inv no_hooks ?p"
    using Suc.prems(1) js by (rule plain_next_inv)
  have nxt: "usfstl_sched_next (Suc n) no_hooks (\<lambda>j p. if j = link_job e then Inr p else prun j p) (parent_sched e)
      = Inr (j, ?p)"
    using assms(4) by (subst plain_next [OF Suc.prems(1) js]) simp
  show ?case
  proof (cases "j = link_job e")
    case True
    then show ?thesis
      unfolding link_wait_loop.simps nxt
      using Suc.prems(4) inv by (cases n) (auto simp: usfstl_sched_link_job_callback_def intro!: exI [of _ ?p])
  next
    case False
    then show ?thesis
      unfolding link_wait_loop.simps nxt
      using Suc.IH [of "e\<lparr>parent_sched := ?p\<rparr>"] Suc.prems js inv by auto
  qed
qed auto

lemma link_hooks_sel [simp]:
  "external_request (link_hooks fuel PH prun H) = Some (usfstl_sched_link_external_request PH)"
  "external_get_time (link_hooks fuel PH prun H) = Some (usfstl_sched_link_external_get_time PH)"
  "external_wait (link_hooks fuel PH prun H) =
     Some (usfstl_sched_link_external_wait fuel PH prun (link_time_hooks PH H))"
  "external_get_time (link_time_hooks PH H) = Some (usfstl_sched_link_external_get_time PH)"
  "external_set_time (link_time_hooks PH H) = Some (usfstl_sched_link_external_set_time PH)"
  by (simp_all add: link_hooks_def link_time_hooks_def)

lemma plain_link_get_time:
  "usfstl_sched_link_external_get_time no_hooks own e =
     (DIV_ROUND_UP (current_time (parent_sched e) - link_offset e) (ucast (tick_ratio e)), e)"
  by (simp add: usfstl_sched_link_external_get_time_def)

text \<open>Setting the child to the tick it has reached changes neither scheduler.\<close>

lemma link_set_time_reached:
  assumes "sched_inv no_hooks (parent_sched (env s))" and "tick_ratio (env s) \<noteq> 0"
    and "unat (tick_ratio (env s)) * (unat t + 1) \<le> 2 ^ 64"
    and "current_time (parent_sched (env s)) = ucast (tick_ratio (env s)) * t + link_offset (env s)"
    and "\<And>j. first_item (joblist s) = Some j \<Longrightarrow> usfstl_time_cmp t (\<le>) (start (jobs s j))"
  shows "usfstl_sched_current_time (link_time_hooks no_hooks H) s = (t, s)"
    and "usfstl_sched_set_time (link_time_hooks no_hooks H) s t = Inr s"
proof -
  have get: "usfstl_sched_link_external_get_time no_hooks c (env s) = (t, env s)" for c
    using DIV_ROUND_UP_exact [OF ratio_nonzero [OF assms(2)], of t] assms(3,4)
    by (simp add: plain_link_get_time)
  then show "usfstl_sched_current_time (link_time_hooks no_hooks H) s = (t, s)"
    by (simp add: usfstl_sched_current_time_def)
  let ?p = "parent_sched (env s)"
  have "usfstl_time_cmp (current_time ?p) (\<le>) (start (jobs ?p j))" if "first_item (joblist ?p) = Some j" for j
  proof -
    have "in_window (current_time ?p) (start (jobs ?p j))"
      using that assms(1) by (auto simp: first_item_Some_iff plain_inv sched_inv_at_def sched_core_at_def)
    from time_cmp_window(3) [OF in_window_self this] show ?thesis
      by simp
  qed
  then have c: "case first_item (joblist ?p) of None \<Rightarrow> True
      | Some j \<Rightarrow> usfstl_time_cmp (current_time ?p) (\<le>) (start (jobs ?p j))"
    by (auto split: option.split)
  have "usfstl_sched_set_time no_hooks ?p (current_time ?p) = Inr ?p"
    using c by (simp add: usfstl_sched_set_time_def usfstl_sched_set_time_raw_def
        usfstl_sched_next_pending_def)
  then have "usfstl_sched_link_external_set_time no_hooks (env s) t = Inr (env s)"
    using assms(4) by (simp add: usfstl_sched_link_external_set_time_def)
  moreover have "case first_item (joblist s) of None \<Rightarrow> True
      | Some j \<Rightarrow> usfstl_time_cmp t (\<le>) (start (jobs s j))"
    using assms(5) by (auto split: option.split)
  ultimately show "usfstl_sched_set_time (link_time_hooks no_hooks H) s t = Inr s"
    using get by (simp add: usfstl_sched_set_time_def usfstl_sched_set_time_raw_def
        usfstl_sched_current_time_def usfstl_sched_next_pending_def)
qed


definition example_child :: "unit sched_link usfstl_scheduler" where
  "example_child = USFSTL_SCHEDULER ''child'' example_jobs
     \<lparr>link_parent = True, tick_ratio = 4, link_offset = 0, link_waiting = False,
      link_job = 3, parent_sched = example_sched\<rparr>"


lemma plain_add_job_lists:
  assumes "usfstl_sched_add_job no_hooks p j = Inr q" and "\<not> usfstl_job_scheduled p j"
  shows "current_time q = current_time p \<and> remove1 j (joblist q) = joblist p
    \<and> remove1 j (pending_jobs q) = pending_jobs p"
  using assms(1) plain_current_time(1)
proof (cases rule: add_job_elim)
  case blocked
  then show ?thesis
    using assms(2) by (simp add: usfstl_job_scheduled_def remove1_idem)
next
  case held
  then show ?thesis
    using assms(2) by (simp add: usfstl_job_scheduled_def remove1_idem remove1_append)
next
  case (queued st s2)
  then show ?thesis
    using assms(2) by (auto simp: usfstl_job_scheduled_def remove1_idem)
qed

text \<open>
  Linking a scheduler below a parent and unlinking it again leaves it at the
  time it had, with its callbacks cleared, and takes the link job off the
  parent's queues again.
\<close>

theorem link_unlink_roundtrip:
  assumes "usfstl_sched_link fuel no_hooks prun no_hooks s ratio = Inr (H, s1)"
    and "\<not> usfstl_job_scheduled (parent_sched (env s)) (link_job (env s))"
    and "unat ratio * (unat (current_time s) + 1) \<le> 2 ^ 64"
  shows "\<exists>s2. usfstl_sched_unlink H s1 = Inr (no_hooks, s2) \<and> \<not> link_parent (env s2)
    \<and> current_time s2 = current_time s \<and> joblist s2 = joblist s
    \<and> current_time (parent_sched (env s2)) = current_time (parent_sched (env s))
    \<and> joblist (parent_sched (env s2)) = joblist (parent_sched (env s))
    \<and> pending_jobs (parent_sched (env s2)) = pending_jobs (parent_sched (env s))"
proof -
  let ?lj = "link_job (env s)"
  let ?p = "with_job ?lj (\<lambda>b. b\<lparr>job_name := sched_name s\<rparr>) (parent_sched (env s))"
  let ?e = "(env s)\<lparr>tick_ratio := ratio, link_parent := True, parent_sched := ?p,
      link_offset := current_time ?p - current_time s * ucast ratio\<rparr>"
  let ?s = "s\<lparr>env := ?e\<rparr>"
  have g: "ratio \<noteq> 0" and H: "H = link_hooks fuel no_hooks prun no_hooks"
    using assms(1) by (auto simp: usfstl_sched_link_def res_simps Let_def split: option.splits)
  have ns: "\<not> usfstl_job_scheduled ?p ?lj"
    using assms(2) by (simp add: usfstl_job_scheduled_def)
  have "\<exists>q a b. s1 = ?s\<lparr>prev_external_sync := a, prev_external_sync_set := b, env := ?e\<lparr>parent_sched := q\<rparr>\<rparr>
    \<and> current_time q = current_time ?p \<and> remove1 ?lj (joblist q) = joblist ?p
    \<and> remove1 ?lj (pending_jobs q) = pending_jobs ?p"
  proof -
    let ?T = "\<lambda>t. ucast ratio * t + link_offset ?e"
    consider "s1 = ?s" | t q where
        "usfstl_sched_add_job no_hooks (with_job ?lj (\<lambda>b. b\<lparr>start := ?T t\<rparr>) ?p) ?lj = Inr q"
        "s1 = ?s\<lparr>prev_external_sync := t, prev_external_sync_set := True, env := ?e\<lparr>parent_sched := q\<rparr>\<rparr>"
      using assms(1) ns by (auto simp: usfstl_sched_link_def res_simps Let_def usfstl_sched_external_request_def
          usfstl_sched_link_external_request_def usfstl_sched_del_job_def split: option.splits if_splits)
    then show ?thesis
    proof cases
      case 1
      then show ?thesis
        using ns by (intro exI [of _ ?p] exI [of _ "prev_external_sync s"] exI [of _ "prev_external_sync_set s"])
          (auto simp: remove1_idem usfstl_job_scheduled_def)
    next
      case 2
      then show ?thesis
        using plain_add_job_lists [OF 2(1)] ns by (intro exI [of _ q] exI [of _ t] exI [of _ True])
          (auto simp: usfstl_job_scheduled_def)
    qed
  qed
  then obtain q a b where s1: "s1 = ?s\<lparr>prev_external_sync := a, prev_external_sync_set := b, env := ?e\<lparr>parent_sched := q\<rparr>\<rparr>"
    and q: "current_time q = current_time ?p" "remove1 ?lj (joblist q) = joblist ?p"
      "remove1 ?lj (pending_jobs q) = pending_jobs ?p"
    by blast
  have now: "usfstl_sched_current_time H s1 = (current_time s, s1)"
    using DIV_ROUND_UP_exact [OF ratio_nonzero [OF g], of "current_time s"] assms(3) q(1)
    by (simp add: H s1 usfstl_sched_current_time_def plain_link_get_time mult.commute)
  have "no_hooks = H\<lparr>external_get_time := None, external_set_time := None, external_wait := None, external_request := None\<rparr>"
    by (simp add: H link_hooks_def link_time_hooks_def no_hooks_def)
  then show ?thesis
    unfolding usfstl_sched_unlink_def now
    using q by (simp add: s1 del_job_lists)
qed

theorem link_unlink_roundtrip_witness:
  "\<exists>H s1 s2. usfstl_sched_link 3 no_hooks (\<lambda>_. Inr) no_hooks
       (example_child\<lparr>env := (env example_child)\<lparr>link_parent := False\<rparr>, current_time := 2\<rparr>) 4 = Inr (H, s1)
     \<and> usfstl_sched_unlink H s1 = Inr (no_hooks, s2) \<and> current_time s2 = 2"
proof -
  let ?s = "example_child\<lparr>env := (env example_child)\<lparr>link_parent := False\<rparr>, current_time := 2\<rparr>"
  obtain H s1 where l: "usfstl_sched_link 3 no_hooks (\<lambda>_. Inr) no_hooks ?s 4 = Inr (H, s1)"
    by (simp add: usfstl_sched_link_def usfstl_sched_next_pending_def example_child_def USFSTL_SCHEDULER_def)
  have "\<not> usfstl_job_scheduled (parent_sched (env ?s)) (link_job (env ?s))"
    by (simp add: example_child_def USFSTL_SCHEDULER_def usfstl_job_scheduled_def example_sched_def)
  from link_unlink_roundtrip [OF l this] obtain s2 where
    "usfstl_sched_unlink H s1 = Inr (no_hooks, s2)" "current_time s2 = 2"
    by auto
  with l show ?thesis
    by blast
qed

end
