(* ===== verification/Loop.thy ===== *)
theory Loop
  imports Lists
begin

text \<open>
  The main loop, \<^verbatim>\<open>src/loop.c\<close>: registered entries are kept in order of priority,
  and one pass waits for readable descriptors and calls the handler of one
  entry. Handlers act on the loop and on the rest of the program's state, of
  type \<open>'w\<close>.
\<close>

section \<open>Data and operations\<close>

type_synonym entry_ptr = nat

record usfstl_loop_entry =
  handler :: nat
  fd :: int
  loop_priority :: int
  loop_data :: nat

text \<open>The globals of \<^verbatim>\<open>loop.c\<close>, and the registered entries' contents.\<close>

record usfstl_loop =
  g_usfstl_loop_entries :: "entry_ptr list"
  loop_entry :: "entry_ptr \<Rightarrow> usfstl_loop_entry"
  g_usfstl_loop_pre_handler_fn :: "nat option"
  g_usfstl_loop_pre_handler_fn_data :: nat

definition loop_stops_at :: "(entry_ptr \<Rightarrow> usfstl_loop_entry) \<Rightarrow> entry_ptr \<Rightarrow> entry_ptr \<Rightarrow> bool" where
  "loop_stops_at es entry tmp \<longleftrightarrow> loop_priority (es entry) \<ge> loop_priority (es tmp)"

definition usfstl_loop_register :: "usfstl_loop \<Rightarrow> entry_ptr \<Rightarrow> usfstl_loop" where
  "usfstl_loop_register L entry = L\<lparr>g_usfstl_loop_entries :=
     insert_before_first (loop_stops_at (loop_entry L) entry) entry (g_usfstl_loop_entries L)\<rparr>"

text \<open>An entry that is not registered has null list pointers.\<close>

definition usfstl_loop_unregister :: "usfstl_loop \<Rightarrow> entry_ptr \<Rightarrow> usfstl_loop res" where
  "usfstl_loop_unregister L entry =
     (if entry \<in> set (g_usfstl_loop_entries L)
      then Inr (L\<lparr>g_usfstl_loop_entries := remove1 entry (g_usfstl_loop_entries L)\<rparr>)
      else Inl NullDeref)"

text \<open>\<^verbatim>\<open>max\<close> is unsigned, so a negative descriptor would count as a large one.\<close>

definition loop_max_fd :: "usfstl_loop \<Rightarrow> u32" where
  "loop_max_fd L = fold (\<lambda>e max. if (word_of_int (fd (loop_entry L e)) :: u32) > max
     then word_of_int (fd (loop_entry L e)) else max) (g_usfstl_loop_entries L) 0"

text \<open>
  \<open>select\<close> is given the number of descriptors and the descriptors to watch and
  returns its result and the descriptors that are readable; the result is
  assigned to an unsigned variable. \<open>handle\<close> stands for \<^verbatim>\<open>tmp->handler(tmp)\<close>
  and \<open>pre_fn\<close> for calling the pre-handler with its data.
\<close>

definition usfstl_loop_wait_and_handle ::
    "(u32 \<Rightarrow> int list \<Rightarrow> 'w \<Rightarrow> int \<times> int list \<times> 'w) \<Rightarrow>
     (nat \<Rightarrow> nat \<Rightarrow> usfstl_loop \<times> 'w \<Rightarrow> (usfstl_loop \<times> 'w) res) \<Rightarrow>
     (entry_ptr \<Rightarrow> usfstl_loop \<times> 'w \<Rightarrow> (usfstl_loop \<times> 'w) res) \<Rightarrow>
     usfstl_loop \<Rightarrow> 'w \<Rightarrow> (usfstl_loop \<times> 'w) res" where
  "usfstl_loop_wait_and_handle select pre_fn handle L w =
     (let (ret, rd_set, w) = select (loop_max_fd L + 1)
            (map (\<lambda>e. fd (loop_entry L e)) (g_usfstl_loop_entries L)) w;
          num = (word_of_int ret :: u32)
      in usfstl_assert (num > 0) ''num > 0'' (
         case find (\<lambda>tmp. fd (loop_entry L tmp) \<in> set rd_set) (g_usfstl_loop_entries L) of
           None \<Rightarrow> Inr (L, w)
         | Some tmp \<Rightarrow>
             bind_res (case g_usfstl_loop_pre_handler_fn L of
                         None \<Rightarrow> Inr (L, w)
                       | Some fn \<Rightarrow> pre_fn fn (g_usfstl_loop_pre_handler_fn_data L) (L, w))
               (handle tmp)))"

section \<open>Order of the entries\<close>

definition entry_le :: "(entry_ptr \<Rightarrow> usfstl_loop_entry) \<Rightarrow> entry_ptr \<Rightarrow> entry_ptr \<Rightarrow> bool" where
  "entry_le es a b \<longleftrightarrow> loop_priority (es b) \<le> loop_priority (es a)"

interpretation eq: insertion_queue "entry_le es" "loop_stops_at es" "\<lambda>_. True" for es
  by unfold_locales (auto simp: entry_le_def loop_stops_at_def)

definition loop_inv :: "usfstl_loop \<Rightarrow> bool" where
  "loop_inv L \<longleftrightarrow> distinct (g_usfstl_loop_entries L)
     \<and> sorted_wrt (entry_le (loop_entry L)) (g_usfstl_loop_entries L)"

lemma register_inv:
  assumes "loop_inv L" and "e \<notin> set (g_usfstl_loop_entries L)"
  shows "loop_inv (usfstl_loop_register L e)"
  using assms eq.insert_sorted [of "loop_entry L" "g_usfstl_loop_entries L" e]
  by (simp add: loop_inv_def usfstl_loop_register_def)

lemma unregister_inv:
  assumes "loop_inv L" and "usfstl_loop_unregister L e = Inr L'"
  shows "loop_inv L'"
proof -
  have "g_usfstl_loop_entries L' = filter (\<lambda>x. x \<noteq> e) (g_usfstl_loop_entries L)" "loop_entry L' = loop_entry L"
    using assms by (auto simp: usfstl_loop_unregister_def loop_inv_def distinct_remove1_removeAll
        removeAll_filter_not_eq eq_commute split: if_splits)
  then show ?thesis
    using assms(1) by (simp add: loop_inv_def sorted_wrt_filter)
qed

lemma unregister_register:
  "e \<notin> set (g_usfstl_loop_entries L) \<Longrightarrow> usfstl_loop_unregister (usfstl_loop_register L e) e = Inr L"
  by (simp add: usfstl_loop_unregister_def usfstl_loop_register_def)

text \<open>
  C13: a pass of the main loop serves the most important ready entry: among the
  entries whose descriptor is readable it calls the handler of one with the
  highest priority, after the pre-handler if one is set, and no other handler.
\<close>

theorem loop_serves_highest_priority:
  assumes "loop_inv L" and "select (loop_max_fd L + 1) (map (\<lambda>e. fd (loop_entry L e)) (g_usfstl_loop_entries L)) w
      = (ret, rd, w')" and "0 < ret" and "ret < 2 ^ 31"
    and "ready = {e \<in> set (g_usfstl_loop_entries L). fd (loop_entry L e) \<in> set rd}" and "ready \<noteq> {}"
  shows "\<exists>e \<in> ready. (\<forall>e' \<in> ready. loop_priority (loop_entry L e') \<le> loop_priority (loop_entry L e))
    \<and> usfstl_loop_wait_and_handle select pre_fn handle L w =
        bind_res (case g_usfstl_loop_pre_handler_fn L of None \<Rightarrow> Inr (L, w')
                  | Some fn \<Rightarrow> pre_fn fn (g_usfstl_loop_pre_handler_fn_data L) (L, w')) (handle e)"
proof -
  let ?P = "\<lambda>e. fd (loop_entry L e) \<in> set rd"
  obtain e where e: "find ?P (g_usfstl_loop_entries L) = Some e"
    using assms(5,6) by (cases "find ?P (g_usfstl_loop_entries L)") (auto simp: find_None_iff)
  then obtain i where i: "i < length (g_usfstl_loop_entries L)" "?P (g_usfstl_loop_entries L ! i)"
    "e = g_usfstl_loop_entries L ! i" "\<forall>k < i. \<not> ?P (g_usfstl_loop_entries L ! k)"
    by (auto simp: find_Some_iff)
  have best: "loop_priority (loop_entry L e') \<le> loop_priority (loop_entry L e)" if "e' \<in> ready" for e'
  proof -
    obtain k where k: "k < length (g_usfstl_loop_entries L)" "e' = g_usfstl_loop_entries L ! k" "?P e'"
      using \<open>e' \<in> ready\<close> assms(5) by (auto simp: in_set_conv_nth)
    then have "i \<le> k"
      using i(4) not_le by blast
    then show ?thesis
      using assms(1) k i(3) by (cases "i = k") (auto simp: loop_inv_def entry_le_def sorted_wrt_iff_nth_less)
  qed
  have "(0 :: u32) < word_of_int ret"
    using assms(3,4) by (simp add: word_less_def uint_word_of_int take_bit_int_eq_self)
  then have "usfstl_loop_wait_and_handle select pre_fn handle L w =
        bind_res (case g_usfstl_loop_pre_handler_fn L of None \<Rightarrow> Inr (L, w')
                  | Some fn \<Rightarrow> pre_fn fn (g_usfstl_loop_pre_handler_fn_data L) (L, w')) (handle e)"
    using assms(2) e by (simp add: usfstl_loop_wait_and_handle_def)
  moreover have "e \<in> ready"
    using i assms(5) by auto
  ultimately show ?thesis
    using best by blast
qed

definition example_loop :: usfstl_loop where
  "example_loop = usfstl_loop_register (usfstl_loop_register
     \<lparr>g_usfstl_loop_entries = [], loop_entry = (\<lambda>e. \<lparr>handler = e, fd = int e + 3, loop_priority = int e, loop_data = 0\<rparr>),
      g_usfstl_loop_pre_handler_fn = None, g_usfstl_loop_pre_handler_fn_data = 0\<rparr> 1) 2"

lemma example_loop_inv: "loop_inv example_loop"
  by (simp add: example_loop_def usfstl_loop_register_def loop_stops_at_def loop_inv_def entry_le_def)

theorem loop_serves_highest_priority_witness:
  "\<exists>e \<in> {1, 2}. usfstl_loop_wait_and_handle (\<lambda>_ fds w. (2, fds, w)) (\<lambda>_ _. Inr) (\<lambda>e (L, w). Inr (L, w + e))
     example_loop 0 = Inr (example_loop, e) \<and> (\<forall>e' \<in> {1, 2}. int e' \<le> int e)"
proof -
  let ?fds = "map (\<lambda>e. fd (loop_entry example_loop e)) (g_usfstl_loop_entries example_loop)"
  have "{1, 2} = {e \<in> set (g_usfstl_loop_entries example_loop). fd (loop_entry example_loop e) \<in> set ?fds}"
    by (auto simp: example_loop_def usfstl_loop_register_def loop_stops_at_def)
  note w = loop_serves_highest_priority [OF example_loop_inv _ _ _ this,
      where select = "\<lambda>_ fds w. (2, fds, w)" and ret = 2 and w = 0 and w' = 0
      and pre_fn = "\<lambda>_ _. Inr" and handle = "\<lambda>e (L, w). Inr (L, w + e)"]
  show ?thesis
    using w by (simp add: example_loop_def usfstl_loop_register_def loop_stops_at_def)
qed

text \<open>
  A failing \<^verbatim>\<open>select\<close> is not noticed, because its result is compared as an
  unsigned number: when it returns -1 and leaves the descriptor sets as they
  were, the handler of the first registered entry is called although nothing is
  known to be readable.
\<close>

theorem loop_select_error_unnoticed:
  assumes "select (loop_max_fd L + 1) (map (\<lambda>e. fd (loop_entry L e)) (g_usfstl_loop_entries L)) w
      = (-1, map (\<lambda>e. fd (loop_entry L e)) (g_usfstl_loop_entries L), w')"
    and "g_usfstl_loop_entries L = e # es" and "g_usfstl_loop_pre_handler_fn L = None"
  shows "usfstl_loop_wait_and_handle select pre_fn handle L w = handle e (L, w')"
proof -
  have "(0 :: u32) < -1"
    by (simp add: word_greater_zero_iff)
  then show ?thesis
    using assms by (simp add: usfstl_loop_wait_and_handle_def)
qed

theorem loop_select_error_unnoticed_witness:
  "usfstl_loop_wait_and_handle (\<lambda>_ fds w. (-1, fds, w)) (\<lambda>_ _. Inr) (\<lambda>e (L, w). Inr (L, w + e))
     example_loop 0 = Inr (example_loop, 2)"
  by (subst loop_select_error_unnoticed [of _ _ _ _ 2 "[1]"])
    (simp_all add: example_loop_def usfstl_loop_register_def loop_stops_at_def)

end
