(* ===== verification/Wallclock.thy ===== *)
theory Wallclock
  imports Sched Loop
begin

text \<open>
  Running a scheduler against the machine's clock, \<^verbatim>\<open>src/wallclock.c\<close>: requests arm
  a timer, waiting runs the main loop until the timer's entry was handled. The
  scheduler's \<open>env\<close> is the \<^verbatim>\<open>wallclock\<close> member together with the main loop and the
  operating system, of type \<open>'w\<close>; system calls and the handlers of other loop
  entries are arguments.
\<close>

section \<open>Data and operations\<close>

record 'w wallclock =
  wc_entry :: entry_ptr
  wc_start :: u64
  nsec_per_tick :: u32
  timer_triggered :: bool
  initialized :: bool
  wc_loop :: usfstl_loop
  os :: 'w

type_synonym 'w wc_sched = "'w wallclock usfstl_scheduler"

text \<open>
  The system calls: the clock (seconds and nanoseconds, and the result), setting
  the timer to an absolute time, reading the timer (bytes read), creating and
  closing it, and \<^verbatim>\<open>select\<close>; and the code of other loop entries and pre-handlers.
\<close>

record 'w wc_os =
  clock_gettime :: "'w \<Rightarrow> (u64 \<times> u64) \<times> int"
  timerfd_settime :: "int \<Rightarrow> u64 \<times> u64 \<Rightarrow> 'w \<Rightarrow> int \<times> 'w"
  timerfd_read :: "int \<Rightarrow> 'w \<Rightarrow> int \<times> 'w"
  timerfd_create :: "'w \<Rightarrow> int \<times> 'w"
  timerfd_close :: "int \<Rightarrow> 'w \<Rightarrow> 'w"
  wc_select :: "u32 \<Rightarrow> int list \<Rightarrow> 'w wc_sched \<Rightarrow> int \<times> int list \<times> 'w wc_sched"
  other_handler :: "entry_ptr \<Rightarrow> usfstl_loop \<times> 'w wc_sched \<Rightarrow> (usfstl_loop \<times> 'w wc_sched) res"
  other_pre_handler :: "nat \<Rightarrow> nat \<Rightarrow> usfstl_loop \<times> 'w wc_sched \<Rightarrow> (usfstl_loop \<times> 'w wc_sched) res"

definition with_wc :: "('w wallclock \<Rightarrow> 'w wallclock) \<Rightarrow> 'w wc_sched \<Rightarrow> 'w wc_sched" where
  "with_wc f s = s\<lparr>env := f (env s)\<rparr>"

definition wc_fd :: "'w wc_sched \<Rightarrow> int" where
  "wc_fd s = fd (loop_entry (wc_loop (env s)) (wc_entry (env s)))"

definition usfstl_sched_wallclock_handle_fd :: "'w wc_os \<Rightarrow> usfstl_loop \<times> 'w wc_sched \<Rightarrow>
    (usfstl_loop \<times> 'w wc_sched) res" where
  "usfstl_sched_wallclock_handle_fd OS Ls =
     (let (L, s) = Ls;
          (n, w) = timerfd_read OS (fd (loop_entry L (wc_entry (env s)))) (os (env s))
      in usfstl_assert (n = 8) ''read == sizeof(v)'' (
         Inr (L, with_wc (\<lambda>c. c\<lparr>os := w, timer_triggered := True\<rparr>) s)))"

definition timespec_ns :: "u64 \<times> u64 \<Rightarrow> u64" where
  "timespec_ns ts = fst ts * 1000000000 + snd ts"

definition usfstl_sched_wallclock_initialize :: "'w wc_os \<Rightarrow> 'w wc_sched \<Rightarrow> 'w wc_sched res" where
  "usfstl_sched_wallclock_initialize OS s =
     (let (now, ret) = clock_gettime OS (os (env s)) in
      usfstl_assert (ret = 0) ''clock_gettime == 0'' (
      Inr (with_wc (\<lambda>c. c\<lparr>wc_start := timespec_ns now, initialized := True\<rparr>) s)))"

definition usfstl_sched_wallclock_request :: "'w wc_os \<Rightarrow> 'w wc_sched \<Rightarrow> u64 \<Rightarrow>
    (usfstl_sched_req_status \<times> 'w wc_sched) res" where
  "usfstl_sched_wallclock_request OS s time =
     usfstl_assert (nsec_per_tick (env s) \<noteq> 0) ''nsec_per_tick != 0'' (
     bind_res (if initialized (env s) then Inr s else usfstl_sched_wallclock_initialize OS s) (\<lambda>s.
     let waketime = wc_start (env s) + ucast (nsec_per_tick (env s)) * time;
         (ret, w) = timerfd_settime OS (wc_fd s)
                      (waketime div 1000000000, waketime mod 1000000000) (os (env s))
     in usfstl_assert (ret = 0) ''timerfd_settime == 0'' (
        Inr (USFSTL_SCHED_REQ_STATUS_WAIT, with_wc (\<lambda>c. c\<lparr>os := w\<rparr>) s))))"

text \<open>\<^verbatim>\<open>_usfstl_sched_wallclock_sync_real\<close>, called through the pre-handler pointer.\<close>

definition usfstl_sched_wallclock_sync_real :: "'w wc_os \<Rightarrow> 'w wallclock sched_hooks \<Rightarrow> 'w wc_sched \<Rightarrow> 'w wc_sched res" where
  "usfstl_sched_wallclock_sync_real OS H s =
     (let (now, ret) = clock_gettime OS (os (env s)) in
      usfstl_assert (ret = 0) ''clock_gettime == 0'' (
      let nowns = timespec_ns now - wc_start (env s) in
      usfstl_sched_set_time H s (nowns div ucast (nsec_per_tick (env s)))))"

text \<open>The number that stands for the pointer to the function above.\<close>

definition SYNC_REAL :: nat where "SYNC_REAL = 0"

definition wc_pre_handler :: "'w wc_os \<Rightarrow> 'w wallclock sched_hooks \<Rightarrow> nat \<Rightarrow> nat \<Rightarrow> usfstl_loop \<times> 'w wc_sched \<Rightarrow>
    (usfstl_loop \<times> 'w wc_sched) res" where
  "wc_pre_handler OS H fn data Ls =
     (if fn = SYNC_REAL
      then bind_res (usfstl_sched_wallclock_sync_real OS H (snd Ls)) (\<lambda>s. Inr (fst Ls, s))
      else other_pre_handler OS fn data Ls)"

definition wc_handler :: "'w wc_os \<Rightarrow> entry_ptr \<Rightarrow> usfstl_loop \<times> 'w wc_sched \<Rightarrow> (usfstl_loop \<times> 'w wc_sched) res" where
  "wc_handler OS e Ls = (if e = wc_entry (env (snd Ls)) then usfstl_sched_wallclock_handle_fd OS Ls
     else other_handler OS e Ls)"

text \<open>One pass of the main loop, with the loop taken from and put back into the program's state.\<close>

definition wc_loop_pass :: "'w wc_os \<Rightarrow> 'w wallclock sched_hooks \<Rightarrow> 'w wc_sched \<Rightarrow> 'w wc_sched res" where
  "wc_loop_pass OS H s =
     bind_res (usfstl_loop_wait_and_handle (wc_select OS) (wc_pre_handler OS H) (wc_handler OS)
                 (wc_loop (env s)) s) (\<lambda>(L, s).
     Inr (with_wc (\<lambda>c. c\<lparr>wc_loop := L\<rparr>) s))"

fun wc_wait_loop :: "nat \<Rightarrow> 'w wc_os \<Rightarrow> 'w wallclock sched_hooks \<Rightarrow> 'w wc_sched \<Rightarrow> 'w wc_sched res" where
  "wc_wait_loop 0 OS H s = (if timer_triggered (env s) then Inr s else Inl OutOfFuel)"
| "wc_wait_loop (Suc n) OS H s =
     (if timer_triggered (env s) then Inr s
      else bind_res (wc_loop_pass OS H s) (wc_wait_loop n OS H))"

definition usfstl_sched_wallclock_wait :: "nat \<Rightarrow> 'w wc_os \<Rightarrow> 'w wallclock sched_hooks \<Rightarrow> 'w wc_sched \<Rightarrow> 'w wc_sched res" where
  "usfstl_sched_wallclock_wait fuel OS H s =
     (let s = with_wc (\<lambda>c. c\<lparr>timer_triggered := False,
                wc_loop := usfstl_loop_register (wc_loop c) (wc_entry c)\<rparr>) s
      in bind_res (wc_wait_loop fuel OS H s) (\<lambda>s.
         bind_res (usfstl_loop_unregister (wc_loop (env s)) (wc_entry (env s))) (\<lambda>L.
         let s = with_wc (\<lambda>c. c\<lparr>wc_loop := L\<rparr>) s
         in usfstl_sched_set_time H s (prev_external_sync s))))"

definition wallclock_hooks :: "nat \<Rightarrow> 'w wc_os \<Rightarrow> 'w wallclock sched_hooks \<Rightarrow> 'w wallclock sched_hooks" where
  "wallclock_hooks fuel OS H = H\<lparr>external_request := Some (usfstl_sched_wallclock_request OS),
     external_wait := Some (usfstl_sched_wallclock_wait fuel OS H)\<rparr>"

text \<open>The number that stands for the pointer to \<^verbatim>\<open>usfstl_sched_wallclock_handle_fd\<close>.\<close>

definition WALLCLOCK_HANDLE_FD :: nat where "WALLCLOCK_HANDLE_FD = 1"

definition usfstl_sched_wallclock_init :: "nat \<Rightarrow> 'w wc_os \<Rightarrow> 'w wallclock sched_hooks \<Rightarrow> 'w wc_sched \<Rightarrow> u32 \<Rightarrow>
    ('w wallclock sched_hooks \<times> 'w wc_sched) res" where
  "usfstl_sched_wallclock_init fuel OS H s ns_per_tick =
     usfstl_assert (external_request H = None \<and> external_wait H = None)
       ''!sched->external_request && !sched->external_wait'' (
     let H' = wallclock_hooks fuel OS H;
         (n, w) = timerfd_create OS (os (env s));
         L = wc_loop (env s);
         L = L\<lparr>loop_entry := (loop_entry L)(wc_entry (env s) := (loop_entry L (wc_entry (env s)))\<lparr>fd := n, handler := WALLCLOCK_HANDLE_FD\<rparr>)\<rparr>
     in usfstl_assert (n \<ge> 0) ''sched->wallclock.entry.fd >= 0'' (
        Inr (H', with_wc (\<lambda>c. c\<lparr>os := w, wc_loop := L, nsec_per_tick := ns_per_tick\<rparr>) s)))"

definition usfstl_sched_wallclock_exit :: "nat \<Rightarrow> 'w wc_os \<Rightarrow> 'w wallclock sched_hooks \<Rightarrow> 'w wallclock sched_hooks \<Rightarrow>
    'w wc_sched \<Rightarrow> ('w wallclock sched_hooks \<times> 'w wc_sched) res" where
  "usfstl_sched_wallclock_exit fuel OS H0 H s =
     usfstl_assert (external_request H = external_request (wallclock_hooks fuel OS H0)
                    \<and> external_wait H = external_wait (wallclock_hooks fuel OS H0))
       ''external_request == usfstl_sched_wallclock_request && external_wait == usfstl_sched_wallclock_wait'' (
     Inr (H\<lparr>external_request := None, external_wait := None\<rparr>,
          with_wc (\<lambda>c. c\<lparr>os := timerfd_close OS (wc_fd s) (os c)\<rparr>) s))"

definition usfstl_sched_wallclock_wait_and_handle :: "'w wc_os \<Rightarrow> 'w wallclock sched_hooks \<Rightarrow> 'w wc_sched \<Rightarrow> 'w wc_sched res" where
  "usfstl_sched_wallclock_wait_and_handle OS H s =
     (if usfstl_sched_next_pending s None \<noteq> None then Inr s
      else if \<not> initialized (env s) then wc_loop_pass OS H s
      else
        let old_fn = g_usfstl_loop_pre_handler_fn (wc_loop (env s));
            old_data = g_usfstl_loop_pre_handler_fn_data (wc_loop (env s));
            s = with_wc (\<lambda>c. c\<lparr>wc_loop := (wc_loop c)\<lparr>g_usfstl_loop_pre_handler_fn := Some SYNC_REAL,
                  g_usfstl_loop_pre_handler_fn_data := 0\<rparr>\<rparr>) s
        in bind_res (wc_loop_pass OS H s) (\<lambda>s.
           Inr (with_wc (\<lambda>c. c\<lparr>wc_loop := (wc_loop c)\<lparr>g_usfstl_loop_pre_handler_fn := old_fn,
                  g_usfstl_loop_pre_handler_fn_data := old_data\<rparr>\<rparr>) s)))"

section \<open>Ticks and real time\<close>

text \<open>
  Synchronising with the clock sets the scheduler to the tick that contains
  the present moment: the tick's wake-up time, as a request for it would arm the
  timer, is not after now, and the next tick's is.
\<close>

theorem wallclock_sync_tick:
  assumes "usfstl_sched_wallclock_sync_real OS H s = Inr s'"
    and "external_get_time H = None" and "external_set_time H = None"
    and "clock_gettime OS (os (env s)) = (now, 0)" and "nsec_per_tick (env s) \<noteq> 0"
    and "ns = unat (timespec_ns now - wc_start (env s))" and "n = unat (nsec_per_tick (env s))"
  shows "n * unat (current_time s') \<le> ns \<and> ns < n * (unat (current_time s') + 1)"
proof -
  have "current_time s' = (timespec_ns now - wc_start (env s)) div ucast (nsec_per_tick (env s))"
    using assms(1-4) by (auto simp: usfstl_sched_wallclock_sync_real_def usfstl_sched_set_time_def
        usfstl_sched_set_time_raw_def res_simps Let_def)
  moreover have "unat (ucast (nsec_per_tick (env s)) :: u64) = n"
    by (simp add: assms(7))
  ultimately have "unat (current_time s') = ns div n"
    using assms(6) by (simp add: unat_div)
  moreover have "0 < n"
    using assms(5,7) by (simp add: unat_gt_0)
  ultimately show ?thesis
    using dividend_less_times_div [of n ns] by (simp add: algebra_simps)
qed

definition example_os :: "nat wc_os" where
  "example_os = \<lparr>clock_gettime = (\<lambda>w. ((of_nat w, 500), 0)), timerfd_settime = (\<lambda>_ _ w. (0, w)),
     timerfd_read = (\<lambda>_ w. (8, w)), timerfd_create = (\<lambda>w. (7, w)), timerfd_close = (\<lambda>_ w. w),
     wc_select = (\<lambda>_ fds s. (1, [7], s)), other_handler = (\<lambda>_. Inr), other_pre_handler = (\<lambda>_ _. Inr)\<rparr>"

definition example_wc :: "nat wc_sched" where
  "example_wc = (USFSTL_SCHEDULER ''wallclock'' (\<lambda>_. \<lparr>start = 0, priority = 0, group = 0, job_name = [],
      job_data = 0, callback = 0, blocked = False, pending = False\<rparr>)
     \<lparr>wc_entry = 1, wc_start = 1000000000, nsec_per_tick = 1000, timer_triggered = False, initialized = True,
      wc_loop = \<lparr>g_usfstl_loop_entries = [], loop_entry = (\<lambda>_. \<lparr>handler = 0, fd = 7, loop_priority = 0, loop_data = 0\<rparr>),
        g_usfstl_loop_pre_handler_fn = None, g_usfstl_loop_pre_handler_fn_data = 0\<rparr>, os = 3\<rparr>)
     \<lparr>prev_external_sync := 20\<rparr>"

theorem wallclock_sync_tick_witness:
  "\<exists>s'. usfstl_sched_wallclock_sync_real example_os no_hooks example_wc = Inr s'
     \<and> 1000 * unat (current_time s') \<le> 2000000500 \<and> 2000000500 < 1000 * (unat (current_time s') + 1)"
proof -
  let ?s = "example_wc\<lparr>current_time := 2000000\<rparr>"
  have r: "usfstl_sched_wallclock_sync_real example_os no_hooks example_wc = Inr ?s"
    by (simp add: usfstl_sched_wallclock_sync_real_def example_os_def example_wc_def USFSTL_SCHEDULER_def
        usfstl_sched_set_time_def usfstl_sched_set_time_raw_def usfstl_sched_next_pending_def
        usfstl_time_cmp_def timespec_ns_def)
  show ?thesis
    using wallclock_sync_tick [OF r, of "(3, 500)" 2000000500 1000] r
    by (simp add: example_os_def example_wc_def USFSTL_SCHEDULER_def timespec_ns_def)
qed

section \<open>Waiting for the timer\<close>



end
