(* ===== verification/Task.thy ===== *)
theory Task
  imports Sched
begin

text \<open>
  Cooperative tasks and semaphores, \<^verbatim>\<open>src/task.c\<close>. The state is the task scheduler,
  whose \<open>env\<close> holds the tasks, the semaphores and the globals of \<^verbatim>\<open>task.c\<close>. A task is
  identified with its context and with its job. A context switch makes another
  task the current one; where the task that is left continues when it is
  switched to again is recorded as its resume point, so that a function which
  suspends its caller is split into the part before and the part after.
\<close>

section \<open>Data\<close>

type_synonym sem_ptr = nat

datatype resume_point =
    Fresh
  | InSuspend
  | InTimedwait sem_ptr u64

record usfstl_task =
  task_name :: string
  task_fn :: nat
  task_free :: "nat option"
  task_data :: nat
  sem_entry :: "sem_ptr option"
  check_sem :: "sem_ptr option"
  woken_by_sem_post :: bool
  resume_at :: resume_point

record usfstl_sem =
  sem_name :: string
  waiters :: "job_ptr list"
  ctr :: u32
  sem_buf :: string

record 'w task_env =
  task_of :: "job_ptr \<Rightarrow> usfstl_task option"
  sem :: "sem_ptr \<Rightarrow> usfstl_sem"
  g_usfstl_task_to_end :: "job_ptr option"
  g_usfstl_task_running :: bool
  g_usfstl_task_selected :: bool
  current_ctx :: job_ptr
  main_ctx :: job_ptr
  task_world :: 'w

type_synonym 'w tstate = "'w task_env usfstl_scheduler"

text \<open>
  The pointers \<^verbatim>\<open>g_usfstl_task_leave\<close> and \<^verbatim>\<open>g_usfstl_task_enter\<close>, the callbacks of jobs
  that are not tasks, and the tasks' own free functions.
\<close>

record 'w task_hooks =
  g_usfstl_task_leave :: "('w \<Rightarrow> 'w) option"
  g_usfstl_task_enter :: "('w \<Rightarrow> 'w) option"
  other_job :: "job_ptr \<Rightarrow> 'w tstate \<Rightarrow> 'w tstate res"
  call_free :: "nat \<Rightarrow> job_ptr \<Rightarrow> nat \<Rightarrow> 'w \<Rightarrow> 'w"

text \<open>The number that stands for the pointer to \<^verbatim>\<open>usfstl_task_job_fn\<close>.\<close>

definition TASK_JOB_FN :: nat where "TASK_JOB_FN = 1"

definition with_env :: "('w task_env \<Rightarrow> 'w task_env) \<Rightarrow> 'w tstate \<Rightarrow> 'w tstate" where
  "with_env f s = s\<lparr>env := f (env s)\<rparr>"

definition with_task :: "job_ptr \<Rightarrow> (usfstl_task \<Rightarrow> usfstl_task) \<Rightarrow> 'w tstate \<Rightarrow> 'w tstate" where
  "with_task t f s = with_env (\<lambda>e. e\<lparr>task_of := (task_of e)(t := map_option f (task_of e t))\<rparr>) s"

definition with_sem :: "sem_ptr \<Rightarrow> (usfstl_sem \<Rightarrow> usfstl_sem) \<Rightarrow> 'w tstate \<Rightarrow> 'w tstate" where
  "with_sem m f s = with_env (\<lambda>e. e\<lparr>sem := (sem e)(m := f (sem e m))\<rparr>) s"

text \<open>Access through a task pointer; a task that was freed is not there any more.\<close>

definition load_task :: "'w tstate \<Rightarrow> job_ptr \<Rightarrow> usfstl_task res" where
  "load_task s t = (case task_of (env s) t of None \<Rightarrow> Inl OutOfBounds | Some b \<Rightarrow> Inr b)"

section \<open>Tasks\<close>

definition usfstl_task_alloc :: "job_ptr \<Rightarrow> string \<Rightarrow> nat \<Rightarrow> nat option \<Rightarrow> nat \<Rightarrow> 'w tstate \<Rightarrow> 'w tstate" where
  "usfstl_task_alloc t name fn free data s =
     with_env (\<lambda>e. e\<lparr>task_of := (task_of e)(t \<mapsto> \<lparr>task_name = name, task_fn = fn, task_free = free,
         task_data = data, sem_entry = None, check_sem = None, woken_by_sem_post = False,
         resume_at = Fresh\<rparr>)\<rparr>)
       (with_job t (\<lambda>_. \<lparr>start = 0, priority = 0, group = 0, job_name = [], job_data = t,
         callback = TASK_JOB_FN, blocked = False, pending = False\<rparr>) s)"

definition usfstl_task_alloc_main :: "'w tstate \<Rightarrow> 'w tstate" where
  "usfstl_task_alloc_main s = usfstl_task_alloc (main_ctx (env s)) ''main'' 0 None 0 s"

definition usfstl_task_cleanup :: "'w tstate \<Rightarrow> 'w tstate" where
  "usfstl_task_cleanup s = with_env (\<lambda>e. e\<lparr>task_of := (task_of e)(main_ctx e := None)\<rparr>) s"

definition usfstl_task_main :: "'w tstate \<Rightarrow> job_ptr \<times> 'w tstate" where
  "usfstl_task_main s =
     (main_ctx (env s), if task_of (env s) (main_ctx (env s)) = None then usfstl_task_alloc_main s else s)"

definition usfstl_task_create :: "job_ptr \<Rightarrow> string \<Rightarrow> u8 \<Rightarrow> nat \<Rightarrow> nat option \<Rightarrow> nat \<Rightarrow> 'w tstate \<Rightarrow> 'w tstate" where
  "usfstl_task_create t name g fn free data s =
     with_job t (\<lambda>b. b\<lparr>group := g\<rparr>) (usfstl_task_alloc t name fn free data s)"

definition usfstl_task_current :: "'w tstate \<Rightarrow> (job_ptr option \<times> 'w tstate) res" where
  "usfstl_task_current s =
     (let e = env s in
      if \<not> g_usfstl_task_running e then Inr (None, s)
      else if task_of e (current_ctx e) \<noteq> None then Inr (Some (current_ctx e), s)
      else usfstl_assert (current_ctx e = main_ctx e) ''ctx == usfstl_main_ctx()'' (
           Inr (Some (current_ctx e), usfstl_task_alloc_main s)))"

definition usfstl_task_get_priority :: "'w tstate \<Rightarrow> job_ptr \<Rightarrow> u32" where
  "usfstl_task_get_priority s t = priority (jobs s t)"

definition usfstl_task_set_priority :: "'w tstate \<Rightarrow> job_ptr \<Rightarrow> u32 \<Rightarrow> 'w tstate res" where
  "usfstl_task_set_priority s t prio =
     usfstl_assert (\<not> usfstl_job_scheduled s t) ''!usfstl_job_scheduled(&task->job)'' (
     Inr (with_job t (\<lambda>b. b\<lparr>priority := prio\<rparr>) s))"

definition usfstl_task_get_group :: "'w tstate \<Rightarrow> job_ptr \<Rightarrow> u8" where
  "usfstl_task_get_group s t = group (jobs s t)"

definition usfstl_task_set_group :: "'w tstate \<Rightarrow> job_ptr \<Rightarrow> u8 \<Rightarrow> 'w tstate res" where
  "usfstl_task_set_group s t g =
     usfstl_assert (\<not> usfstl_job_scheduled s t) ''!usfstl_job_scheduled(&task->job)'' (
     usfstl_assert (g < 32) ''group < 32'' (
     Inr (with_job t (\<lambda>b. b\<lparr>group := g\<rparr>) s)))"

definition usfstl_task_get_data :: "'w tstate \<Rightarrow> job_ptr \<Rightarrow> nat res" where
  "usfstl_task_get_data s t = bind_res (load_task s t) (\<lambda>b. Inr (task_data b))"

definition usfstl_task_set_data :: "'w tstate \<Rightarrow> job_ptr \<Rightarrow> nat \<Rightarrow> 'w tstate" where
  "usfstl_task_set_data s t d = with_task t (\<lambda>b. b\<lparr>task_data := d\<rparr>) s"

definition usfstl_task_from_job :: "'w tstate \<Rightarrow> job_ptr \<Rightarrow> job_ptr option" where
  "usfstl_task_from_job s j = (if callback (jobs s j) \<noteq> TASK_JOB_FN then None else Some (job_data (jobs s j)))"

text \<open>\<^verbatim>\<open>usfstl_task_ctx_free\<close>: the task's own free function runs, then the memory is gone.\<close>

definition usfstl_task_ctx_free :: "'w task_hooks \<Rightarrow> job_ptr \<Rightarrow> 'w tstate \<Rightarrow> 'w tstate res" where
  "usfstl_task_ctx_free TH t s =
     bind_res (load_task s t) (\<lambda>b.
     Inr (with_env (\<lambda>e. e\<lparr>task_of := (task_of e)(t := None),
            task_world := (case task_free b of None \<Rightarrow> task_world e
                           | Some f \<Rightarrow> call_free TH f t (task_data b) (task_world e))\<rparr>) s))"

definition usfstl_task_enter :: "'w task_hooks \<Rightarrow> 'w tstate \<Rightarrow> 'w tstate" where
  "usfstl_task_enter TH s = with_env (\<lambda>e. e\<lparr>g_usfstl_task_running := True,
     task_world := (case g_usfstl_task_enter TH of None \<Rightarrow> task_world e | Some f \<Rightarrow> f (task_world e))\<rparr>) s"

text \<open>
  \<^verbatim>\<open>usfstl_task_job_fn\<close> followed by the context switch: a fresh task starts in
  \<^verbatim>\<open>usfstl_task_ctx_fn\<close>; any other one was left inside its own call of this function
  and returns from it, having been selected.
\<close>

definition usfstl_task_job_fn :: "'w task_hooks \<Rightarrow> job_ptr \<Rightarrow> 'w tstate \<Rightarrow> 'w tstate res" where
  "usfstl_task_job_fn TH j s =
     (let task = job_data (jobs s j) in
      bind_res (case g_usfstl_task_to_end (env s) of
                  None \<Rightarrow> Inr s
                | Some t \<Rightarrow>
                    bind_res (load_task s t) (\<lambda>b.
                    usfstl_assert (t = current_ctx (env s)) ''g_usfstl_task_to_end->ctx == usfstl_current_ctx()'' (
                    usfstl_assert (sem_entry b = None) ''!g_usfstl_task_to_end->sem_entry.next'' (
                    usfstl_task_ctx_free TH t (with_env (\<lambda>e. e\<lparr>g_usfstl_task_to_end := None\<rparr>) s))))) (\<lambda>s.
      bind_res (load_task s task) (\<lambda>b.
      let s = with_env (\<lambda>e. e\<lparr>current_ctx := task\<rparr>) s in
      if resume_at b = Fresh
      then Inr (usfstl_task_enter TH (with_task task (\<lambda>b. b\<lparr>resume_at := InSuspend\<rparr>) s))
      else Inr (with_env (\<lambda>e. e\<lparr>g_usfstl_task_selected := True\<rparr>) s))))"

definition task_run :: "'w task_hooks \<Rightarrow> job_ptr \<Rightarrow> 'w tstate \<Rightarrow> 'w tstate res" where
  "task_run TH j s =
     (if callback (jobs s j) = TASK_JOB_FN then usfstl_task_job_fn TH j s else other_job TH j s)"

text \<open>
  The loop of \<^verbatim>\<open>usfstl_task_next\<close>. It is left when a task was selected, and also when
  a fresh task was entered, which then runs in the place of the caller.
\<close>

fun task_next_loop :: "nat \<Rightarrow> 'w task_env sched_hooks \<Rightarrow> 'w task_hooks \<Rightarrow> 'w tstate \<Rightarrow> 'w tstate res" where
  "task_next_loop 0 H TH s = Inl OutOfFuel"
| "task_next_loop (Suc n) H TH s =
     bind_res (usfstl_sched_next (Suc n) H (task_run TH) s) (\<lambda>(_, s).
     if g_usfstl_task_selected (env s) then Inr (usfstl_task_enter TH s)
     else if g_usfstl_task_running (env s) then Inr s
     else task_next_loop n H TH s)"

definition usfstl_task_next :: "nat \<Rightarrow> 'w task_env sched_hooks \<Rightarrow> 'w task_hooks \<Rightarrow> 'w tstate \<Rightarrow> 'w tstate res" where
  "usfstl_task_next fuel H TH s =
     task_next_loop fuel H TH (with_env (\<lambda>e. e\<lparr>
       task_world := (case g_usfstl_task_leave TH of None \<Rightarrow> task_world e | Some f \<Rightarrow> f (task_world e)),
       g_usfstl_task_running := False, g_usfstl_task_selected := False\<rparr>) s)"

text \<open>The call after \<^verbatim>\<open>usfstl_task_next()\<close> is \<^verbatim>\<open>USFSTL_ASSERT(0)\<close>; the context is gone by then.\<close>

definition usfstl_task_end_self :: "nat \<Rightarrow> 'w task_env sched_hooks \<Rightarrow> 'w task_hooks \<Rightarrow> 'w tstate \<Rightarrow> 'w tstate res" where
  "usfstl_task_end_self fuel H TH s =
     bind_res (usfstl_task_current s) (\<lambda>(task, s).
     case task of
       None \<Rightarrow> Inl (Assertion ''task'')
     | Some t \<Rightarrow>
         usfstl_assert (\<not> usfstl_job_scheduled s t) ''!usfstl_job_scheduled(&task->job)'' (
         usfstl_task_next fuel H TH (with_env (\<lambda>e. e\<lparr>g_usfstl_task_to_end := Some t\<rparr>) s)))"

text \<open>Taking a task off the list of waiters it is on; its entry is null when it is on none.\<close>

definition sem_entry_remove :: "job_ptr \<Rightarrow> 'w tstate \<Rightarrow> 'w tstate res" where
  "sem_entry_remove t s =
     bind_res (load_task s t) (\<lambda>b.
     case sem_entry b of
       None \<Rightarrow> Inl NullDeref
     | Some m \<Rightarrow> Inr (with_task t (\<lambda>b. b\<lparr>sem_entry := None\<rparr>)
         (with_sem m (\<lambda>q. q\<lparr>waiters := remove1 t (waiters q)\<rparr>) s)))"

definition usfstl_task_end :: "'w task_hooks \<Rightarrow> 'w tstate \<Rightarrow> job_ptr \<Rightarrow> 'w tstate res" where
  "usfstl_task_end TH s t =
     bind_res (load_task s t) (\<lambda>b.
     usfstl_assert (\<not> usfstl_job_scheduled s t) ''!usfstl_job_scheduled(&task->job)'' (
     bind_res (if sem_entry b \<noteq> None then sem_entry_remove t s else Inr s) (\<lambda>s.
     usfstl_assert (current_ctx (env s) \<noteq> t) ''usfstl_current_ctx() != ctx'' (
     usfstl_task_ctx_free TH t s))))"

definition usfstl_task_suspend :: "nat \<Rightarrow> 'w task_env sched_hooks \<Rightarrow> 'w task_hooks \<Rightarrow> 'w tstate \<Rightarrow> 'w tstate res" where
  "usfstl_task_suspend fuel H TH s = usfstl_task_next fuel H TH s"

text \<open>The name of the job; \<^verbatim>\<open>%d\<close> prints the low half as a signed number.\<close>

definition sleep_job_name :: "u64 \<Rightarrow> string" where
  "sleep_job_name delay =
     (if delay = 0 then ''yield''
      else if delay \<le> 0xffffffff then take 24 (''sleep '' @ show_int (sint (ucast delay :: u32)))
      else take 24 (''sleep 0x'' @ show_hex8 (ucast (drop_bit 32 delay)) @ show_hex8 (ucast delay)))"

definition usfstl_task_sleep :: "nat \<Rightarrow> 'w task_env sched_hooks \<Rightarrow> 'w task_hooks \<Rightarrow>
    'w tstate \<Rightarrow> u64 \<Rightarrow> 'w tstate res" where
  "usfstl_task_sleep fuel H TH s delay =
     bind_res (usfstl_task_current s) (\<lambda>(task, s).
     case task of
       None \<Rightarrow> Inl (Assertion ''task'')
     | Some t \<Rightarrow>
         let s = with_job t (\<lambda>b. b\<lparr>job_name := sleep_job_name delay\<rparr>) s;
             (now, s) = usfstl_sched_current_time H s;
             s = with_job t (\<lambda>b. b\<lparr>start := now + delay\<rparr>) s
         in bind_res (usfstl_sched_add_job H s t) (usfstl_task_next fuel H TH))"

definition usfstl_task_yield :: "nat \<Rightarrow> 'w task_env sched_hooks \<Rightarrow> 'w task_hooks \<Rightarrow> 'w tstate \<Rightarrow> 'w tstate res" where
  "usfstl_task_yield fuel H TH s = usfstl_task_sleep fuel H TH s 0"

definition usfstl_task_resume :: "'w task_env sched_hooks \<Rightarrow> 'w tstate \<Rightarrow> job_ptr \<Rightarrow> 'w tstate res" where
  "usfstl_task_resume H s t =
     (let (now, s) = usfstl_sched_current_time H s
      in usfstl_sched_add_job H (with_job t (\<lambda>b. b\<lparr>start := now, job_name := ''preempt''\<rparr>) s) t)"

section \<open>Semaphores\<close>

definition NO_TIMEOUT :: u64 where "NO_TIMEOUT = - 1"

text \<open>The test that ends the search for the new waiter's place.\<close>

definition waiter_goes_before :: "(job_ptr \<Rightarrow> usfstl_job) \<Rightarrow> job_ptr \<Rightarrow> job_ptr \<Rightarrow> bool" where
  "waiter_goes_before js task tmp \<longleftrightarrow> priority (js tmp) < priority (js task)"

text \<open>
  The part of \<^verbatim>\<open>usfstl_sem_timedwait\<close> up to \<^verbatim>\<open>usfstl_task_suspend()\<close>: the result is
  whether the caller has the semaphore already (then it is not suspended).
\<close>

definition usfstl_sem_timedwait :: "'w task_env sched_hooks \<Rightarrow> 'w tstate \<Rightarrow> sem_ptr \<Rightarrow> u64 \<Rightarrow>
    (bool \<times> 'w tstate) res" where
  "usfstl_sem_timedwait H s m timeout =
     bind_res (usfstl_task_current s) (\<lambda>(task, s).
     case task of
       None \<Rightarrow> Inl (Assertion ''task'')
     | Some t \<Rightarrow>
         bind_res (load_task s t) (\<lambda>b.
         usfstl_assert (\<not> woken_by_sem_post b) ''!task->woken_by_sem_post'' (
         let s = with_sem m (\<lambda>q. if sem_buf q = [] then q\<lparr>sem_buf := take 50 (CHR ''!'' # sem_name q)\<rparr> else q) s in
         if ctr (sem (env s) m) = 0 then
           let s = with_job t (\<lambda>j. j\<lparr>job_name := tl (sem_buf (sem (env s) m))\<rparr>) s in
           bind_res (if timeout \<noteq> NO_TIMEOUT
                     then let (now, s) = usfstl_sched_current_time H s
                          in usfstl_sched_add_job H (with_job t (\<lambda>j. j\<lparr>start := now + timeout\<rparr>) s) t
                     else Inr s) (\<lambda>s.
           Inr (False, with_task t (\<lambda>b. b\<lparr>sem_entry := Some m, resume_at := InTimedwait m timeout\<rparr>)
             (with_sem m (\<lambda>q. q\<lparr>waiters := insert_before_first (waiter_goes_before (jobs s) t) t (waiters q)\<rparr>) s)))
         else Inr (True, with_sem m (\<lambda>q. q\<lparr>ctr := ctr q - 1\<rparr>) s))))"

text \<open>The part after \<^verbatim>\<open>usfstl_task_suspend()\<close>, when the waiting task runs again.\<close>

definition usfstl_sem_timedwait_resumed :: "'w tstate \<Rightarrow> job_ptr \<Rightarrow> u64 \<Rightarrow> (bool \<times> 'w tstate) res" where
  "usfstl_sem_timedwait_resumed s t timeout =
     (let s = with_task t (\<lambda>b. b\<lparr>resume_at := InSuspend\<rparr>) (with_job t (\<lambda>j. j\<lparr>job_name := []\<rparr>) s) in
      bind_res (load_task s t) (\<lambda>b.
      usfstl_assert (check_sem b = None) ''!task->check_sem'' (
      if \<not> woken_by_sem_post b then
        usfstl_assert (sem_entry b \<noteq> None) ''task->sem_entry.next'' (
        usfstl_assert (timeout \<noteq> NO_TIMEOUT) ''timeout != NO_TIMEOUT'' (
        bind_res (sem_entry_remove t s) (\<lambda>s. Inr (False, s))))
      else Inr (True, with_task t (\<lambda>b. b\<lparr>woken_by_sem_post := False\<rparr>) s))))"

text \<open>\<^verbatim>\<open>usfstl_sem_wait\<close> is the same wait without a timeout; its part after the suspension.\<close>

definition usfstl_sem_wait_resumed :: "'w tstate \<Rightarrow> job_ptr \<Rightarrow> 'w tstate res" where
  "usfstl_sem_wait_resumed s task =
     bind_res (usfstl_sem_timedwait_resumed s task NO_TIMEOUT) (\<lambda>(ret, s).
     usfstl_assert ret ''usfstl_sem_timedwait(NO_TIMEOUT) failed'' (Inr s))"

definition usfstl_sem_trywait :: "'w tstate \<Rightarrow> sem_ptr \<Rightarrow> bool \<times> 'w tstate" where
  "usfstl_sem_trywait s m =
     (if ctr (sem (env s) m) > 0 then (True, with_sem m (\<lambda>q. q\<lparr>ctr := ctr q - 1\<rparr>) s) else (False, s))"

text \<open>Waking one waiter, then the loop over the waiters; the list is not changed before the loop is left.\<close>

definition sem_wake_task :: "'w task_env sched_hooks \<Rightarrow> job_ptr \<Rightarrow> 'w tstate \<Rightarrow> (bool \<times> 'w tstate) res" where
  "sem_wake_task H t s =
     (let s = usfstl_sched_del_job s t;
          (now, s) = usfstl_sched_current_time H s;
          s = with_job t (\<lambda>j. j\<lparr>start := now, job_name := CHR ''!'' # job_name j\<rparr>) s;
          s = with_task t (\<lambda>b. b\<lparr>woken_by_sem_post := True\<rparr>) s
      in bind_res (usfstl_sched_add_job H s t) (\<lambda>s.
         bind_res (sem_entry_remove t s) (\<lambda>s. Inr (True, s))))"

fun sem_wakeup_loop :: "'w task_env sched_hooks \<Rightarrow> sem_ptr \<Rightarrow> job_ptr list \<Rightarrow> 'w tstate \<Rightarrow> (bool \<times> 'w tstate) res" where
  "sem_wakeup_loop H m [] s = Inr (False, s)"
| "sem_wakeup_loop H m (t # ts) s =
     (if blocked (jobs s t) then sem_wakeup_loop H m ts (with_task t (\<lambda>b. b\<lparr>check_sem := Some m\<rparr>) s)
      else sem_wake_task H t s)"

definition usfstl_process_sem_wakeup :: "'w task_env sched_hooks \<Rightarrow> sem_ptr \<Rightarrow> 'w tstate \<Rightarrow> (bool \<times> 'w tstate) res" where
  "usfstl_process_sem_wakeup H m s = sem_wakeup_loop H m (waiters (sem (env s) m)) s"

definition usfstl_sem_post :: "'w task_env sched_hooks \<Rightarrow> 'w tstate \<Rightarrow> sem_ptr \<Rightarrow> 'w tstate res" where
  "usfstl_sem_post H s m =
     bind_res (usfstl_process_sem_wakeup H m s) (\<lambda>(woken, s).
     if woken then Inr s else Inr (with_sem m (\<lambda>q. q\<lparr>ctr := ctr q + 1\<rparr>) s))"

definition usfstl_task_block :: "'w tstate \<Rightarrow> job_ptr \<Rightarrow> 'w tstate res" where
  "usfstl_task_block s t = usfstl_sched_block_job s t"

definition usfstl_task_unblock :: "'w task_env sched_hooks \<Rightarrow> 'w tstate \<Rightarrow> job_ptr \<Rightarrow> 'w tstate res" where
  "usfstl_task_unblock H s t =
     bind_res (load_task s t) (\<lambda>b.
     bind_res (usfstl_sched_unblock_job H s t) (\<lambda>s.
     case check_sem b of
       None \<Rightarrow> Inr s
     | Some m \<Rightarrow>
         bind_res (if ctr (sem (env s) m) \<noteq> 0 then
                     bind_res (usfstl_process_sem_wakeup H m (with_sem m (\<lambda>q. q\<lparr>ctr := ctr q - 1\<rparr>) s)) (\<lambda>(woken, s).
                     usfstl_assert woken ''usfstl_process_sem_wakeup(sem)'' (Inr s))
                   else Inr s) (\<lambda>s.
         Inr (with_task t (\<lambda>b. b\<lparr>check_sem := None\<rparr>) s))))"

definition usfstl_sem_has_waiters :: "'w tstate \<Rightarrow> sem_ptr \<Rightarrow> bool" where
  "usfstl_sem_has_waiters s m \<longleftrightarrow> waiters (sem (env s) m) \<noteq> []"

section \<open>What the scheduler's operations leave alone\<close>

named_theorems task_sel \<open>selectors of states changed through the helpers\<close>

lemma with_env_sel [task_sel, simp]:
  "env (with_env f s) = f (env s)" "jobs (with_env f s) = jobs s" "joblist (with_env f s) = joblist s"
  "pending_jobs (with_env f s) = pending_jobs s" "current_time (with_env f s) = current_time s"
  "blocked_groups (with_env f s) = blocked_groups s" "allowed_job (with_env f s) = allowed_job s"
  by (simp_all add: with_env_def)

lemma with_task_sel [task_sel, simp]:
  "sem (env (with_task t f s)) = sem (env s)"
  "task_of (env (with_task t f s)) = (task_of (env s))(t := map_option f (task_of (env s) t))"
  "g_usfstl_task_running (env (with_task t f s)) = g_usfstl_task_running (env s)"
  "g_usfstl_task_selected (env (with_task t f s)) = g_usfstl_task_selected (env s)"
  "g_usfstl_task_to_end (env (with_task t f s)) = g_usfstl_task_to_end (env s)"
  "current_ctx (env (with_task t f s)) = current_ctx (env s)"
  "jobs (with_task t f s) = jobs s" "joblist (with_task t f s) = joblist s"
  "pending_jobs (with_task t f s) = pending_jobs s" "current_time (with_task t f s) = current_time s"
  "blocked_groups (with_task t f s) = blocked_groups s" "allowed_job (with_task t f s) = allowed_job s"
  by (simp_all add: with_task_def)

lemma with_sem_sel [task_sel, simp]:
  "sem (env (with_sem m f s)) = (sem (env s))(m := f (sem (env s) m))"
  "task_of (env (with_sem m f s)) = task_of (env s)"
  "g_usfstl_task_running (env (with_sem m f s)) = g_usfstl_task_running (env s)"
  "current_ctx (env (with_sem m f s)) = current_ctx (env s)"
  "jobs (with_sem m f s) = jobs s" "joblist (with_sem m f s) = joblist s"
  "pending_jobs (with_sem m f s) = pending_jobs s" "current_time (with_sem m f s) = current_time s"
  "blocked_groups (with_sem m f s) = blocked_groups s" "allowed_job (with_sem m f s) = allowed_job s"
  by (simp_all add: with_sem_def)

lemma plain_inv_cong:
  assumes "joblist s' = joblist s" and "pending_jobs s' = pending_jobs s" and "jobs s' = jobs s"
    and "blocked_groups s' = blocked_groups s" and "allowed_job s' = allowed_job s"
    and "current_time s' = current_time s"
  shows "sched_inv no_hooks s' = sched_inv no_hooks s"
  using assms by (simp add: plain_inv sched_inv_at_def sched_core_at_def may_run_def group_blocked_def)

lemma plain_add_job_frame:
  assumes "usfstl_sched_add_job no_hooks s j = Inr s'"
  shows "env s' = env s" and "current_time s' = current_time s"
    and "\<And>k. blocked (jobs s' k) = blocked (jobs s k)" and "\<And>k. k \<noteq> j \<Longrightarrow> jobs s' k = jobs s k"
    and "priority (jobs s' j) = priority (jobs s j)"
proof -
  have "env s' = env s \<and> current_time s' = current_time s \<and> (\<forall>k. blocked (jobs s' k) = blocked (jobs s k))
    \<and> (\<forall>k. k \<noteq> j \<longrightarrow> jobs s' k = jobs s k) \<and> priority (jobs s' j) = priority (jobs s j)"
    using assms plain_current_time(1) by (cases rule: add_job_elim) auto
  then show "env s' = env s" and "current_time s' = current_time s"
    and "\<And>k. blocked (jobs s' k) = blocked (jobs s k)" and "\<And>k. k \<noteq> j \<Longrightarrow> jobs s' k = jobs s k"
    and "priority (jobs s' j) = priority (jobs s j)"
    by auto
qed

lemma block_job_frame:
  assumes "usfstl_sched_block_job s j = Inr s'"
  shows "env s' = env s" and "blocked (jobs s' k) \<longleftrightarrow> k = j \<or> blocked (jobs s k)" and "\<not> blocked (jobs s j)"
  using assms by (auto simp: usfstl_sched_block_job_def res_simps Let_def split: if_splits)

lemma plain_unblock_job_frame:
  assumes "usfstl_sched_unblock_job no_hooks s j = Inr s'"
  shows "env s' = env s" and "blocked (jobs s' k) \<longleftrightarrow> k \<noteq> j \<and> blocked (jobs s k)" and "blocked (jobs s j)"
proof -
  have "env s' = env s \<and> (\<forall>k. blocked (jobs s' k) \<longleftrightarrow> k \<noteq> j \<and> blocked (jobs s k)) \<and> blocked (jobs s j)"
    using assms by (auto simp: usfstl_sched_unblock_job_def usfstl_sched_restore_job_def res_simps Let_def
        plain_add_job_frame split: if_splits)
  then show "env s' = env s" and "blocked (jobs s' k) \<longleftrightarrow> k \<noteq> j \<and> blocked (jobs s k)" and "blocked (jobs s j)"
    by auto
qed

section \<open>The invariant of semaphores\<close>

text \<open>
  Stated on the parts of the state it depends on: the semaphores, the tasks and
  which jobs are blocked. Entries and lists of waiters agree; a task that waits
  has not been woken; a semaphore whose counter is not zero has only blocked
  waiters, each of which will look at the semaphore when it is unblocked; and
  only blocked waiters have that mark.
\<close>

definition sem_inv_on :: "(sem_ptr \<Rightarrow> usfstl_sem) \<Rightarrow> (job_ptr \<Rightarrow> usfstl_task option) \<Rightarrow> (job_ptr \<Rightarrow> bool) \<Rightarrow> bool" where
  "sem_inv_on sm tk bl \<longleftrightarrow>
     (\<forall>m. distinct (waiters (sm m)))
     \<and> (\<forall>m. \<forall>t \<in> set (waiters (sm m)). \<exists>b. tk t = Some b \<and> sem_entry b = Some m \<and> \<not> woken_by_sem_post b)
     \<and> (\<forall>t b m. tk t = Some b \<longrightarrow> sem_entry b = Some m \<longrightarrow> t \<in> set (waiters (sm m)))
     \<and> (\<forall>m. ctr (sm m) \<noteq> 0 \<longrightarrow> (\<forall>t \<in> set (waiters (sm m)). bl t \<and> (\<exists>b. tk t = Some b \<and> check_sem b = Some m)))
     \<and> (\<forall>t b m. tk t = Some b \<longrightarrow> check_sem b = Some m \<longrightarrow> bl t \<and> sem_entry b = Some m)"

definition sem_inv :: "'w tstate \<Rightarrow> bool" where
  "sem_inv s \<longleftrightarrow> sem_inv_on (sem (env s)) (task_of (env s)) (\<lambda>t. blocked (jobs s t))"

text \<open>The waiters in front of the one that is woken are marked.\<close>

definition mark_check :: "sem_ptr \<Rightarrow> job_ptr set \<Rightarrow> (job_ptr \<Rightarrow> usfstl_task option) \<Rightarrow> job_ptr \<Rightarrow> usfstl_task option" where
  "mark_check m ts tk t = (if t \<in> ts then map_option (\<lambda>b. b\<lparr>check_sem := Some m\<rparr>) (tk t) else tk t)"

definition mark_waiters :: "sem_ptr \<Rightarrow> job_ptr set \<Rightarrow> 'w tstate \<Rightarrow> 'w tstate" where
  "mark_waiters m ts s = with_env (\<lambda>e. e\<lparr>task_of := mark_check m ts (task_of e)\<rparr>) s"

lemma mark_none [simp]: "mark_check m {} tk = tk" "mark_waiters m {} s = s"
  by (simp_all add: mark_check_def mark_waiters_def with_env_def fun_eq_iff)

lemma mark_waiters_step:
  "mark_waiters m ts (with_task t (\<lambda>b. b\<lparr>check_sem := Some m\<rparr>) s) = mark_waiters m (insert t ts) s"
proof -
  have "mark_check m ts ((task_of (env s))(t := map_option (\<lambda>b. b\<lparr>check_sem := Some m\<rparr>) (task_of (env s) t)))
      = mark_check m (insert t ts) (task_of (env s))"
    by (auto simp: mark_check_def fun_eq_iff option.map_comp comp_def)
  then show ?thesis
    by (simp add: mark_waiters_def with_task_def with_env_def)
qed

lemma wakeup_loop_eq:
  "sem_wakeup_loop H m ws s =
     (case dropWhile (\<lambda>t. blocked (jobs s t)) ws of
        [] \<Rightarrow> Inr (False, mark_waiters m (set ws) s)
      | t # _ \<Rightarrow> sem_wake_task H t (mark_waiters m (set (takeWhile (\<lambda>t. blocked (jobs s t)) ws)) s))"
proof (induction ws arbitrary: s)
  case Nil
  then show ?case
    by simp
next
  case (Cons t ws)
  show ?case
  proof (cases "blocked (jobs s t)")
    case True
    then show ?thesis
      using Cons.IH [of "with_task t (\<lambda>b. b\<lparr>check_sem := Some m\<rparr>) s"]
      by (cases "dropWhile (\<lambda>t. blocked (jobs s t)) ws") (simp_all add: mark_waiters_step del: dropWhile_eq_Nil_conv)
  next
    case False
    then show ?thesis
      by simp
  qed
qed

lemma mark_waiters_sel [simp]:
  "sem (env (mark_waiters m ts s)) = sem (env s)"
  "task_of (env (mark_waiters m ts s)) = mark_check m ts (task_of (env s))"
  "jobs (mark_waiters m ts s) = jobs s" "joblist (mark_waiters m ts s) = joblist s"
  "pending_jobs (mark_waiters m ts s) = pending_jobs s" "current_time (mark_waiters m ts s) = current_time s"
  "blocked_groups (mark_waiters m ts s) = blocked_groups s" "allowed_job (mark_waiters m ts s) = allowed_job s"
  by (simp_all add: mark_waiters_def)

lemma inv_mark_check:
  assumes "sem_inv_on sm tk bl" and "\<And>t. t \<in> ts \<Longrightarrow> t \<in> set (waiters (sm m)) \<and> bl t"
  shows "sem_inv_on sm (mark_check m ts tk) bl"
  unfolding sem_inv_on_def
proof (intro conjI allI ballI impI)
  fix n t b
  show "distinct (waiters (sm n))"
    using assms(1) by (simp add: sem_inv_on_def)
  { assume w: "t \<in> set (waiters (sm n))"
    then obtain b where b: "tk t = Some b" "sem_entry b = Some n" "\<not> woken_by_sem_post b"
      using assms(1) unfolding sem_inv_on_def by blast
    then show "\<exists>b. mark_check m ts tk t = Some b \<and> sem_entry b = Some n \<and> \<not> woken_by_sem_post b"
      by (auto simp: mark_check_def)
    assume c: "ctr (sm n) \<noteq> 0"
    then show "bl t" "\<exists>b. mark_check m ts tk t = Some b \<and> check_sem b = Some n"
      using assms w b unfolding sem_inv_on_def mark_check_def by fastforce+ }
  assume t: "mark_check m ts tk t = Some b"
  then obtain b0 where b0: "tk t = Some b0" "b = (if t \<in> ts then b0\<lparr>check_sem := Some m\<rparr> else b0)"
    by (auto simp: mark_check_def split: if_splits)
  { assume "sem_entry b = Some n"
    then show "t \<in> set (waiters (sm n))"
      using assms(1) b0 unfolding sem_inv_on_def by (auto split: if_splits) }
  assume "check_sem b = Some n"
  then show "bl t" "sem_entry b = Some n"
    using assms b0 unfolding sem_inv_on_def by (fastforce split: if_splits)+
qed

lemma sem_invD:
  assumes "sem_inv_on sm tk bl"
  shows "distinct (waiters (sm m))"
    and "t \<in> set (waiters (sm m)) \<Longrightarrow> \<exists>b. tk t = Some b \<and> sem_entry b = Some m \<and> \<not> woken_by_sem_post b"
    and "tk t = Some b \<Longrightarrow> sem_entry b = Some m \<Longrightarrow> t \<in> set (waiters (sm m))"
    and "ctr (sm m) \<noteq> 0 \<Longrightarrow> t \<in> set (waiters (sm m)) \<Longrightarrow> bl t \<and> (\<exists>b. tk t = Some b \<and> check_sem b = Some m)"
    and "tk t = Some b \<Longrightarrow> check_sem b = Some m \<Longrightarrow> bl t \<and> sem_entry b = Some m"
  using assms unfolding sem_inv_on_def by blast+

text \<open>Waking a waiter that is not blocked, or one that was just unblocked.\<close>

lemma inv_wake:
  assumes inv: "sem_inv_on sm tk bl" and b: "tk t = Some b" "sem_entry b = Some m"
    and bl: "\<And>k. k \<noteq> t \<Longrightarrow> bl' k = bl k" and new: "sem_entry b' = None" "check_sem b' = None"
    and c: "c \<noteq> 0 \<Longrightarrow> ctr (sm m) \<noteq> 0"
  shows "sem_inv_on (sm(m := (sm m)\<lparr>ctr := c, waiters := remove1 t (waiters (sm m))\<rparr>)) (tk(t \<mapsto> b')) bl'"
    (is "sem_inv_on ?sm ?tk bl'")
proof -
  have w: "set (waiters (?sm n)) = set (waiters (sm n)) - {t}" for n
  proof (cases "n = m")
    case False
    then have "t \<notin> set (waiters (sm n))"
      using sem_invD(2) [OF inv, of t n] b by auto
    with False show ?thesis by simp
  qed (simp add: sem_invD(1) [OF inv])
  have ctr: "ctr (?sm n) \<noteq> 0 \<Longrightarrow> ctr (sm n) \<noteq> 0" for n
    using c by (cases "n = m") auto
  show ?thesis
    unfolding sem_inv_on_def
  proof (intro conjI allI ballI impI)
    fix n k b1
    show "distinct (waiters (?sm n))"
      using sem_invD(1) [OF inv] by (simp add: distinct_remove1)
    { assume "k \<in> set (waiters (?sm n))"
      then have k: "k \<noteq> t" "k \<in> set (waiters (sm n))"
        using w by auto
      then show "\<exists>b. ?tk k = Some b \<and> sem_entry b = Some n \<and> \<not> woken_by_sem_post b"
        using sem_invD(2) [OF inv] by simp
      assume "ctr (?sm n) \<noteq> 0"
      then show "bl' k" "\<exists>b. ?tk k = Some b \<and> check_sem b = Some n"
        using sem_invD(4) [OF inv ctr k(2)] k bl by auto }
    assume k: "?tk k = Some b1"
    { assume "sem_entry b1 = Some n"
      then have "k \<noteq> t" "k \<in> set (waiters (sm n))"
        using k new sem_invD(3) [OF inv, of k b1] by (auto split: if_splits)
      then show "k \<in> set (waiters (?sm n))"
        using w by simp }
    assume "check_sem b1 = Some n"
    then have "k \<noteq> t" "bl k \<and> sem_entry b1 = Some n"
      using k new sem_invD(5) [OF inv, of k b1] by (auto split: if_splits)
    then show "bl' k" "sem_entry b1 = Some n"
      using bl by auto
  qed
qed

lemma plain_wake_task:
  assumes "sem_wake_task no_hooks t s = Inr (w, s')"
  obtains b m where "w" "task_of (env s) t = Some b" "sem_entry b = Some m"
    "sem (env s') = (sem (env s))(m := (sem (env s) m)\<lparr>waiters := remove1 t (waiters (sem (env s) m))\<rparr>)"
    "task_of (env s') = (task_of (env s))(t \<mapsto> b\<lparr>woken_by_sem_post := True, sem_entry := None\<rparr>)"
    "\<And>k. blocked (jobs s' k) = blocked (jobs s k)"
proof -
  let ?s = "with_task t (\<lambda>b. b\<lparr>woken_by_sem_post := True\<rparr>)
      (with_job t (\<lambda>j. j\<lparr>start := current_time s, job_name := CHR ''!'' # job_name j\<rparr>) (usfstl_sched_del_job s t))"
  obtain s1 where s1: "usfstl_sched_add_job no_hooks ?s t = Inr s1"
    and r: "bind_res (sem_entry_remove t s1) (\<lambda>s. Inr (True, s)) = Inr (w, s')"
    using assms by (auto simp: sem_wake_task_def res_simps Let_def)
  note f = plain_add_job_frame [OF s1]
  obtain b m where b: "task_of (env s) t = Some b" "sem_entry b = Some m"
    using r f(1) by (auto simp: sem_entry_remove_def load_task_def res_simps split: option.splits)
  show thesis
  proof (rule that [OF _ b])
    show "w"
      using r by (auto simp: res_simps)
    show "sem (env s') = (sem (env s))(m := (sem (env s) m)\<lparr>waiters := remove1 t (waiters (sem (env s) m))\<rparr>)"
      and "task_of (env s') = (task_of (env s))(t \<mapsto> b\<lparr>woken_by_sem_post := True, sem_entry := None\<rparr>)"
      and "blocked (jobs s' k) = blocked (jobs s k)" for k
      using r f(1,3) b by (auto simp: sem_entry_remove_def load_task_def res_simps split: if_splits)
  qed
qed

lemma sem_post_inv:
  assumes "sem_inv s" and "usfstl_sem_post no_hooks s m = Inr s'"
  shows "sem_inv s'"
proof -
  let ?ws = "waiters (sem (env s) m)"
  let ?B = "\<lambda>t. blocked (jobs s t)"
  have inv: "sem_inv_on (sem (env s)) (task_of (env s)) ?B"
    using assms(1) by (simp add: sem_inv_def)
  show ?thesis
  proof (cases "dropWhile ?B ?ws")
    case Nil
    then have all: "\<forall>t \<in> set ?ws. ?B t"
      by simp
    have s': "s' = with_sem m (\<lambda>q. q\<lparr>ctr := ctr q + 1\<rparr>) (mark_waiters m (set ?ws) s)"
      using assms(2) Nil by (simp add: usfstl_sem_post_def usfstl_process_sem_wakeup_def wakeup_loop_eq)
    have "sem_inv_on (sem (env s)) (mark_check m (set ?ws) (task_of (env s))) ?B"
      using inv all by (intro inv_mark_check) auto
    moreover have "\<exists>b. mark_check m (set ?ws) (task_of (env s)) t = Some b \<and> check_sem b = Some m" if "t \<in> set ?ws" for t
      using sem_invD(2) [OF inv that] that by (auto simp: mark_check_def)
    ultimately show ?thesis
      using all unfolding sem_inv_def s' sem_inv_on_def by auto
  next
    case (Cons t rest)
    let ?bs = "set (takeWhile ?B ?ws)"
    have bs: "k \<in> set ?ws \<and> ?B k" if "k \<in> ?bs" for k
      using that by (rule set_takeWhileD)
    have t: "\<not> ?B t"
      using hd_dropWhile [of ?B ?ws] Cons by simp
    have "sem_wake_task no_hooks t (mark_waiters m ?bs s) = Inr (True, s')"
    proof -
      obtain w s1 where p: "usfstl_process_sem_wakeup no_hooks m s = Inr (w, s1)"
        using assms(2) by (auto simp: usfstl_sem_post_def bind_res_Inr_iff)
      then have w: "sem_wake_task no_hooks t (mark_waiters m ?bs s) = Inr (w, s1)"
        using Cons by (simp add: usfstl_process_sem_wakeup_def wakeup_loop_eq)
      then have "w" by (rule plain_wake_task)
      then show ?thesis
        using w p assms(2) by (simp add: usfstl_sem_post_def)
    qed
    then show ?thesis
    proof (rule plain_wake_task)
      fix b n
      assume b: "task_of (env (mark_waiters m ?bs s)) t = Some b" "sem_entry b = Some n"
        and e: "sem (env s') = (sem (env (mark_waiters m ?bs s)))(n := (sem (env (mark_waiters m ?bs s)) n)
          \<lparr>waiters := remove1 t (waiters (sem (env (mark_waiters m ?bs s)) n))\<rparr>)"
          "task_of (env s') = (task_of (env (mark_waiters m ?bs s)))(t \<mapsto> b\<lparr>woken_by_sem_post := True, sem_entry := None\<rparr>)"
          "\<And>k. blocked (jobs s' k) = blocked (jobs (mark_waiters m ?bs s) k)"
      have m: "sem_inv_on (sem (env s)) (mark_check m ?bs (task_of (env s))) ?B"
        using inv bs by (intro inv_mark_check) auto
      have "check_sem b = None"
        using sem_invD(5) [OF m, of t b] b(1) t by (cases "check_sem b") auto
      then show ?thesis
        using inv_wake [OF m, of t b n ?B "b\<lparr>woken_by_sem_post := True, sem_entry := None\<rparr>" "ctr (sem (env s) n)"] b
        by (simp add: sem_inv_def e)
    qed
  qed
qed

lemma sem_inv_cong:
  assumes "sem_inv s" and "sem (env s') = sem (env s)" and "task_of (env s') = task_of (env s)"
    and "\<And>t. blocked (jobs s' t) = blocked (jobs s t)"
  shows "sem_inv s'"
  using assms by (simp add: sem_inv_def)

lemma inv_ctr:
  assumes "sem_inv_on sm tk bl" and "c \<noteq> 0 \<Longrightarrow> ctr (sm m) \<noteq> 0"
  shows "sem_inv_on (sm(m := (sm m)\<lparr>ctr := c\<rparr>)) tk bl"
  using assms unfolding sem_inv_on_def by auto

lemma sem_trywait_inv:
  assumes "sem_inv s"
  shows "sem_inv (snd (usfstl_sem_trywait s m))"
  using assms inv_ctr [of "sem (env s)" "task_of (env s)" "\<lambda>t. blocked (jobs s t)" "ctr (sem (env s) m) - 1" m]
  by (simp add: usfstl_sem_trywait_def sem_inv_def word_greater_zero_iff)

text \<open>Joining the waiters of a semaphore whose counter is zero.\<close>

lemma inv_join:
  assumes inv: "sem_inv_on sm tk bl" and t: "tk t = Some b" "sem_entry b = None" "\<not> woken_by_sem_post b"
    and q: "set (waiters q) = insert t (set (waiters (sm m)))" "distinct (waiters q)" "ctr q = 0"
  shows "sem_inv_on (sm(m := q)) (tk(t \<mapsto> b\<lparr>sem_entry := Some m, resume_at := r\<rparr>)) bl"
    (is "sem_inv_on ?sm ?tk bl")
proof -
  have nt: "t \<notin> set (waiters (sm n))" for n
    using sem_invD(2) [OF inv, of t n] t by auto
  have c: "check_sem b = None"
    using sem_invD(5) [OF inv t(1)] t(2) by (cases "check_sem b") auto
  show ?thesis
    unfolding sem_inv_on_def
  proof (intro conjI allI ballI impI)
    fix n k b1
    show "distinct (waiters (?sm n))"
      using q sem_invD(1) [OF inv] by simp
    { assume k: "k \<in> set (waiters (?sm n))"
      then show "\<exists>b. ?tk k = Some b \<and> sem_entry b = Some n \<and> \<not> woken_by_sem_post b"
        using sem_invD(2) [OF inv, of k n] nt t q by (auto split: if_splits)
      assume "ctr (?sm n) \<noteq> 0"
      then show "bl k" "\<exists>b. ?tk k = Some b \<and> check_sem b = Some n"
        using sem_invD(4) [OF inv, of n k] k q nt by (auto split: if_splits) }
    assume k: "?tk k = Some b1"
    { assume "sem_entry b1 = Some n"
      then show "k \<in> set (waiters (?sm n))"
        using k q sem_invD(3) [OF inv, of k b1 n] by (auto split: if_splits) }
    assume "check_sem b1 = Some n"
    then show "bl k" "sem_entry b1 = Some n"
      using k c sem_invD(5) [OF inv, of k b1 n] by (auto split: if_splits)
  qed
qed

text \<open>
  What a waiting call does, up to the point where the caller is suspended: the
  caller takes the counter down, or it joins the list of waiters.
\<close>

lemma timedwait_cases:
  assumes "usfstl_sem_timedwait no_hooks s m timeout = Inr (got, s')"
    and "g_usfstl_task_running (env s)" and "current_ctx (env s) = t" and "task_of (env s) t = Some b"
  obtains "got" "ctr (sem (env s) m) \<noteq> 0" "\<not> woken_by_sem_post b" "task_of (env s') = task_of (env s)"
      "\<And>k. blocked (jobs s' k) = blocked (jobs s k)"
      "\<exists>n. sem (env s') = (sem (env s))(m := (sem (env s) m)\<lparr>sem_buf := n, ctr := ctr (sem (env s) m) - 1\<rparr>)"
  | "\<not> got" "ctr (sem (env s) m) = 0" "\<not> woken_by_sem_post b"
      "task_of (env s') = (task_of (env s))(t \<mapsto> b\<lparr>sem_entry := Some m, resume_at := InTimedwait m timeout\<rparr>)"
      "\<And>k. blocked (jobs s' k) = blocked (jobs s k)"
      "\<exists>n. sem (env s') = (sem (env s))(m := (sem (env s) m)\<lparr>sem_buf := n,
         waiters := insert_before_first (waiter_goes_before (jobs s) t) t (waiters (sem (env s) m))\<rparr>)"
proof -
  have cur: "usfstl_task_current s = Inr (Some t, s)"
    using assms(2-4) by (simp add: usfstl_task_current_def)
  define buf where "buf = (if sem_buf (sem (env s) m) = [] then take 50 (CHR ''!'' # sem_name (sem (env s) m))
    else sem_buf (sem (env s) m))"
  define s1 where "s1 = with_sem m (\<lambda>q. if sem_buf q = [] then q\<lparr>sem_buf := take 50 (CHR ''!'' # sem_name q)\<rparr> else q) s"
  have s1: "sem (env s1) = (sem (env s))(m := (sem (env s) m)\<lparr>sem_buf := buf\<rparr>)" "task_of (env s1) = task_of (env s)"
    "jobs s1 = jobs s"
    by (simp_all add: s1_def buf_def)
  note unf = assms(1) [unfolded usfstl_sem_timedwait_def cur, simplified, folded s1_def]
  have woken: "\<not> woken_by_sem_post b"
    using unf assms(4) by (auto simp: load_task_def res_simps)
  show thesis
  proof (cases "ctr (sem (env s) m) = 0")
    case False
    then have "got" "s' = with_sem m (\<lambda>q. q\<lparr>ctr := ctr q - 1\<rparr>) s1"
      using unf assms(4) s1 by (auto simp: load_task_def res_simps Let_def split: if_splits)
    with False woken s1 show thesis
      by (intro that(1)) auto
  next
    case True
    define s2 where "s2 = with_job t (\<lambda>j. j\<lparr>job_name := tl buf\<rparr>) s1"
    obtain s3 where add: "(if timeout \<noteq> NO_TIMEOUT
        then usfstl_sched_add_job no_hooks (with_job t (\<lambda>j. j\<lparr>start := current_time s2 + timeout\<rparr>) s2) t
        else Inr s2) = Inr s3"
      and s': "\<not> got" "s' = with_task t (\<lambda>b. b\<lparr>sem_entry := Some m, resume_at := InTimedwait m timeout\<rparr>)
        (with_sem m (\<lambda>q. q\<lparr>waiters := insert_before_first (waiter_goes_before (jobs s3) t) t (waiters q)\<rparr>) s3)"
      using unf True assms(4) s1 by (auto simp: load_task_def res_simps Let_def s2_def split: if_splits)
    have s3: "env s3 = env s1" "\<And>k. blocked (jobs s3 k) = blocked (jobs s k)"
      "\<And>k. priority (jobs s3 k) = priority (jobs s k)"
    proof -
      have "env s3 = env s1 \<and> (\<forall>k. blocked (jobs s3 k) = blocked (jobs s k)) \<and> (\<forall>k. priority (jobs s3 k) = priority (jobs s k))"
      proof (cases "timeout = NO_TIMEOUT")
        case True
        then show ?thesis
          using add s1(3) by (auto simp: s2_def split: if_splits)
      next
        case False
        then have a: "usfstl_sched_add_job no_hooks (with_job t (\<lambda>j. j\<lparr>start := current_time s2 + timeout\<rparr>) s2) t = Inr s3"
          using add by simp
        have "priority (jobs s3 k) = priority (jobs s k)" for k
          using plain_add_job_frame(4,5) [OF a] s1(3) by (cases "k = t") (auto simp: s2_def)
        then show ?thesis
          using plain_add_job_frame(1,3) [OF a] s1(3) by (auto simp: s2_def split: if_splits)
      qed
      then show "env s3 = env s1" "\<And>k. blocked (jobs s3 k) = blocked (jobs s k)"
        "\<And>k. priority (jobs s3 k) = priority (jobs s k)"
        by auto
    qed
    have "waiter_goes_before (jobs s3) t = waiter_goes_before (jobs s) t"
      using s3 by (simp add: fun_eq_iff waiter_goes_before_def)
    with True woken s' s1 s3 assms(4) show thesis
      by (intro that(2)) auto
  qed
qed

lemma sem_timedwait_inv:
  assumes inv: "sem_inv s" and "g_usfstl_task_running (env s)" and "task_of (env s) (current_ctx (env s)) = Some b"
    and "sem_entry b = None" and "usfstl_sem_timedwait no_hooks s m timeout = Inr (got, s')"
  shows "sem_inv s'"
proof -
  let ?sm = "sem (env s)" and ?t = "current_ctx (env s)"
  have i: "sem_inv_on ?sm (task_of (env s)) (\<lambda>k. blocked (jobs s k))"
    using inv by (simp add: sem_inv_def)
  from assms(5,2) refl assms(3) show ?thesis
  proof (cases rule: timedwait_cases)
    case 1
    then obtain n where n: "sem (env s') = ?sm(m := (?sm m)\<lparr>sem_buf := n, ctr := ctr (?sm m) - 1\<rparr>)"
      by blast
    show ?thesis
      using i 1(2) unfolding sem_inv_def n 1(4,5) sem_inv_on_def by auto
  next
    case 2
    then obtain n where n: "sem (env s') = ?sm(m := (?sm m)\<lparr>sem_buf := n,
        waiters := insert_before_first (waiter_goes_before (jobs s) ?t) ?t (waiters (?sm m))\<rparr>)"
      by blast
    have "?t \<notin> set (waiters (?sm m))"
      using sem_invD(2) [OF i, of ?t m] assms(3,4) by auto
    then have "sem_inv_on (?sm(m := (?sm m)\<lparr>sem_buf := n,
        waiters := insert_before_first (waiter_goes_before (jobs s) ?t) ?t (waiters (?sm m))\<rparr>))
        ((task_of (env s))(?t \<mapsto> b\<lparr>sem_entry := Some m, resume_at := InTimedwait m timeout\<rparr>)) (\<lambda>k. blocked (jobs s k))"
      using sem_invD(1) [OF i] 2(2,3) assms(3,4) by (intro inv_join [OF i]) auto
    then show ?thesis
      unfolding sem_inv_def n 2(4,5) .
  qed
qed

text \<open>Changes of a task that do not concern its waiting.\<close>

lemma inv_task_upd:
  assumes inv: "sem_inv_on sm tk bl" and b: "tk t = Some b"
    and b': "sem_entry b' = sem_entry b" "check_sem b' = check_sem b" "woken_by_sem_post b' \<Longrightarrow> woken_by_sem_post b"
  shows "sem_inv_on sm (tk(t \<mapsto> b')) bl"
  unfolding sem_inv_on_def
proof (intro conjI allI ballI impI)
  fix n k b1
  show "distinct (waiters (sm n))"
    using sem_invD(1) [OF inv] .
  { assume k: "k \<in> set (waiters (sm n))"
    show "\<exists>b. (tk(t \<mapsto> b')) k = Some b \<and> sem_entry b = Some n \<and> \<not> woken_by_sem_post b"
      using sem_invD(2) [OF inv k] b b' by (cases "k = t") auto
    assume "ctr (sm n) \<noteq> 0"
    then show "bl k" "\<exists>b. (tk(t \<mapsto> b')) k = Some b \<and> check_sem b = Some n"
      using sem_invD(4) [OF inv _ k] b b' by (cases "k = t"; auto)+ }
  assume k: "(tk(t \<mapsto> b')) k = Some b1"
  { assume "sem_entry b1 = Some n"
    then show "k \<in> set (waiters (sm n))"
      using k b b' sem_invD(3) [OF inv] by (cases "k = t") auto }
  assume "check_sem b1 = Some n"
  then show "bl k" "sem_entry b1 = Some n"
    using k b' sem_invD(5) [OF inv, of k b1 n] sem_invD(5) [OF inv b, of n] by (cases "k = t"; auto)+
qed

lemma sem_timedwait_resumed_inv:
  assumes inv: "sem_inv s" and "usfstl_sem_timedwait_resumed s t timeout = Inr (got, s')"
  shows "sem_inv s'"
proof -
  let ?bl = "\<lambda>k. blocked (jobs s k)"
  have i: "sem_inv_on (sem (env s)) (task_of (env s)) ?bl"
    using inv by (simp add: sem_inv_def)
  obtain b where b: "task_of (env s) t = Some b" "check_sem b = None"
    using assms(2) by (auto simp: usfstl_sem_timedwait_resumed_def load_task_def res_simps Let_def split: option.splits)
  define s1 where "s1 = with_task t (\<lambda>b. b\<lparr>resume_at := InSuspend\<rparr>) (with_job t (\<lambda>j. j\<lparr>job_name := []\<rparr>) s)"
  have s1: "task_of (env s1) = (task_of (env s))(t \<mapsto> b\<lparr>resume_at := InSuspend\<rparr>)" "sem (env s1) = sem (env s)"
    "\<And>k. blocked (jobs s1 k) = ?bl k"
    using b by (auto simp: s1_def)
  note unf = assms(2) [unfolded usfstl_sem_timedwait_resumed_def, folded s1_def, unfolded Let_def, simplified]
  show ?thesis
  proof (cases "woken_by_sem_post b")
    case True
    then have s': "s' = with_task t (\<lambda>b. b\<lparr>woken_by_sem_post := False\<rparr>) s1"
      using unf s1 b by (auto simp: load_task_def)
    have "sem_inv_on (sem (env s)) ((task_of (env s))(t \<mapsto> b\<lparr>resume_at := InSuspend, woken_by_sem_post := False\<rparr>)) ?bl"
      using b by (intro inv_task_upd [OF i]) auto
    then show ?thesis
      by (simp add: sem_inv_def s' s1)
  next
    case False
    then obtain m where m: "sem_entry b = Some m"
      and s': "s' = with_task t (\<lambda>b. b\<lparr>sem_entry := None\<rparr>) (with_sem m (\<lambda>q. q\<lparr>waiters := remove1 t (waiters q)\<rparr>) s1)"
      using unf s1 b by (auto simp: load_task_def sem_entry_remove_def res_simps)
    have "sem_inv_on ((sem (env s))(m := (sem (env s) m)\<lparr>ctr := ctr (sem (env s) m), waiters := remove1 t (waiters (sem (env s) m))\<rparr>))
      ((task_of (env s))(t \<mapsto> b\<lparr>resume_at := InSuspend, sem_entry := None\<rparr>)) ?bl"
      using b m by (intro inv_wake [OF i]) auto
    then show ?thesis
      by (simp add: sem_inv_def s' s1)
  qed
qed

lemma task_block_inv:
  assumes "sem_inv s" and "usfstl_task_block s t = Inr s'"
  shows "sem_inv s'"
proof -
  note f = block_job_frame [OF assms(2) [unfolded usfstl_task_block_def]]
  show ?thesis
    using assms(1) unfolding sem_inv_def sem_inv_on_def f(1) by (auto simp: f(2))
qed

text \<open>
  Unblocking a task that has to look at a semaphore with a positive counter: all
  other waiters are blocked, so it is this task that gets the semaphore.
\<close>

lemma unblock_wakes_self:
  assumes inv: "sem_inv s" and u: "usfstl_sched_unblock_job no_hooks s t = Inr s1"
    and b: "task_of (env s) t = Some b" "check_sem b = Some m" and c: "ctr (sem (env s) m) \<noteq> 0"
  shows "usfstl_process_sem_wakeup no_hooks m (with_sem m (\<lambda>q. q\<lparr>ctr := ctr q - 1\<rparr>) s1)
    = sem_wake_task no_hooks t (with_sem m (\<lambda>q. q\<lparr>ctr := ctr q - 1\<rparr>) s1)"
proof -
  let ?s = "with_sem m (\<lambda>q. q\<lparr>ctr := ctr q - 1\<rparr>) s1"
  let ?ws = "waiters (sem (env s) m)"
  have i: "sem_inv_on (sem (env s)) (task_of (env s)) (\<lambda>k. blocked (jobs s k))"
    using inv by (simp add: sem_inv_def)
  note f = plain_unblock_job_frame [OF u]
  have t: "t \<in> set ?ws"
    using sem_invD(3,5) [OF i b(1)] b(2) by blast
  have bl: "blocked (jobs ?s k) \<longleftrightarrow> k \<noteq> t" if "k \<in> set ?ws" for k
    using sem_invD(4) [OF i c that] f(2) by simp
  then obtain bs rest where ws: "?ws = bs @ t # rest" "t \<notin> set bs"
    using t by (meson split_list_first)
  have tw: "takeWhile (\<lambda>k. blocked (jobs ?s k)) ?ws = bs" "dropWhile (\<lambda>k. blocked (jobs ?s k)) ?ws = t # rest"
  proof -
    have "\<forall>k \<in> set bs. blocked (jobs ?s k)" "\<not> blocked (jobs ?s t)"
      using bl ws t by auto
    then show "takeWhile (\<lambda>k. blocked (jobs ?s k)) ?ws = bs" "dropWhile (\<lambda>k. blocked (jobs ?s k)) ?ws = t # rest"
      unfolding ws(1) by (simp_all add: takeWhile_append dropWhile_append)
  qed
  have "mark_check m (set bs) (task_of (env s)) = task_of (env s)"
  proof
    fix k
    show "mark_check m (set bs) (task_of (env s)) k = task_of (env s) k"
      using sem_invD(4) [OF i c, of k] ws by (auto simp: mark_check_def)
  qed
  then have "mark_waiters m (set bs) ?s = ?s"
    by (simp add: mark_waiters_def with_env_def with_sem_def f(1))
  then show ?thesis
    using tw f(1) by (simp add: usfstl_process_sem_wakeup_def wakeup_loop_eq)
qed

lemma inv_unblocked:
  assumes inv: "sem_inv_on sm tk bl" and b: "tk t = Some b" and c: "\<And>m. check_sem b = Some m \<Longrightarrow> ctr (sm m) = 0"
    and bl': "\<And>k. bl' k \<longleftrightarrow> k \<noteq> t \<and> bl k"
  shows "sem_inv_on sm (tk(t \<mapsto> b\<lparr>check_sem := None\<rparr>)) bl'"
  unfolding sem_inv_on_def
proof (intro conjI allI ballI impI)
  let ?tk = "tk(t \<mapsto> b\<lparr>check_sem := None\<rparr>)"
  fix n k b1
  show "distinct (waiters (sm n))"
    using sem_invD(1) [OF inv] .
  { assume k: "k \<in> set (waiters (sm n))"
    show "\<exists>b. ?tk k = Some b \<and> sem_entry b = Some n \<and> \<not> woken_by_sem_post b"
      using sem_invD(2) [OF inv k] b by (cases "k = t") auto
    assume n: "ctr (sm n) \<noteq> 0"
    then have "k \<noteq> t"
      using sem_invD(4) [OF inv n k] b c by auto
    then show "bl' k" "\<exists>b. ?tk k = Some b \<and> check_sem b = Some n"
      using sem_invD(4) [OF inv n k] bl' by auto }
  assume k: "?tk k = Some b1"
  { assume "sem_entry b1 = Some n"
    then show "k \<in> set (waiters (sm n))"
      using k b sem_invD(3) [OF inv, of k b1 n] sem_invD(3) [OF inv b, of n] by (cases "k = t") auto }
  assume c1: "check_sem b1 = Some n"
  then have "k \<noteq> t"
    using k by auto
  then have "tk k = Some b1"
    using k by simp
  from sem_invD(5) [OF inv this c1] show "bl' k" "sem_entry b1 = Some n"
    using \<open>k \<noteq> t\<close> by (simp_all add: bl')
qed

lemma task_unblock_inv:
  assumes inv: "sem_inv s" and "usfstl_task_unblock no_hooks s t = Inr s'"
  shows "sem_inv s'"
proof -
  have i: "sem_inv_on (sem (env s)) (task_of (env s)) (\<lambda>k. blocked (jobs s k))"
    using inv by (simp add: sem_inv_def)
  obtain b s1 where b: "task_of (env s) t = Some b" and u: "usfstl_sched_unblock_job no_hooks s t = Inr s1"
    using assms(2) by (auto simp: usfstl_task_unblock_def load_task_def res_simps split: option.splits)
  note f = plain_unblock_job_frame [OF u]
  have load: "load_task s t = Inr b"
    using b by (simp add: load_task_def)
  show ?thesis
  proof (cases "\<exists>m. check_sem b = Some m \<and> ctr (sem (env s) m) \<noteq> 0")
    case False
    then have s': "s' = (if check_sem b = None then s1 else with_task t (\<lambda>b. b\<lparr>check_sem := None\<rparr>) s1)"
      using assms(2) f(1) by (auto simp: usfstl_task_unblock_def load u split: option.splits)
    have "sem_inv_on (sem (env s)) ((task_of (env s))(t \<mapsto> b\<lparr>check_sem := None\<rparr>)) (\<lambda>k. blocked (jobs s1 k))"
      using False f(2) by (intro inv_unblocked [OF i b]) auto
    moreover have "task_of (env s') = (task_of (env s))(t \<mapsto> b\<lparr>check_sem := None\<rparr>)"
      using b f(1) by (auto simp: s' fun_eq_iff)
    moreover have "sem (env s') = sem (env s)" "jobs s' = jobs s1"
      using f(1) by (auto simp: s')
    ultimately show ?thesis
      by (simp add: sem_inv_def)
  next
    case True
    then obtain m where m: "check_sem b = Some m" "ctr (sem (env s) m) \<noteq> 0"
      by blast
    let ?s = "with_sem m (\<lambda>q. q\<lparr>ctr := ctr q - 1\<rparr>) s1"
    obtain w s2 where w: "sem_wake_task no_hooks t ?s = Inr (w, s2)" and s': "s' = with_task t (\<lambda>b. b\<lparr>check_sem := None\<rparr>) s2"
      using assms(2) unblock_wakes_self [OF inv u b m] m f(1) by (auto simp: usfstl_task_unblock_def load u res_simps)
    from w show ?thesis
    proof (rule plain_wake_task)
      fix b1 n
      assume b1: "task_of (env ?s) t = Some b1" "sem_entry b1 = Some n"
        and e: "sem (env s2) = (sem (env ?s))(n := (sem (env ?s) n)\<lparr>waiters := remove1 t (waiters (sem (env ?s) n))\<rparr>)"
          "task_of (env s2) = (task_of (env ?s))(t \<mapsto> b1\<lparr>woken_by_sem_post := True, sem_entry := None\<rparr>)"
          "\<And>k. blocked (jobs s2 k) = blocked (jobs ?s k)"
      have eq: "b1 = b" "n = m"
        using b1 b f(1) m sem_invD(5) [OF i b m(1)] by auto
      have "sem_inv_on ((sem (env s))(m := (sem (env s) m)\<lparr>ctr := ctr (sem (env s) m) - 1, waiters := remove1 t (waiters (sem (env s) m))\<rparr>))
        ((task_of (env s))(t \<mapsto> b\<lparr>woken_by_sem_post := True, sem_entry := None, check_sem := None\<rparr>)) (\<lambda>k. blocked (jobs s1 k))"
        using b b1 eq m f(2) by (intro inv_wake [OF i]) auto
      then show ?thesis
        by (simp add: sem_inv_def s' e eq f(1))
    qed
  qed
qed

text \<open>
  What programs do with semaphores. Everything else in the task library (sleeping,
  resuming, switching, running other jobs) leaves the semaphores, the tasks'
  waiting state and the blocked flags alone.
\<close>

inductive sem_reach :: "'w tstate \<Rightarrow> 'w tstate \<Rightarrow> bool" where
  sem_start: "sem_reach s s"
| sem_elsewhere: "sem_reach s s1 \<Longrightarrow> sem (env s2) = sem (env s1) \<Longrightarrow> task_of (env s2) = task_of (env s1) \<Longrightarrow>
    (\<And>t. blocked (jobs s2 t) = blocked (jobs s1 t)) \<Longrightarrow> sem_reach s s2"
| sem_post: "sem_reach s s1 \<Longrightarrow> usfstl_sem_post no_hooks s1 m = Inr s2 \<Longrightarrow> sem_reach s s2"
| sem_trywait: "sem_reach s s1 \<Longrightarrow> sem_reach s (snd (usfstl_sem_trywait s1 m))"
| sem_timedwait: "sem_reach s s1 \<Longrightarrow> g_usfstl_task_running (env s1) \<Longrightarrow>
    task_of (env s1) (current_ctx (env s1)) = Some b \<Longrightarrow> sem_entry b = None \<Longrightarrow>
    usfstl_sem_timedwait no_hooks s1 m timeout = Inr (got, s2) \<Longrightarrow> sem_reach s s2"
| sem_resumed: "sem_reach s s1 \<Longrightarrow> usfstl_sem_timedwait_resumed s1 t timeout = Inr (got, s2) \<Longrightarrow> sem_reach s s2"
| task_block: "sem_reach s s1 \<Longrightarrow> usfstl_task_block s1 t = Inr s2 \<Longrightarrow> sem_reach s s2"
| task_unblock: "sem_reach s s1 \<Longrightarrow> usfstl_task_unblock no_hooks s1 t = Inr s2 \<Longrightarrow> sem_reach s s2"


definition example_tasks :: "unit tstate" where
  "example_tasks = USFSTL_SCHEDULER ''tasks''
     (\<lambda>j. \<lparr>start = 0, priority = 0, group = 0, job_name = [], job_data = j, callback = TASK_JOB_FN,
        blocked = (j = 3), pending = False\<rparr>)
     \<lparr>task_of = (\<lambda>t. if t \<in> {1, 2, 3} then Some \<lparr>task_name = ''task'', task_fn = 0, task_free = None, task_data = 0,
        sem_entry = (if t = 1 then None else Some 0), check_sem = None, woken_by_sem_post = False,
        resume_at = (if t = 1 then InSuspend else InTimedwait 0 NO_TIMEOUT)\<rparr> else None),
      sem = (\<lambda>m. \<lparr>sem_name = ''sem'', waiters = (if m = 0 then [3, 2] else []), ctr = 0, sem_buf = ''!sem''\<rparr>),
      g_usfstl_task_to_end = None, g_usfstl_task_running = True, g_usfstl_task_selected = False,
      current_ctx = 1, main_ctx = 1, task_world = ()\<rparr>"

lemma example_tasks_inv: "sem_inv example_tasks" "sched_inv no_hooks example_tasks"
  by (auto simp: sem_inv_def sem_inv_on_def example_tasks_def USFSTL_SCHEDULER_def plain_inv sched_inv_at_def
      sched_core_at_def split: if_splits)


section \<open>Who gets the semaphore\<close>

lemma plain_add_job_total:
  assumes "usfstl_time_cmp (start (jobs s j)) (\<ge>) (current_time s)" and "\<not> usfstl_job_scheduled s j"
    and "group (jobs s j) < 32"
  shows "\<exists>s'. usfstl_sched_add_job no_hooks s j = Inr s' \<and> (\<not> blocked (jobs s j) \<longrightarrow> usfstl_job_scheduled s' j)"
  using assms by (auto simp: usfstl_sched_add_job_def Let_def usfstl_job_scheduled_def)

lemma plain_wake_task_total:
  assumes "sched_inv no_hooks s" and "task_of (env s) t = Some b" and "sem_entry b = Some m"
    and "\<not> blocked (jobs s t)" and "group (jobs s t) < 32"
  shows "\<exists>s'. sem_wake_task no_hooks t s = Inr (True, s') \<and> usfstl_job_scheduled s' t"
proof -
  let ?s = "with_task t (\<lambda>b. b\<lparr>woken_by_sem_post := True\<rparr>)
      (with_job t (\<lambda>j. j\<lparr>start := current_time s, job_name := CHR ''!'' # job_name j\<rparr>) (usfstl_sched_del_job s t))"
  have "\<not> usfstl_job_scheduled ?s t"
    using del_job_not_scheduled [of "current_time s" s t] assms(1)
    by (simp add: plain_inv sched_inv_at_def usfstl_job_scheduled_def)
  then obtain s1 where s1: "usfstl_sched_add_job no_hooks ?s t = Inr s1" "usfstl_job_scheduled s1 t"
    using plain_add_job_total [of ?s t] assms(4,5) by auto
  have "task_of (env s1) t = Some (b\<lparr>woken_by_sem_post := True\<rparr>)"
    using plain_add_job_frame(1) [OF s1(1)] assms(2) by simp
  then have "\<exists>s2. sem_entry_remove t s1 = Inr s2 \<and> usfstl_job_scheduled s2 t"
    using assms(3) s1(2) by (simp add: sem_entry_remove_def load_task_def usfstl_job_scheduled_def)
  then show ?thesis
    using s1(1) by (auto simp: sem_wake_task_def)
qed



lemma plain_unblock_total:
  assumes "blocked (jobs s t)" and "\<not> usfstl_job_scheduled s t" and "group (jobs s t) < 32"
  shows "\<exists>s1. usfstl_sched_unblock_job no_hooks s t = Inr s1 \<and> group (jobs s1 t) = group (jobs s t)"
proof (cases "pending (jobs s t)")
  case False
  then show ?thesis
    using assms(1) by (simp add: usfstl_sched_unblock_job_def)
next
  case True
  let ?f = "\<lambda>b. b\<lparr>blocked := False, pending := False,
      start := if usfstl_time_cmp (start b) (<) (current_time s) then current_time s else start b\<rparr>"
  let ?w = "with_job t ?f s"
  have "usfstl_time_cmp (start (jobs ?w t)) (\<ge>) (current_time s)"
    by (simp add: time_lt_now_iff time_ge_now_iff)
  then obtain s1 where s1: "usfstl_sched_add_job no_hooks ?w t = Inr s1"
    using plain_add_job_total [of ?w t] assms(2,3) by (auto simp: usfstl_job_scheduled_def)
  have "usfstl_sched_unblock_job no_hooks s t = usfstl_sched_add_job no_hooks ?w t"
    using True assms(1,2) by (simp add: usfstl_sched_unblock_job_def usfstl_sched_restore_job_def
        usfstl_sched_del_job_def usfstl_job_scheduled_def with_job_def)
  moreover have "group (jobs s1 t) = group (jobs s t)"
    using s1 plain_current_time(1) by (cases rule: add_job_elim) auto
  ultimately show ?thesis
    using s1 by simp
qed

text \<open>
  C17: when a blocked waiter of a semaphore with a positive counter is unblocked,
  the assertion that some task is woken holds, and the task that is woken is the
  one that was unblocked: it takes the counter down by one, leaves the waiting
  list and is scheduled.
\<close>

theorem unblock_gets_semaphore:
  assumes "sched_inv no_hooks s" and "sem_inv s" and "blocked (jobs s t)" and "group (jobs s t) < 32"
    and "pending (jobs s t) \<longrightarrow> start (jobs s t) - current_time s \<noteq> 2 ^ 63"
    and "task_of (env s) t = Some b" and "check_sem b = Some m" and "ctr (sem (env s) m) \<noteq> 0"
  shows "\<exists>s'. usfstl_task_unblock no_hooks s t = Inr s' \<and> usfstl_job_scheduled s' t
    \<and> task_of (env s') t = Some (b\<lparr>woken_by_sem_post := True, sem_entry := None, check_sem := None\<rparr>)
    \<and> sem (env s') = (sem (env s))(m := (sem (env s) m)\<lparr>ctr := ctr (sem (env s) m) - 1,
        waiters := remove1 t (waiters (sem (env s) m))\<rparr>)"
proof -
  have i: "sem_inv_on (sem (env s)) (task_of (env s)) (\<lambda>k. blocked (jobs s k))"
    using assms(2) by (simp add: sem_inv_def)
  have ok: "sched_ok no_hooks (\<lambda>_. True) s"
    using assms(1) by (simp add: sched_ok_def)
  have ns: "\<not> usfstl_job_scheduled s t"
    using assms(1,3) by (auto simp: plain_inv sched_inv_at_def sched_core_at_def usfstl_job_scheduled_def)
  obtain s1 where u: "usfstl_sched_unblock_job no_hooks s t = Inr s1" and g: "group (jobs s1 t) = group (jobs s t)"
    using plain_unblock_total [OF assms(3) ns assms(4)] by blast
  have inv1: "sched_inv no_hooks s1"
    using plain.unblock_job_ok [OF ok _ u] assms(5) by (auto simp: sched_ok_def)
  note f = plain_unblock_job_frame [OF u]
  let ?s = "with_sem m (\<lambda>q. q\<lparr>ctr := ctr q - 1\<rparr>) s1"
  have tb: "task_of (env ?s) t = Some b" and se: "sem_entry b = Some m"
    using assms(6) f(1) sem_invD(5) [OF i assms(6,7)] by auto
  have "sched_inv no_hooks ?s"
    using inv1 plain_inv_cong [of ?s s1] by simp
  then obtain s2 where w: "sem_wake_task no_hooks t ?s = Inr (True, s2)" "usfstl_job_scheduled s2 t"
    using plain_wake_task_total [of ?s t b m] tb se f(2) g assms(4) by auto
  let ?s' = "with_task t (\<lambda>b. b\<lparr>check_sem := None\<rparr>) s2"
  have res: "usfstl_task_unblock no_hooks s t = Inr ?s'"
    using unblock_wakes_self [OF assms(2) u assms(6-8)] w(1) assms(6-8) f(1)
    by (simp add: usfstl_task_unblock_def load_task_def u)
  from w(1) show ?thesis
  proof (rule plain_wake_task)
    fix b1 n
    assume b1: "task_of (env ?s) t = Some b1" "sem_entry b1 = Some n"
      and e: "sem (env s2) = (sem (env ?s))(n := (sem (env ?s) n)\<lparr>waiters := remove1 t (waiters (sem (env ?s) n))\<rparr>)"
        "task_of (env s2) = (task_of (env ?s))(t \<mapsto> b1\<lparr>woken_by_sem_post := True, sem_entry := None\<rparr>)"
    have "b1 = b" "n = m"
      using tb se b1 by auto
    then show ?thesis
      using res w(2) e f(1) by (simp add: usfstl_job_scheduled_def)
  qed
qed

definition example_blocked :: "unit tstate" where
  "example_blocked = with_task 3 (\<lambda>b. b\<lparr>check_sem := Some 0\<rparr>)
     (with_task 2 (\<lambda>b. b\<lparr>sem_entry := None\<rparr>)
     (with_sem 0 (\<lambda>q. q\<lparr>waiters := [3], ctr := 1\<rparr>) example_tasks))"

theorem unblock_gets_semaphore_witness:
  "\<exists>s'. usfstl_task_unblock no_hooks example_blocked 3 = Inr s' \<and> usfstl_job_scheduled s' 3
    \<and> waiters (sem (env s') 0) = [] \<and> ctr (sem (env s') 0) = 0"
proof -
  note d = example_blocked_def example_tasks_def USFSTL_SCHEDULER_def
  have inv: "sem_inv example_blocked" "sched_inv no_hooks example_blocked"
    by (auto simp: sem_inv_def sem_inv_on_def d plain_inv sched_inv_at_def sched_core_at_def split: if_splits)
  obtain b where b: "task_of (env example_blocked) 3 = Some b" "check_sem b = Some 0"
    by (simp add: d)
  have w: "sem (env example_blocked) 0 = \<lparr>sem_name = ''sem'', waiters = [3], ctr = 1, sem_buf = ''!sem''\<rparr>"
    by (simp add: d)
  have "blocked (jobs example_blocked 3)" "group (jobs example_blocked 3) < 32"
    "pending (jobs example_blocked 3) \<longrightarrow> start (jobs example_blocked 3) - current_time example_blocked \<noteq> 2 ^ 63"
    by (simp_all add: d)
  from unblock_gets_semaphore [OF inv(2,1) this b] show ?thesis
    by (auto simp: w)
qed

section \<open>Sleeping\<close>

text \<open>
  C18: a task that sleeps while no other job is due before its wake-up time runs
  again itself: one pass of the scheduler brings it back as the current task,
  at exactly the time of the call plus the delay, and the other jobs are as they
  were.
\<close>

theorem task_sleep_wakes:
  assumes inv: "sched_inv no_hooks s" and run: "g_usfstl_task_running (env s)" "current_ctx (env s) = t"
      "task_of (env s) t = Some b" "resume_at b \<noteq> Fresh" "g_usfstl_task_to_end (env s) = None"
    and job: "callback (jobs s t) = TASK_JOB_FN" "job_data (jobs s t) = t" "\<not> blocked (jobs s t)"
      "group (jobs s t) < 32" "may_run s t" "\<not> usfstl_job_scheduled s t"
    and time: "in_window (current_time s) (current_time s + delay)"
    and others: "\<forall>k \<in> set (joblist s). usfstl_time_cmp (start (jobs s k)) (>) (current_time s + delay)"
  shows "\<exists>s'. usfstl_task_sleep (Suc n) no_hooks TH s delay = Inr s'
    \<and> current_time s' = current_time s + delay \<and> current_ctx (env s') = t
    \<and> g_usfstl_task_running (env s') \<and> joblist s' = joblist s"
proof -
  let ?T = "current_time s + delay"
  let ?w = "with_job t (\<lambda>b. b\<lparr>job_name := sleep_job_name delay, start := ?T\<rparr>) s"
  let ?a = "?w\<lparr>joblist := t # joblist s\<rparr>"
  have cur: "usfstl_task_current s = Inr (Some t, s)"
    using run by (simp add: usfstl_task_current_def)
  have inv_at: "sched_inv_at (current_time s) s"
    using inv by (simp add: plain_inv)
  have winv: "sched_inv_at (current_time s) ?w"
    using inv_at job(3,6) inv_pendingD [OF inv_at] by (intro inv_with_job) auto
  have first: "insert_before_first (job_goes_before (jobs ?w) t) t (joblist ?w) = t # joblist s"
  proof (cases "joblist s")
    case (Cons k ks)
    then have "k \<noteq> t" "usfstl_time_cmp (start (jobs s k)) (>) ?T"
      using job(6) others by (auto simp: usfstl_job_scheduled_def)
    then show ?thesis
      using Cons by (simp add: job_goes_before_def)
  qed simp
  have ge: "usfstl_time_cmp ?T (\<ge>) (current_time s)"
    using time by (simp only: time_ge_now_iff in_window_def)
  have mr: "may_run ?w t"
    using job(5) by (simp add: may_run_def group_blocked_def)
  have add: "usfstl_sched_add_job no_hooks ?w t = Inr ?a"
    using ge job mr first by (auto simp: usfstl_sched_add_job_def usfstl_job_scheduled_def may_run_def)
  have ok: "sched_ok no_hooks (\<lambda>_. True) ?w"
    using winv by (simp add: sched_ok_def plain_inv)
  have ainv: "sched_inv no_hooks ?a"
    using plain.add_job_ok [OF ok _ add] in_window_not_half [OF time] by (simp add: sched_ok_def)
  let ?l = "with_env (\<lambda>e. e\<lparr>task_world := (case g_usfstl_task_leave TH of None \<Rightarrow> task_world e | Some f \<Rightarrow> f (task_world e)),
      g_usfstl_task_running := False, g_usfstl_task_selected := False\<rparr>) ?a"
  have linv: "sched_inv no_hooks ?l" "joblist ?l = t # joblist s"
    using ainv plain_inv_cong [of ?l ?a] by simp_all
  let ?n = "?l\<lparr>joblist := joblist s, current_time := ?T\<rparr>"
  have "usfstl_sched_next (Suc n) no_hooks (task_run TH) ?l
      = bind_res (task_run TH t ?n) (\<lambda>s'. Inr (t, s'))"
    by (subst plain_next [OF linv]) simp
  moreover have "task_run TH t ?n = Inr (with_env (\<lambda>e. e\<lparr>current_ctx := t, g_usfstl_task_selected := True\<rparr>) ?n)"
    using job(1,2) run by (simp add: task_run_def usfstl_task_job_fn_def load_task_def with_env_def)
  ultimately have nxt: "usfstl_sched_next (Suc n) no_hooks (task_run TH) ?l
      = Inr (t, with_env (\<lambda>e. e\<lparr>current_ctx := t, g_usfstl_task_selected := True\<rparr>) ?n)"
    by simp
  have "usfstl_task_next (Suc n) no_hooks TH ?a = Inr (usfstl_task_enter TH
      (with_env (\<lambda>e. e\<lparr>current_ctx := t, g_usfstl_task_selected := True\<rparr>) ?n))"
    unfolding usfstl_task_next_def task_next_loop.simps nxt by simp
  moreover have "usfstl_task_sleep (Suc n) no_hooks TH s delay = usfstl_task_next (Suc n) no_hooks TH ?a"
    using cur add by (simp add: usfstl_task_sleep_def with_job_def)
  ultimately show ?thesis
    by (simp add: usfstl_task_enter_def)
qed

definition example_task_hooks :: "unit task_hooks" where
  "example_task_hooks = \<lparr>g_usfstl_task_leave = None, g_usfstl_task_enter = None, other_job = (\<lambda>_. Inr),
     call_free = (\<lambda>_ _ _ w. w)\<rparr>"

theorem task_sleep_wakes_witness:
  "\<exists>s'. usfstl_task_sleep 1 no_hooks example_task_hooks example_tasks 10 = Inr s'
    \<and> current_time s' = 10 \<and> current_ctx (env s') = 1"
proof -
  note d = example_tasks_def USFSTL_SCHEDULER_def
  obtain b where b: "task_of (env example_tasks) 1 = Some b" "resume_at b \<noteq> Fresh"
    by (simp add: d)
  have "\<exists>s'. usfstl_task_sleep (Suc 0) no_hooks example_task_hooks example_tasks 10 = Inr s'
    \<and> current_time s' = current_time example_tasks + 10 \<and> current_ctx (env s') = 1
    \<and> g_usfstl_task_running (env s') \<and> joblist s' = joblist example_tasks"
    by (rule task_sleep_wakes [OF example_tasks_inv(2) _ _ b])
      (simp_all add: d may_run_def group_blocked_def usfstl_job_scheduled_def in_window_def ahead_def)
  then show ?thesis
    by (auto simp: d)
qed

end
