(* ===== verification/Vhost.thy ===== *)
theory Vhost
  imports Sched Loop
begin

text \<open>
  The vhost-user device side, \<^verbatim>\<open>src/vhost.c\<close>: scatter lists, address translation,
  the virtqueues and the messages of the control socket. Guest memory is typed:
  descriptor tables and rings are found by their host address, everything else is
  bytes. The host is little endian, so the conversions to and from virtio byte
  order are the identity.
\<close>

section \<open>Scatter lists\<close>

record iovec =
  iov_base :: u64
  iov_len_of :: u64

text \<open>\<^verbatim>\<open>memcpy\<close> to and from the bytes of memory.\<close>

fun store_bytes :: "(u64 \<Rightarrow> u8) \<Rightarrow> u64 \<Rightarrow> u8 list \<Rightarrow> u64 \<Rightarrow> u8" where
  "store_bytes mem a [] = mem"
| "store_bytes mem a (b # bs) = store_bytes (mem(a := b)) (a + 1) bs"

fun load_bytes :: "(u64 \<Rightarrow> u8) \<Rightarrow> u64 \<Rightarrow> nat \<Rightarrow> u8 list" where
  "load_bytes mem a 0 = []"
| "load_bytes mem a (Suc n) = mem a # load_bytes mem (a + 1) n"

fun iov_len :: "iovec list \<Rightarrow> u64" where
  "iov_len [] = 0"
| "iov_len (v # sg) = iov_len_of v + iov_len sg"

text \<open>The loops end when the data (or the space for it) or the list is used up.\<close>

fun iov_fill :: "(u64 \<Rightarrow> u8) \<Rightarrow> iovec list \<Rightarrow> u8 list \<Rightarrow> nat \<times> (u64 \<Rightarrow> u8)" where
  "iov_fill mem [] buf = (0, mem)"
| "iov_fill mem (v # sg) buf =
     (if buf = [] then (0, mem)
      else let cpy = min (length buf) (unat (iov_len_of v));
               mem = store_bytes mem (iov_base v) (take cpy buf);
               (copied, mem) = iov_fill mem sg (drop cpy buf)
           in (cpy + copied, mem))"

fun iov_read :: "(u64 \<Rightarrow> u8) \<Rightarrow> nat \<Rightarrow> iovec list \<Rightarrow> u8 list" where
  "iov_read mem buflen [] = []"
| "iov_read mem buflen (v # sg) =
     (if buflen = 0 then []
      else let cpy = min buflen (unat (iov_len_of v))
           in load_bytes mem (iov_base v) cpy @ iov_read mem (buflen - cpy) sg)"

section \<open>Virtqueues and the device\<close>

record vring_desc =
  d_addr :: u64
  d_len :: u32
  d_flags :: u16
  d_next :: u16

definition VRING_DESC_F_NEXT :: u16 where "VRING_DESC_F_NEXT = 1"
definition VRING_DESC_F_WRITE :: u16 where "VRING_DESC_F_WRITE = 2"

record guest_mem =
  m_desc :: "u64 \<Rightarrow> u16 \<Rightarrow> vring_desc"
  m_avail_idx :: "u64 \<Rightarrow> u16"
  m_avail_ring :: "u64 \<Rightarrow> u32 \<Rightarrow> u16"
  m_used_idx :: "u64 \<Rightarrow> u16"
  m_used_ring :: "u64 \<Rightarrow> u32 \<Rightarrow> u32 \<times> u32"
  m_bytes :: "u64 \<Rightarrow> u8"

record vhost_user_region =
  guest_phys_addr :: u64
  region_size :: u64
  user_addr :: u64
  mmap_offset :: u64

text \<open>One element of \<^verbatim>\<open>virtqs[]\<close>; the descriptor of its loop entry is kept in the loop.\<close>

record virtq_state =
  vq_entry :: entry_ptr
  enabled :: bool
  triggered :: bool
  vq_num :: u32
  vq_desc :: u64
  vq_avail :: u64
  vq_used :: u64
  call_fd :: int
  last_avail_idx :: u16

datatype vhost_event = Closed int | Unmapped u64 u64 | Called int | SlaveMsg u32 u32 bool

record 'x usfstl_vhost_user_dev_int =
  dev_features :: u64
  dev_protocol_features :: u64
  dev_entry :: entry_ptr
  irq_job :: job_ptr
  n_regions :: nat
  regions :: "vhost_user_region list"
  region_fds :: "int list"
  region_vaddr :: "u64 list"
  req_fd :: int
  virtqs :: "virtq_state list"
  gmem :: guest_mem
  vloop :: usfstl_loop
  vsched :: "'x usfstl_scheduler"
  events :: "vhost_event list"

record usfstl_vhost_user_buf =
  in_sg :: "iovec list"
  out_sg :: "iovec list"
  written :: u64
  buf_virtq_idx :: nat
  buf_idx :: u16
  allocated :: bool

text \<open>
  The server's settings, and the code behind its pointers and outside of this
  file: the device's handler, synchronising with the time controller, whether a
  message is completely written to a descriptor, \<^verbatim>\<open>select\<close> and the handlers of
  the other entries of the main loop, the loop entry on the stack of
  \<^verbatim>\<open>usfstl_vhost_user_send_msg\<close>, and the outcome of the two \<^verbatim>\<open>recvmsg\<close> calls that
  read its answer, with the size the answer's header gives.
\<close>

record 'x usfstl_vhost_user_server =
  max_queues :: nat
  input_queues :: u64
  deferred_handling :: bool
  interrupt_latency :: u32
  has_scheduler :: bool
  has_ctrl :: bool
  srv_features :: u64
  srv_protocol_features :: u64
  config :: "u8 list option"
  ops_handle :: "'x usfstl_vhost_user_dev_int \<Rightarrow> usfstl_vhost_user_buf \<Rightarrow> nat \<Rightarrow>
    (usfstl_vhost_user_buf \<times> 'x usfstl_vhost_user_dev_int) res"
  ctrl_sync_to :: "'x usfstl_scheduler \<Rightarrow> 'x usfstl_scheduler res"
  ctrl_sync_from :: "'x usfstl_scheduler \<Rightarrow> 'x usfstl_scheduler res"
  write_ok :: "int \<Rightarrow> bool"
  srv_select :: "u32 \<Rightarrow> int list \<Rightarrow> 'x usfstl_vhost_user_dev_int \<Rightarrow> int \<times> int list \<times> 'x usfstl_vhost_user_dev_int"
  srv_pre_handler :: "nat \<Rightarrow> nat \<Rightarrow> usfstl_loop \<times> 'x usfstl_vhost_user_dev_int \<Rightarrow>
    (usfstl_loop \<times> 'x usfstl_vhost_user_dev_int) res"
  srv_handler :: "entry_ptr \<Rightarrow> usfstl_loop \<times> 'x usfstl_vhost_user_dev_int \<Rightarrow>
    (usfstl_loop \<times> 'x usfstl_vhost_user_dev_int) res"
  reply_entry :: entry_ptr
  recv_answer :: "'x usfstl_vhost_user_dev_int \<Rightarrow> (int \<times> int) \<times> u32"
  disconnected :: "'x usfstl_vhost_user_dev_int \<Rightarrow> 'x usfstl_vhost_user_dev_int"
  mmap :: "u64 \<Rightarrow> int \<Rightarrow> u64 \<Rightarrow> u64"

definition MAX_REGIONS :: nat where "MAX_REGIONS = 2"
definition SG_STACK_PREALLOC :: nat where "SG_STACK_PREALLOC = 5"

definition VHOST_USER_PROTOCOL_F_REPLY_ACK :: nat where "VHOST_USER_PROTOCOL_F_REPLY_ACK = 3"
definition VHOST_USER_PROTOCOL_F_SLAVE_REQ :: nat where "VHOST_USER_PROTOCOL_F_SLAVE_REQ = 5"
definition VHOST_USER_PROTOCOL_F_CONFIG :: nat where "VHOST_USER_PROTOCOL_F_CONFIG = 9"
definition VHOST_USER_PROTOCOL_F_SLAVE_SEND_FD :: nat where "VHOST_USER_PROTOCOL_F_SLAVE_SEND_FD = 10"
definition VHOST_USER_PROTOCOL_F_INBAND_NOTIFICATIONS :: nat where "VHOST_USER_PROTOCOL_F_INBAND_NOTIFICATIONS = 14"

definition virtq_at :: "'x usfstl_vhost_user_dev_int \<Rightarrow> nat \<Rightarrow> virtq_state res" where
  "virtq_at dev i = (if i < length (virtqs dev) then Inr (virtqs dev ! i) else Inl OutOfBounds)"

definition with_virtq :: "nat \<Rightarrow> (virtq_state \<Rightarrow> virtq_state) \<Rightarrow> 'x usfstl_vhost_user_dev_int \<Rightarrow>
    'x usfstl_vhost_user_dev_int" where
  "with_virtq i f dev = dev\<lparr>virtqs := (virtqs dev)[i := f (virtqs dev ! i)]\<rparr>"

definition log_event :: "vhost_event \<Rightarrow> 'x usfstl_vhost_user_dev_int \<Rightarrow> 'x usfstl_vhost_user_dev_int" where
  "log_event e dev = dev\<lparr>events := events dev @ [e]\<rparr>"

text \<open>\<^verbatim>\<open>usfstl_vhost_user_to_va\<close>: the loop over the regions, the sum wraps.\<close>

fun to_va_loop :: "nat \<Rightarrow> vhost_user_region list \<Rightarrow> u64 list \<Rightarrow> u64 \<Rightarrow> u64 res" where
  "to_va_loop (Suc n) (r # rs) (v # vs) addr =
     (if addr \<ge> user_addr r \<and> addr < user_addr r + region_size r
      then Inr (v + (addr - user_addr r))
      else to_va_loop n rs vs addr)"
| "to_va_loop _ _ _ addr = Inl (Assertion ''cannot translate address'')"

definition usfstl_vhost_user_to_va :: "'x usfstl_vhost_user_dev_int \<Rightarrow> u64 \<Rightarrow> u64 res" where
  "usfstl_vhost_user_to_va dev addr = to_va_loop (n_regions dev) (regions dev) (region_vaddr dev) addr"

definition usfstl_vhost_user_virtq_empty :: "'x usfstl_vhost_user_dev_int \<Rightarrow> nat \<Rightarrow> bool res" where
  "usfstl_vhost_user_virtq_empty dev i =
     bind_res (virtq_at dev i) (\<lambda>q. Inr (m_avail_idx (gmem dev) (vq_avail q) = last_avail_idx q))"

text \<open>
  The two passes over a chain of descriptors are one recursion: the first pass
  counts what the second collects. A descriptor outside the table is not there
  to be read; a chain may be cyclic, so the walk has fuel.
\<close>

fun desc_chain :: "nat \<Rightarrow> guest_mem \<Rightarrow> virtq_state \<Rightarrow> u16 \<Rightarrow> vring_desc list res" where
  "desc_chain 0 m q i = Inl OutOfFuel"
| "desc_chain (Suc n) m q i =
     (if unat i < unat (vq_num q) then
        let d = m_desc m (vq_desc q) i in
        if d_flags d AND VRING_DESC_F_NEXT \<noteq> 0
        then bind_res (desc_chain n m q (d_next d)) (\<lambda>ds. Inr (d # ds))
        else Inr [d]
      else Inl OutOfBounds)"

definition desc_writable :: "vring_desc \<Rightarrow> bool" where
  "desc_writable d \<longleftrightarrow> d_flags d AND VRING_DESC_F_WRITE \<noteq> 0"

fun translate_descs :: "'x usfstl_vhost_user_dev_int \<Rightarrow> vring_desc list \<Rightarrow> iovec list \<Rightarrow> iovec list \<Rightarrow>
    (iovec list \<times> iovec list) res" where
  "translate_descs dev [] ins outs = Inr (ins, outs)"
| "translate_descs dev (d # ds) ins outs =
     bind_res (usfstl_vhost_user_to_va dev (d_addr d)) (\<lambda>va.
     let v = \<lparr>iov_base = va, iov_len_of = ucast (d_len d)\<rparr> in
     if desc_writable d then translate_descs dev ds (ins @ [v]) outs
     else translate_descs dev ds ins (outs @ [v]))"

text \<open>
  \<open>fixed\<close> is the buffer to reuse, with the room it has left for input and output
  segments. Its \<^verbatim>\<open>written\<close> is kept; a newly allocated buffer starts with zero.
\<close>

record fixed_buf =
  fixed_in :: nat
  fixed_out :: nat
  fixed_written :: u64

definition usfstl_vhost_user_get_virtq_buf :: "nat \<Rightarrow> 'x usfstl_vhost_user_dev_int \<Rightarrow> nat \<Rightarrow> fixed_buf option \<Rightarrow>
    (usfstl_vhost_user_buf option \<times> 'x usfstl_vhost_user_dev_int) res" where
  "usfstl_vhost_user_get_virtq_buf fuel dev i fixed =
     bind_res (virtq_at dev i) (\<lambda>q.
     let avail_idx = m_avail_idx (gmem dev) (vq_avail q) in
     if avail_idx = last_avail_idx q then Inr (None, dev)
     else
       let idx = last_avail_idx q;
           dev = with_virtq i (\<lambda>q. q\<lparr>last_avail_idx := last_avail_idx q + 1\<rparr>) dev
       in
       if vq_num q = 0 then Inl DivByZero
       else
         let idx = ucast idx mod vq_num q;
             desc_idx = m_avail_ring (gmem dev) (vq_avail q) idx
         in usfstl_assert (unat desc_idx < unat (vq_num q)) ''desc_idx < virtq->num'' (
            bind_res (desc_chain fuel (gmem dev) q desc_idx) (\<lambda>ds.
            bind_res (translate_descs dev ds [] []) (\<lambda>(ins, outs).
            let reuse = (case fixed of None \<Rightarrow> False
                  | Some f \<Rightarrow> \<not> (length ins > fixed_in f \<or> length outs > fixed_out f))
            in Inr (Some \<lparr>in_sg = ins, out_sg = outs,
                 written = (case fixed of Some f \<Rightarrow> if reuse then fixed_written f else 0 | None \<Rightarrow> 0),
                 buf_virtq_idx = i, buf_idx = desc_idx, allocated = \<not> reuse\<rparr>, dev)))))"

definition usfstl_vhost_user_readable_handler :: "entry_ptr \<Rightarrow> usfstl_loop \<times> 'w \<Rightarrow> (usfstl_loop \<times> 'w) res" where
  "usfstl_vhost_user_readable_handler e Lw =
     bind_res (usfstl_loop_unregister (fst Lw) e) (\<lambda>L.
     Inr (L\<lparr>loop_entry := (loop_entry L)(e := (loop_entry L e)\<lparr>fd := -1\<rparr>)\<rparr>, snd Lw))"

text \<open>
  Reading a message into vectors of the given lengths: \<open>recv\<close> has the results of
  the \<^verbatim>\<open>recvmsg\<close> for the header and of the one for the rest (negative: the error
  number), \<open>hdr_size\<close> is the size in the header that was read.
\<close>

definition ENOTCONN :: int where "ENOTCONN = 107"

definition usfstl_vhost_user_read_msg :: "nat list \<Rightarrow> int \<times> int \<Rightarrow> u32 \<Rightarrow> int res" where
  "usfstl_vhost_user_read_msg lens recv hdr_size =
     usfstl_assert (length lens \<ge> 1) ''msghdr->msg_iovlen >= 1'' (
     usfstl_assert (lens ! 0 \<ge> 12) ''msghdr->msg_iov[0].iov_len >= sizeof(*hdr)'' (
     if fst recv < 0 then Inr (fst recv)
     else if fst recv = 0 then Inr (- ENOTCONN)
     else
       let maxlen = sum_list lens - 12
       in usfstl_assert (fst recv = 12) ''len == sizeof(*hdr)'' (
          usfstl_assert (unat hdr_size \<le> maxlen) ''hdr->size <= maxlen'' (
          if hdr_size = 0 then Inr 0
          else if snd recv < 0 then Inr (snd recv)
          else if snd recv = 0 then Inr (- ENOTCONN)
          else usfstl_assert (hdr_size = word_of_int (snd recv)) ''hdr->size == (uint32_t)len'' (Inr 0)))))"

text \<open>One pass of the main loop while the answer is awaited, and the wait itself.\<close>

definition reply_pass :: "'x usfstl_vhost_user_server \<Rightarrow> 'x usfstl_vhost_user_dev_int \<Rightarrow>
    'x usfstl_vhost_user_dev_int res" where
  "reply_pass srv dev =
     bind_res (usfstl_loop_wait_and_handle (srv_select srv) (srv_pre_handler srv)
                 (\<lambda>e. if e = reply_entry srv then usfstl_vhost_user_readable_handler e else srv_handler srv e)
                 (vloop dev) dev) (\<lambda>(L, dev). Inr (dev\<lparr>vloop := L\<rparr>))"

fun reply_wait_loop :: "nat \<Rightarrow> 'x usfstl_vhost_user_server \<Rightarrow> 'x usfstl_vhost_user_dev_int \<Rightarrow>
    'x usfstl_vhost_user_dev_int res" where
  "reply_wait_loop 0 srv dev = (if fd (loop_entry (vloop dev) (reply_entry srv)) = -1 then Inr dev else Inl OutOfFuel)"
| "reply_wait_loop (Suc n) srv dev =
     (if fd (loop_entry (vloop dev) (reply_entry srv)) = -1 then Inr dev
      else bind_res (reply_pass srv dev) (reply_wait_loop n srv))"

definition READABLE_HANDLER :: nat where "READABLE_HANDLER = 2"

definition usfstl_vhost_user_send_msg :: "nat \<Rightarrow> 'x usfstl_vhost_user_server \<Rightarrow> 'x usfstl_vhost_user_dev_int \<Rightarrow>
    u32 \<Rightarrow> u32 \<Rightarrow> 'x usfstl_vhost_user_dev_int res" where
  "usfstl_vhost_user_send_msg fuel srv dev request idx =
     (let ack = bit (dev_protocol_features dev) VHOST_USER_PROTOCOL_F_REPLY_ACK in
      usfstl_assert (write_ok srv (req_fd dev)) ''written == msgsz'' (
      let dev = log_event (SlaveMsg request idx ack) dev in
      if ack then
        let e = reply_entry srv;
            L = vloop dev;
            L = L\<lparr>loop_entry := (loop_entry L)(e := \<lparr>handler = READABLE_HANDLER, fd = req_fd dev,
                  loop_priority = 0x7fffffff, loop_data = 0\<rparr>)\<rparr>
        in bind_res (reply_wait_loop fuel srv (dev\<lparr>vloop := usfstl_loop_register L e\<rparr>)) (\<lambda>dev.
           let (recv, hdr_size) = recv_answer srv dev in
           bind_res (usfstl_vhost_user_read_msg [84] recv hdr_size) (\<lambda>r.
           usfstl_assert (r = 0) ''usfstl_vhost_user_read_msg(dev->req_fd, &msghdr) == 0'' (Inr dev)))
      else Inr dev))"

definition VHOST_USER_SLAVE_CONFIG_CHANGE_MSG :: u32 where "VHOST_USER_SLAVE_CONFIG_CHANGE_MSG = 2"
definition VHOST_USER_SLAVE_VRING_CALL :: u32 where "VHOST_USER_SLAVE_VRING_CALL = 4"

definition usfstl_vhost_user_send_virtq_buf :: "nat \<Rightarrow> 'x usfstl_vhost_user_server \<Rightarrow> 'x usfstl_vhost_user_dev_int \<Rightarrow>
    usfstl_vhost_user_buf \<Rightarrow> nat \<Rightarrow> 'x usfstl_vhost_user_dev_int res" where
  "usfstl_vhost_user_send_virtq_buf fuel srv dev buf i =
     bind_res (virtq_at dev i) (\<lambda>q.
     bind_res (if has_ctrl srv then bind_res (ctrl_sync_to srv (vsched dev)) (\<lambda>s. Inr (dev\<lparr>vsched := s\<rparr>)) else Inr dev) (\<lambda>dev.
     if vq_num q = 0 then Inl DivByZero
     else
       let u = vq_used q;
           idx = (ucast (m_used_idx (gmem dev) u) :: u32);
           widx = idx + 1;
           idx = idx mod vq_num q;
           m = gmem dev;
           m = m\<lparr>m_used_ring := (m_used_ring m)(u := (m_used_ring m u)(idx := (ucast (buf_idx buf), ucast (written buf))))\<rparr>;
           m = m\<lparr>m_used_idx := (m_used_idx m)(u := ucast widx)\<rparr>;
           dev = dev\<lparr>gmem := m\<rparr>
       in if call_fd q < 0
             \<and> bit (dev_protocol_features dev) VHOST_USER_PROTOCOL_F_INBAND_NOTIFICATIONS
             \<and> bit (dev_protocol_features dev) VHOST_USER_PROTOCOL_F_SLAVE_REQ
          then usfstl_vhost_user_send_msg fuel srv dev VHOST_USER_SLAVE_VRING_CALL (of_nat i)
          else usfstl_assert (write_ok srv (call_fd q)) ''written == sizeof(e)'' (
               Inr (log_event (Called (call_fd q)) dev))))"

definition usfstl_vhost_user_send_response :: "nat \<Rightarrow> 'x usfstl_vhost_user_server \<Rightarrow> 'x usfstl_vhost_user_dev_int \<Rightarrow>
    usfstl_vhost_user_buf \<Rightarrow> 'x usfstl_vhost_user_dev_int res" where
  "usfstl_vhost_user_send_response fuel srv dev buf = usfstl_vhost_user_send_virtq_buf fuel srv dev buf (buf_virtq_idx buf)"

text \<open>
  The buffer on the stack is reused in every round, with the segment counts and
  \<^verbatim>\<open>written\<close> that the last use left in it.
\<close>

fun handle_queue_loop :: "nat \<Rightarrow> 'x usfstl_vhost_user_server \<Rightarrow> fixed_buf \<Rightarrow> 'x usfstl_vhost_user_dev_int \<Rightarrow> nat \<Rightarrow>
    'x usfstl_vhost_user_dev_int res" where
  "handle_queue_loop 0 srv fb dev i = Inl OutOfFuel"
| "handle_queue_loop (Suc n) srv fb dev i =
     bind_res (usfstl_vhost_user_get_virtq_buf (Suc n) dev i (Some fb)) (\<lambda>(buf, dev).
     case buf of
       None \<Rightarrow> Inr dev
     | Some buf \<Rightarrow>
         bind_res (ops_handle srv dev buf i) (\<lambda>(buf, dev).
         bind_res (usfstl_vhost_user_send_response (Suc n) srv dev buf) (\<lambda>dev.
         handle_queue_loop n srv
           (if allocated buf then fb
            else \<lparr>fixed_in = length (in_sg buf), fixed_out = length (out_sg buf), fixed_written = written buf\<rparr>)
           dev i)))"

definition usfstl_vhost_user_handle_queue :: "nat \<Rightarrow> 'x usfstl_vhost_user_server \<Rightarrow> 'x usfstl_vhost_user_dev_int \<Rightarrow> nat \<Rightarrow>
    'x usfstl_vhost_user_dev_int res" where
  "usfstl_vhost_user_handle_queue fuel srv dev i =
     handle_queue_loop fuel srv
       \<lparr>fixed_in = SG_STACK_PREALLOC, fixed_out = SG_STACK_PREALLOC, fixed_written = 0\<rparr> dev i"

text \<open>\<^verbatim>\<open>for (virtq = 0; virtq < max_queues; virtq++)\<close>\<close>

fun job_callback_loop :: "nat \<Rightarrow> 'x usfstl_vhost_user_server \<Rightarrow> nat list \<Rightarrow> 'x usfstl_vhost_user_dev_int \<Rightarrow>
    'x usfstl_vhost_user_dev_int res" where
  "job_callback_loop fuel srv [] dev = Inr dev"
| "job_callback_loop fuel srv (i # is) dev =
     bind_res (virtq_at dev i) (\<lambda>q.
     if \<not> triggered q then job_callback_loop fuel srv is dev
     else bind_res (usfstl_vhost_user_handle_queue fuel srv (with_virtq i (\<lambda>q. q\<lparr>triggered := False\<rparr>) dev) i)
            (job_callback_loop fuel srv is))"

definition usfstl_vhost_user_job_callback :: "nat \<Rightarrow> 'x usfstl_vhost_user_server \<Rightarrow> 'x usfstl_vhost_user_dev_int \<Rightarrow>
    'x usfstl_vhost_user_dev_int res" where
  "usfstl_vhost_user_job_callback fuel srv dev = job_callback_loop fuel srv [0..<max_queues srv] dev"

definition usfstl_vhost_user_handle_queue_oob :: "nat \<Rightarrow> 'x usfstl_vhost_user_server \<Rightarrow> 'x usfstl_vhost_user_dev_int \<Rightarrow>
    nat \<Rightarrow> (bool \<times> 'x usfstl_vhost_user_dev_int) res" where
  "usfstl_vhost_user_handle_queue_oob fuel srv dev i =
     bind_res (usfstl_vhost_user_get_virtq_buf fuel dev i None) (\<lambda>(buf, dev).
     bind_res (case buf of None \<Rightarrow> Inr dev
               | Some buf \<Rightarrow> bind_res (ops_handle srv dev buf i) (\<lambda>(_, dev). Inr dev)) (\<lambda>dev.
     bind_res (usfstl_vhost_user_virtq_empty dev i) (\<lambda>empty. Inr (empty, dev))))"

text \<open>The result says whether the job has to be added again (label \<^verbatim>\<open>again\<close>).\<close>

fun job_callback_oob_loop :: "nat \<Rightarrow> 'x usfstl_vhost_user_server \<Rightarrow> bool \<Rightarrow> nat list \<Rightarrow>
    'x usfstl_vhost_user_dev_int \<Rightarrow> (bool \<times> 'x usfstl_vhost_user_dev_int) res" where
  "job_callback_oob_loop fuel srv handled_one [] dev = Inr (False, dev)"
| "job_callback_oob_loop fuel srv handled_one (i # is) dev =
     bind_res (virtq_at dev i) (\<lambda>q.
     if \<not> triggered q then job_callback_oob_loop fuel srv handled_one is dev
     else if handled_one then Inr (True, dev)
     else bind_res (usfstl_vhost_user_handle_queue_oob fuel srv dev i) (\<lambda>(empty, dev).
          if \<not> empty then Inr (True, dev)
          else job_callback_oob_loop fuel srv True is (with_virtq i (\<lambda>q. q\<lparr>triggered := False\<rparr>) dev)))"

definition usfstl_vhost_user_job_callback_oob :: "nat \<Rightarrow> 'x sched_hooks \<Rightarrow> 'x usfstl_vhost_user_server \<Rightarrow>
    'x usfstl_vhost_user_dev_int \<Rightarrow> 'x usfstl_vhost_user_dev_int res" where
  "usfstl_vhost_user_job_callback_oob fuel H srv dev =
     bind_res (job_callback_oob_loop fuel srv False [0..<max_queues srv] dev) (\<lambda>(again, dev).
     if again then bind_res (usfstl_sched_add_job H (vsched dev) (irq_job dev)) (\<lambda>s. Inr (dev\<lparr>vsched := s\<rparr>))
     else Inr dev)"

definition usfstl_vhost_user_virtq_kick :: "nat \<Rightarrow> 'x sched_hooks \<Rightarrow> 'x usfstl_vhost_user_server \<Rightarrow>
    'x usfstl_vhost_user_dev_int \<Rightarrow> nat \<Rightarrow> 'x usfstl_vhost_user_dev_int res" where
  "usfstl_vhost_user_virtq_kick fuel H srv dev i =
     (if \<not> bit (input_queues srv) i then Inr dev
      else bind_res (virtq_at dev i) (\<lambda>_.
           let dev = with_virtq i (\<lambda>q. q\<lparr>triggered := True\<rparr>) dev in
           if usfstl_job_scheduled (vsched dev) (irq_job dev) then Inr dev
           else if \<not> has_scheduler srv then usfstl_vhost_user_job_callback fuel srv dev
           else bind_res (if has_ctrl srv then ctrl_sync_from srv (vsched dev) else Inr (vsched dev)) (\<lambda>s.
                let (now, s) = usfstl_sched_current_time H s;
                    s = with_job (irq_job dev) (\<lambda>b. b\<lparr>start := now + ucast (interrupt_latency srv)\<rparr>) s
                in bind_res (usfstl_sched_add_job H s (irq_job dev)) (\<lambda>s. Inr (dev\<lparr>vsched := s\<rparr>)))))"

definition usfstl_vhost_user_virtq_fdkick :: "nat \<Rightarrow> 'x sched_hooks \<Rightarrow> 'x usfstl_vhost_user_server \<Rightarrow>
    (int \<Rightarrow> int) \<Rightarrow> 'x usfstl_vhost_user_dev_int \<Rightarrow> entry_ptr \<Rightarrow> 'x usfstl_vhost_user_dev_int res" where
  "usfstl_vhost_user_virtq_fdkick fuel H srv read8 dev entry =
     (case find (\<lambda>i. vq_entry (virtqs dev ! i) = entry) [0..<max_queues srv] of
        None \<Rightarrow> Inl (Assertion ''virtq < max_queues'')
      | Some i \<Rightarrow>
          usfstl_assert (read8 (fd (loop_entry (vloop dev) entry)) = 8) ''read == sizeof(v)'' (
          usfstl_vhost_user_virtq_kick fuel H srv dev i))"

section \<open>The control socket\<close>

definition clear_mapping :: "nat \<Rightarrow> 'x usfstl_vhost_user_dev_int \<Rightarrow> 'x usfstl_vhost_user_dev_int" where
  "clear_mapping i dev =
     (let dev = (if region_vaddr dev ! i \<noteq> 0
                 then (log_event (Unmapped (region_vaddr dev ! i) (region_size (regions dev ! i))) dev)
                        \<lparr>region_vaddr := (region_vaddr dev)[i := 0]\<rparr>
                 else dev)
      in if region_fds dev ! i \<noteq> -1
         then (log_event (Closed (region_fds dev ! i)) dev)\<lparr>region_fds := (region_fds dev)[i := -1]\<rparr>
         else dev)"

definition usfstl_vhost_user_clear_mappings :: "'x usfstl_vhost_user_dev_int \<Rightarrow> 'x usfstl_vhost_user_dev_int" where
  "usfstl_vhost_user_clear_mappings dev = fold clear_mapping [0..<MAX_REGIONS] dev"

fun setup_mappings_loop :: "'x usfstl_vhost_user_server \<Rightarrow> nat list \<Rightarrow> 'x usfstl_vhost_user_dev_int \<Rightarrow>
    'x usfstl_vhost_user_dev_int res" where
  "setup_mappings_loop srv [] dev = Inr dev"
| "setup_mappings_loop srv (i # is) dev =
     usfstl_assert (region_vaddr dev ! i = 0) ''!dev->region_vaddr[idx]'' (
     let va = mmap srv (region_size (regions dev ! i)) (region_fds dev ! i) (mmap_offset (regions dev ! i))
     in usfstl_assert (va \<noteq> -1) ''dev->region_vaddr[idx] != (void *)-1'' (
        setup_mappings_loop srv is (dev\<lparr>region_vaddr := (region_vaddr dev)[i := va]\<rparr>)))"

definition usfstl_vhost_user_setup_mappings :: "'x usfstl_vhost_user_server \<Rightarrow> 'x usfstl_vhost_user_dev_int \<Rightarrow>
    'x usfstl_vhost_user_dev_int res" where
  "usfstl_vhost_user_setup_mappings srv dev = setup_mappings_loop srv [0..<n_regions dev] dev"

definition entry_fd :: "'x usfstl_vhost_user_dev_int \<Rightarrow> entry_ptr \<Rightarrow> int" where
  "entry_fd dev e = fd (loop_entry (vloop dev) e)"

definition set_entry_fd :: "entry_ptr \<Rightarrow> int \<Rightarrow> 'x usfstl_vhost_user_dev_int \<Rightarrow> 'x usfstl_vhost_user_dev_int" where
  "set_entry_fd e n dev = dev\<lparr>vloop := (vloop dev)\<lparr>loop_entry :=
     (loop_entry (vloop dev))(e := (loop_entry (vloop dev) e)\<lparr>fd := n\<rparr>)\<rparr>\<rparr>"

definition usfstl_vhost_user_update_virtq_kick :: "'x usfstl_vhost_user_dev_int \<Rightarrow> nat \<Rightarrow> int \<Rightarrow>
    'x usfstl_vhost_user_dev_int res" where
  "usfstl_vhost_user_update_virtq_kick dev i newfd =
     bind_res (virtq_at dev i) (\<lambda>q.
     bind_res (if entry_fd dev (vq_entry q) \<noteq> -1
               then bind_res (usfstl_loop_unregister (vloop dev) (vq_entry q)) (\<lambda>L.
                    Inr (log_event (Closed (entry_fd dev (vq_entry q))) (dev\<lparr>vloop := L\<rparr>)))
               else Inr dev) (\<lambda>dev.
     if newfd \<noteq> -1 then
       let dev = set_entry_fd (vq_entry q) newfd dev
       in Inr (dev\<lparr>vloop := usfstl_loop_register (vloop dev) (vq_entry q)\<rparr>)
     else Inr dev))"

fun free_virtqs_loop :: "nat list \<Rightarrow> 'x usfstl_vhost_user_dev_int \<Rightarrow> 'x usfstl_vhost_user_dev_int res" where
  "free_virtqs_loop [] dev = Inr dev"
| "free_virtqs_loop (i # is) dev =
     bind_res (usfstl_vhost_user_update_virtq_kick dev i (-1)) (\<lambda>dev.
     bind_res (virtq_at dev i) (\<lambda>q.
     free_virtqs_loop is (if call_fd q \<noteq> -1 then log_event (Closed (call_fd q)) dev else dev)))"

text \<open>The device is gone afterwards; what is returned is the rest of the program's state.\<close>

definition usfstl_vhost_user_dev_free :: "'x usfstl_vhost_user_server \<Rightarrow> 'x usfstl_vhost_user_dev_int \<Rightarrow>
    'x usfstl_vhost_user_dev_int res" where
  "usfstl_vhost_user_dev_free srv dev =
     bind_res (usfstl_loop_unregister (vloop dev) (dev_entry dev)) (\<lambda>L.
     let dev = dev\<lparr>vloop := L, vsched := usfstl_sched_del_job (vsched dev) (irq_job dev)\<rparr> in
     bind_res (free_virtqs_loop [0..<max_queues srv] dev) (\<lambda>dev.
     let dev = usfstl_vhost_user_clear_mappings dev;
         dev = (if req_fd dev \<noteq> -1 then log_event (Closed (req_fd dev)) dev else dev)
     in bind_res (if has_ctrl srv then bind_res (ctrl_sync_from srv (vsched dev)) (\<lambda>s. Inr (dev\<lparr>vsched := s\<rparr>))
                  else Inr dev) (\<lambda>dev.
        let dev = disconnected srv dev
        in Inr (if entry_fd dev (dev_entry dev) \<noteq> -1
                then log_event (Closed (entry_fd dev (dev_entry dev))) dev else dev))))"

text \<open>
  A message as it was read: the header, the payload through each of the union's
  views that is used, what follows its first eight bytes, and the descriptors that
  came with it.
\<close>

record vhost_user_msg =
  request :: u32
  msg_flags :: u32
  msg_size :: u32
  p_u64 :: u64
  p_idx :: u32
  p_num :: u32
  p_descriptor :: u64
  p_used :: u64
  p_avail :: u64
  p_n_regions :: u32
  p_regions :: "vhost_user_region list"
  p_cfg_offset :: u32
  p_cfg_size :: u32
  p_rest :: "u8 list"
  p_fds :: "int list"

text \<open>The first element of a reply is the payload, the second the config space sent after it.\<close>

datatype vhost_reply = NoReply | ReplyU64 u64 | ReplyConfig nat

text \<open>\<open>None\<close> when no descriptors came with the message: the destination is left as it is.\<close>

definition usfstl_vhost_user_get_msg_fds :: "vhost_user_msg \<Rightarrow> nat \<Rightarrow> int list \<Rightarrow> int list res" where
  "usfstl_vhost_user_get_msg_fds msg max_fds outfds =
     (if p_fds msg = [] then Inr outfds
      else usfstl_assert (length (p_fds msg) \<le> max_fds) ''fds <= max_fds'' (
           Inr (p_fds msg @ drop (length (p_fds msg)) outfds)))"

definition set_regions :: "vhost_user_region list \<Rightarrow> vhost_user_region list \<Rightarrow> vhost_user_region list" where
  "set_regions new old = new @ drop (length new) old"

definition VHOST_USER_MSG_FLAGS_VERSION :: u32 where "VHOST_USER_MSG_FLAGS_VERSION = 0x3"
definition VHOST_USER_VERSION :: u32 where "VHOST_USER_VERSION = 1"
definition VHOST_USER_MSG_FLAGS_REPLY :: u32 where "VHOST_USER_MSG_FLAGS_REPLY = 0x4"
definition VHOST_USER_MSG_FLAGS_NEED_REPLY :: u32 where "VHOST_USER_MSG_FLAGS_NEED_REPLY = 0x8"
definition VHOST_USER_U64_VRING_IDX_MSK :: u64 where "VHOST_USER_U64_VRING_IDX_MSK = 0x7f"
definition VHOST_USER_U64_NO_FD :: u64 where "VHOST_USER_U64_NO_FD = 0x80"
definition VHOST_USER_F_PROTOCOL_FEATURES :: nat where "VHOST_USER_F_PROTOCOL_FEATURES = 30"

text \<open>The cases of the switch that change the device.\<close>

definition handle_set_mem_table :: "'x usfstl_vhost_user_server \<Rightarrow> 'x usfstl_vhost_user_dev_int \<Rightarrow> vhost_user_msg \<Rightarrow>
    'x usfstl_vhost_user_dev_int res" where
  "handle_set_mem_table srv dev msg =
     (let len = unat (msg_size msg); n = unat (p_n_regions msg) in
      usfstl_assert (len > 0) ''len > 0'' (
      usfstl_assert (len \<ge> 8 + 32 * n) ''len >= size of the regions'' (
      usfstl_assert (n \<le> MAX_REGIONS) ''n_regions <= MAX_REGIONS'' (
      let dev = usfstl_vhost_user_clear_mappings dev;
          dev = dev\<lparr>regions := set_regions (take n (p_regions msg)) (regions dev), n_regions := n\<rparr>
      in bind_res (usfstl_vhost_user_get_msg_fds msg MAX_REGIONS (region_fds dev)) (\<lambda>fds.
         usfstl_vhost_user_setup_mappings srv (dev\<lparr>region_fds := fds\<rparr>))))))"

definition handle_set_vring_addr :: "'x usfstl_vhost_user_server \<Rightarrow> 'x usfstl_vhost_user_dev_int \<Rightarrow> vhost_user_msg \<Rightarrow>
    'x usfstl_vhost_user_dev_int res" where
  "handle_set_vring_addr srv dev msg =
     (let i = unat (p_idx msg) in
      usfstl_assert (msg_size msg = 40) ''len == sizeof(msg.payload.vring_addr)'' (
      usfstl_assert (i \<le> max_queues srv) ''vring_addr.idx <= max_queues'' (
      usfstl_assert (p_num msg = 0) ''vring_addr.flags == 0'' (
      bind_res (virtq_at dev i) (\<lambda>q.
      usfstl_assert (\<not> enabled q) ''!enabled'' (
      let dev = with_virtq i (\<lambda>q. q\<lparr>last_avail_idx := 0\<rparr>) dev in
      bind_res (usfstl_vhost_user_to_va dev (p_descriptor msg)) (\<lambda>desc.
      bind_res (usfstl_vhost_user_to_va dev (p_used msg)) (\<lambda>used.
      bind_res (usfstl_vhost_user_to_va dev (p_avail msg)) (\<lambda>avail.
      usfstl_assert (avail \<noteq> 0 \<and> desc \<noteq> 0 \<and> used \<noteq> 0) ''avail && desc && used'' (
      Inr (with_virtq i (\<lambda>q. q\<lparr>vq_desc := desc, vq_used := used, vq_avail := avail\<rparr>) dev)))))))))))"

definition handle_set_vring_kick :: "'x usfstl_vhost_user_server \<Rightarrow> int \<Rightarrow> 'x usfstl_vhost_user_dev_int \<Rightarrow> vhost_user_msg \<Rightarrow>
    'x usfstl_vhost_user_dev_int res" where
  "handle_set_vring_kick srv uninit dev msg =
     usfstl_assert (msg_size msg = 8) ''len == sizeof(msg.payload.u64)'' (
     let i = unat (p_u64 msg AND VHOST_USER_U64_VRING_IDX_MSK) in
     usfstl_assert (i \<le> max_queues srv) ''virtq <= max_queues'' (
     bind_res (if p_u64 msg AND VHOST_USER_U64_NO_FD \<noteq> 0 then Inr [-1]
               else usfstl_vhost_user_get_msg_fds msg 1 [uninit]) (\<lambda>fds.
     usfstl_vhost_user_update_virtq_kick dev i (hd fds))))"

definition handle_set_vring_call :: "'x usfstl_vhost_user_server \<Rightarrow> 'x usfstl_vhost_user_dev_int \<Rightarrow> vhost_user_msg \<Rightarrow>
    'x usfstl_vhost_user_dev_int res" where
  "handle_set_vring_call srv dev msg =
     usfstl_assert (msg_size msg = 8) ''len == sizeof(msg.payload.u64)'' (
     let i = unat (p_u64 msg AND VHOST_USER_U64_VRING_IDX_MSK) in
     usfstl_assert (i \<le> max_queues srv) ''virtq <= max_queues'' (
     bind_res (virtq_at dev i) (\<lambda>q.
     let dev = (if call_fd q \<noteq> -1 then log_event (Closed (call_fd q)) dev else dev) in
     bind_res (if p_u64 msg AND VHOST_USER_U64_NO_FD \<noteq> 0 then Inr [-1]
               else usfstl_vhost_user_get_msg_fds msg 1 [call_fd q]) (\<lambda>fds.
     Inr (with_virtq i (\<lambda>q. q\<lparr>call_fd := hd fds\<rparr>) dev)))))"

definition handle_set_slave_req_fd :: "'x usfstl_vhost_user_dev_int \<Rightarrow> vhost_user_msg \<Rightarrow> 'x usfstl_vhost_user_dev_int res" where
  "handle_set_slave_req_fd dev msg =
     usfstl_assert (msg_size msg = 0) ''len == 0'' (
     let dev = (if req_fd dev \<noteq> -1 then log_event (Closed (req_fd dev)) dev else dev) in
     bind_res (usfstl_vhost_user_get_msg_fds msg 1 [req_fd dev]) (\<lambda>fds.
     usfstl_assert (hd fds \<noteq> -1) ''dev->req_fd != -1'' (
     Inr (dev\<lparr>req_fd := hd fds\<rparr>))))"

definition with_vring_state :: "'x usfstl_vhost_user_server \<Rightarrow> 'x usfstl_vhost_user_dev_int \<Rightarrow> vhost_user_msg \<Rightarrow>
    (virtq_state \<Rightarrow> virtq_state) \<Rightarrow> 'x usfstl_vhost_user_dev_int res" where
  "with_vring_state srv dev msg f =
     usfstl_assert (msg_size msg = 8) ''len == sizeof(msg.payload.vring_state)'' (
     usfstl_assert (unat (p_idx msg) < max_queues srv) ''vring_state.idx < max_queues'' (
     bind_res (virtq_at dev (unat (p_idx msg))) (\<lambda>_. Inr (with_virtq (unat (p_idx msg)) f dev))))"

text \<open>The switch of \<^verbatim>\<open>usfstl_vhost_user_handle_msg\<close>.\<close>

definition vhost_switch :: "nat \<Rightarrow> 'x sched_hooks \<Rightarrow> 'x usfstl_vhost_user_server \<Rightarrow> int \<Rightarrow>
    'x usfstl_vhost_user_dev_int \<Rightarrow> vhost_user_msg \<Rightarrow> (vhost_reply \<times> 'x usfstl_vhost_user_dev_int) res" where
  "vhost_switch fuel H srv uninit dev msg =
     (let quiet = (\<lambda>r. bind_res r (\<lambda>dev. Inr (NoReply, dev))) in
      if request msg = 1 then
        usfstl_assert (msg_size msg = 0) ''len == 0'' (
        Inr (ReplyU64 (srv_features srv OR push_bit VHOST_USER_F_PROTOCOL_FEATURES 1), dev))
      else if request msg = 2 then
        quiet (usfstl_assert (msg_size msg = 8) ''len == sizeof(msg.payload.u64)'' (
               Inr (dev\<lparr>dev_features := p_u64 msg\<rparr>)))
      else if request msg = 3 then quiet (usfstl_assert (msg_size msg = 0) ''len == 0'' (Inr dev))
      else if request msg = 5 then quiet (handle_set_mem_table srv dev msg)
      else if request msg = 8 then quiet (with_vring_state srv dev msg (\<lambda>q. q\<lparr>vq_num := p_num msg\<rparr>))
      else if request msg = 9 then quiet (handle_set_vring_addr srv dev msg)
      else if request msg = 10 then Inr (NoReply, dev)
      else if request msg = 12 then quiet (handle_set_vring_kick srv uninit dev msg)
      else if request msg = 13 then quiet (handle_set_vring_call srv dev msg)
      else if request msg = 15 then
        usfstl_assert (msg_size msg = 0) ''len == 0'' (
        Inr (ReplyU64 (srv_protocol_features srv
               OR (if config srv \<noteq> None \<and> config srv \<noteq> Some [] then push_bit VHOST_USER_PROTOCOL_F_CONFIG 1 else 0)
               OR push_bit VHOST_USER_PROTOCOL_F_SLAVE_REQ 1
               OR push_bit VHOST_USER_PROTOCOL_F_SLAVE_SEND_FD 1
               OR push_bit VHOST_USER_PROTOCOL_F_REPLY_ACK 1), dev))
      else if request msg = 18 then quiet (with_vring_state srv dev msg (\<lambda>q. q\<lparr>enabled := p_num msg \<noteq> 0\<rparr>))
      else if request msg = 16 then
        quiet (usfstl_assert (msg_size msg = 8) ''len == sizeof(msg.payload.u64)'' (
               Inr (dev\<lparr>dev_protocol_features := p_u64 msg\<rparr>)))
      else if request msg = 21 then quiet (handle_set_slave_req_fd dev msg)
      else if request msg = 24 then
        usfstl_assert (unat (msg_size msg) = 12 + unat (p_cfg_size msg)) ''len == sizeof(cfg_space) + size'' (
        usfstl_assert (config srv \<noteq> None \<and> config srv \<noteq> Some []) ''config && config_len'' (
        usfstl_assert (p_cfg_offset msg = 0) ''cfg_space.offset == 0'' (
        usfstl_assert (unat (p_cfg_size msg) \<le> length (the (config srv))) ''cfg_space.size <= config_len'' (
        Inr (ReplyConfig (unat (p_cfg_size msg)), dev)))))
      else if request msg = 35 then
        quiet (usfstl_assert (msg_size msg = 8) ''len == sizeof(msg.payload.vring_state)'' (
               usfstl_assert (unat (p_idx msg) < max_queues srv) ''vring_state.idx < max_queues'' (
               usfstl_assert (p_num msg = 0) ''vring_state.num == 0'' (
               usfstl_vhost_user_virtq_kick fuel H srv dev (unat (p_idx msg))))))
      else Inl (Assertion ''Unsupported message''))"

text \<open>
  Sending the reply: the vector is cut to the length of the reply, and after every
  \<^verbatim>\<open>sendmsg\<close> the bytes that were taken are removed from its front. \<open>sendmsg k bs\<close> is the
  result of the \<open>k\<close>-th call with the bytes \<open>bs\<close>. The result is what was sent, and
  whether an error ended the loop (the device is freed then).
\<close>

fun trim_iov :: "nat \<Rightarrow> u8 list list \<Rightarrow> u8 list list" where
  "trim_iov tmp [] = []"
| "trim_iov tmp (v # vs) =
     (if tmp = 0 then [] else if tmp \<le> length v then [take tmp v] else v # trim_iov (tmp - length v) vs)"

fun advance_iov :: "nat \<Rightarrow> u8 list list \<Rightarrow> u8 list list" where
  "advance_iov len [] = []"
| "advance_iov len (v # vs) =
     (if len = 0 then v # vs
      else let rm = (if length v \<le> len then length v else len) in drop rm v # advance_iov (len - rm) vs)"

fun send_reply_loop :: "nat \<Rightarrow> (nat \<Rightarrow> u8 list \<Rightarrow> int) \<Rightarrow> nat \<Rightarrow> u8 list list \<Rightarrow> nat \<Rightarrow> u8 list \<Rightarrow>
    (bool \<times> u8 list) res" where
  "send_reply_loop fuel sendmsg k iov 0 sent = Inr (False, sent)"
| "send_reply_loop 0 sendmsg k iov (Suc r) sent = Inl OutOfFuel"
| "send_reply_loop (Suc n) sendmsg k iov (Suc r) sent =
     (let len = sendmsg k (concat iov) in
      if len < 0 then Inr (True, sent)
      else usfstl_assert (len \<noteq> 0) ''len != 0'' (
           send_reply_loop n sendmsg (k + 1) (advance_iov (nat len) iov) (Suc r - nat len)
             (sent @ take (nat len) (concat iov))))"

definition send_reply :: "(nat \<Rightarrow> u8 list \<Rightarrow> int) \<Rightarrow> u8 list list \<Rightarrow> nat \<Rightarrow> (bool \<times> u8 list) res" where
  "send_reply sendmsg iov reply_len = send_reply_loop reply_len sendmsg 0 (trim_iov reply_len iov) reply_len []"

text \<open>
  The three vectors of the reply: the header with its new size and flags, the
  payload, and the data. The reply to \<^verbatim>\<open>VHOST_USER_GET_CONFIG\<close> sends the configuration
  space as the data; its vector still has the length of the buffer it replaced.
\<close>

definition reply_payload_len :: "vhost_reply \<Rightarrow> vhost_user_msg \<Rightarrow> nat" where
  "reply_payload_len reply msg = (case reply of NoReply \<Rightarrow> 8 | ReplyU64 v \<Rightarrow> 8 | ReplyConfig n \<Rightarrow> unat (msg_size msg))"

definition reply_header :: "vhost_user_msg \<Rightarrow> nat \<Rightarrow> u8 list" where
  "reply_header msg sz = le_bytes 4 (unat (request msg))
     @ le_bytes 4 (unat ((msg_flags msg AND NOT VHOST_USER_MSG_FLAGS_NEED_REPLY) OR VHOST_USER_MSG_FLAGS_REPLY))
     @ le_bytes 4 sz"

definition reply_iov :: "'x usfstl_vhost_user_server \<Rightarrow> vhost_reply \<Rightarrow> vhost_user_msg \<Rightarrow> u8 list \<Rightarrow> u8 list list" where
  "reply_iov srv reply msg data =
     reply_header msg (reply_payload_len reply msg) #
     (case reply of
        NoReply \<Rightarrow> [le_bytes 8 0 @ p_rest msg, data]
      | ReplyU64 v \<Rightarrow> [le_bytes 8 (unat v) @ p_rest msg, data]
      | ReplyConfig n \<Rightarrow> [le_bytes 4 (unat (p_cfg_offset msg)) @ le_bytes 4 (unat (p_cfg_size msg)) @ le_bytes 4 0,
          take 256 (the (config srv))])"

text \<open>
  The whole handler: \<open>recv\<close> has the results of reading \<open>msg\<close> and \<open>data\<close>. The result is
  what was sent; the device is gone when reading or sending failed.
\<close>

definition usfstl_vhost_user_handle_msg :: "nat \<Rightarrow> 'x sched_hooks \<Rightarrow> 'x usfstl_vhost_user_server \<Rightarrow> int \<Rightarrow>
    (nat \<Rightarrow> u8 list \<Rightarrow> int) \<Rightarrow> 'x usfstl_vhost_user_dev_int \<Rightarrow> int \<times> int \<Rightarrow> vhost_user_msg \<Rightarrow> u8 list \<Rightarrow>
    (u8 list \<times> 'x usfstl_vhost_user_dev_int) res" where
  "usfstl_vhost_user_handle_msg fuel H srv uninit sendmsg dev recv msg data =
     bind_res (usfstl_vhost_user_read_msg [12, 72, 256] recv (msg_size msg)) (\<lambda>r.
     if r \<noteq> 0 then bind_res (usfstl_vhost_user_dev_free srv dev) (\<lambda>dev. Inr ([], dev))
     else
       usfstl_assert (msg_flags msg AND VHOST_USER_MSG_FLAGS_VERSION = VHOST_USER_VERSION)
         ''flags & VHOST_USER_MSG_FLAGS_VERSION == VHOST_USER_VERSION'' (
       bind_res (vhost_switch fuel H srv uninit dev msg) (\<lambda>(reply, dev).
       if reply \<noteq> NoReply \<or> msg_flags msg AND VHOST_USER_MSG_FLAGS_NEED_REPLY \<noteq> 0 then
         bind_res (send_reply sendmsg (reply_iov srv reply msg data) (12 + reply_payload_len reply msg)) (\<lambda>(err, sent).
         if err then bind_res (usfstl_vhost_user_dev_free srv dev) (\<lambda>dev. Inr (sent, dev))
         else Inr (sent, dev))
       else Inr ([], dev))))"

section \<open>Connecting and notifying\<close>

definition usfstl_vhost_user_connected :: "'x usfstl_vhost_user_server \<Rightarrow> entry_ptr \<Rightarrow> (nat \<Rightarrow> entry_ptr) \<Rightarrow> job_ptr \<Rightarrow>
    guest_mem \<Rightarrow> usfstl_loop \<Rightarrow> 'x usfstl_scheduler \<Rightarrow> int \<Rightarrow>
    ('x usfstl_vhost_user_dev_int \<Rightarrow> 'x usfstl_vhost_user_dev_int) \<Rightarrow> 'x usfstl_vhost_user_dev_int" where
  "usfstl_vhost_user_connected srv entry vq_entries job mem L s newfd connected =
     (let L = L\<lparr>loop_entry := (\<lambda>e. if e \<in> vq_entries ` {..<max_queues srv}
                then \<lparr>handler = 0, fd = -1, loop_priority = 0, loop_data = 0\<rparr> else loop_entry L e)\<rparr>;
          dev = \<lparr>dev_features = 0, dev_protocol_features = 0, dev_entry = entry, irq_job = job, n_regions = 0,
            regions = replicate MAX_REGIONS \<lparr>guest_phys_addr = 0, region_size = 0, user_addr = 0, mmap_offset = 0\<rparr>,
            region_fds = replicate MAX_REGIONS (-1), region_vaddr = replicate MAX_REGIONS 0, req_fd = -1,
            virtqs = map (\<lambda>i. \<lparr>vq_entry = vq_entries i, enabled = False, triggered = False, vq_num = 0, vq_desc = 0,
              vq_avail = 0, vq_used = 0, call_fd = -1, last_avail_idx = 0\<rparr>) [0..<max_queues srv],
            gmem = mem, vloop = L,
            vsched = with_job job (\<lambda>b. b\<lparr>job_name := ''vhost-user-irq'', priority := 0x10000000\<rparr>) s,
            events = []\<rparr>;
          dev = connected dev;
          dev = set_entry_fd entry newfd dev
      in dev\<lparr>vloop := usfstl_loop_register (vloop dev) entry\<rparr>)"

definition usfstl_vhost_user_dev_notify :: "nat \<Rightarrow> 'x usfstl_vhost_user_server \<Rightarrow> 'x usfstl_vhost_user_dev_int \<Rightarrow> nat \<Rightarrow>
    u8 list \<Rightarrow> 'x usfstl_vhost_user_dev_int res" where
  "usfstl_vhost_user_dev_notify fuel srv dev i data =
     usfstl_assert (i \<le> max_queues srv) ''virtq_idx <= max_queues'' (
     bind_res (virtq_at dev i) (\<lambda>q.
     if \<not> enabled q then Inr dev
     else bind_res (usfstl_vhost_user_get_virtq_buf fuel dev i
            (Some \<lparr>fixed_in = SG_STACK_PREALLOC, fixed_out = SG_STACK_PREALLOC, fixed_written = 0\<rparr>)) (\<lambda>(buf, dev).
          case buf of
            None \<Rightarrow> Inr dev
          | Some buf \<Rightarrow>
              usfstl_assert (in_sg buf \<noteq> [] \<and> out_sg buf = []) ''buf->n_in_sg && !buf->n_out_sg'' (
              let dev = dev\<lparr>gmem := (gmem dev)\<lparr>m_bytes := snd (iov_fill (m_bytes (gmem dev)) (in_sg buf) data)\<rparr>\<rparr>;
                  buf = buf\<lparr>written := of_nat (length data)\<rparr>
              in usfstl_vhost_user_send_virtq_buf fuel srv dev buf i))))"

definition usfstl_vhost_user_config_changed :: "nat \<Rightarrow> 'x usfstl_vhost_user_server \<Rightarrow> 'x usfstl_vhost_user_dev_int \<Rightarrow>
    'x usfstl_vhost_user_dev_int res" where
  "usfstl_vhost_user_config_changed fuel srv dev =
     (if \<not> bit (dev_protocol_features dev) VHOST_USER_PROTOCOL_F_CONFIG then Inr dev
      else usfstl_vhost_user_send_msg fuel srv dev VHOST_USER_SLAVE_CONFIG_CHANGE_MSG 0)"

section \<open>Scatter lists: what is written and read\<close>

text \<open>The bytes a scatter list covers, in order.\<close>

fun iov_addrs :: "iovec list \<Rightarrow> u64 list" where
  "iov_addrs [] = []"
| "iov_addrs (v # sg) = map (\<lambda>i. iov_base v + of_nat i) [0..<unat (iov_len_of v)] @ iov_addrs sg"

lemma load_bytes_eq: "load_bytes mem a n = map (\<lambda>i. mem (a + of_nat i)) [0..<n]"
proof (induction n arbitrary: a)
  case (Suc n)
  have "[0..<Suc n] = 0 # map Suc [0..<n]"
    by (simp add: upt_conv_Cons map_Suc_upt del: upt_Suc)
  then show ?case
    using Suc by (simp add: comp_def algebra_simps del: upt_Suc)
qed simp

lemma iov_read_eq: "iov_read mem n sg = map mem (take n (iov_addrs sg))"
proof (induction sg arbitrary: n)
  case (Cons v sg)
  let ?l = "unat (iov_len_of v)"
  have "take (min n ?l) [0..<?l] = [0..<min n ?l]"
    by (simp add: take_upt)
  then show ?case
    using Cons by (simp add: load_bytes_eq take_map Let_def comp_def min_def)
qed simp

text \<open>Writing a list of bytes to a list of addresses, one after the other.\<close>

fun store_at :: "(u64 \<Rightarrow> u8) \<Rightarrow> u64 list \<Rightarrow> u8 list \<Rightarrow> u64 \<Rightarrow> u8" where
  "store_at mem (a # as) (b # bs) = store_at (mem(a := b)) as bs"
| "store_at mem _ _ = mem"

lemma store_at_append:
  "length as = length bs \<Longrightarrow> store_at mem (as @ as') (bs @ bs') = store_at (store_at mem as bs) as' bs'"
  by (induction as bs arbitrary: mem rule: list_induct2) auto

lemma store_at_Nil [simp]: "store_at mem as [] = mem"
  by (cases as) auto

lemma store_bytes_eq: "store_bytes mem a bs = store_at mem (map (\<lambda>i. a + of_nat i) [0..<length bs]) bs"
proof (induction bs arbitrary: mem a)
  case (Cons b bs)
  have "[0..<Suc (length bs)] = 0 # map Suc [0..<length bs]"
    by (simp add: upt_conv_Cons map_Suc_upt del: upt_Suc)
  then show ?case
    using Cons by (simp add: comp_def algebra_simps fun_upd_def del: upt_Suc)
qed simp

lemma store_at_take: "store_at mem as bs = store_at mem (take (length bs) as) bs"
  by (induction mem as bs rule: store_at.induct) (simp_all only: store_at.simps take_Suc_Cons length_Cons, simp_all)

lemma iov_fill_eq:
  "iov_fill mem sg buf = (min (length buf) (length (iov_addrs sg)), store_at mem (iov_addrs sg) buf)"
proof (induction sg arbitrary: mem buf)
  case (Cons v sg)
  let ?l = "unat (iov_len_of v)"
  let ?as = "map (\<lambda>i. iov_base v + of_nat i) [0..<?l]"
  show ?case
  proof (cases "length buf \<le> ?l")
    case True
    have "take (length buf) [0..<?l] = [0..<length buf]"
      using True by (simp add: take_upt)
    then have "store_bytes mem (iov_base v) buf = store_at mem (?as @ iov_addrs sg) buf"
      using True store_at_take [of mem "?as @ iov_addrs sg" buf] by (simp add: store_bytes_eq take_map)
    then show ?thesis
      using True Cons by (auto simp: Let_def min_def)
  next
    case False
    then have "store_at mem (?as @ iov_addrs sg) (take ?l buf @ drop ?l buf)
        = store_at (store_bytes mem (iov_base v) (take ?l buf)) (iov_addrs sg) (drop ?l buf)"
      by (subst store_at_append) (simp_all add: store_bytes_eq)
    then show ?thesis
      using False Cons by (auto simp: Let_def min_def)
  qed
qed simp

lemma store_at_out: "a \<notin> set as \<Longrightarrow> store_at mem as bs a = mem a"
  by (induction mem as bs rule: store_at.induct) auto

lemma store_at_map:
  assumes "distinct as" and "length bs \<le> length as"
  shows "map (store_at mem as bs) (take (length bs) as) = bs"
  using assms by (induction mem as bs rule: store_at.induct) (auto simp: store_at_out)

text \<open>
  C19: data that fits into a scatter list whose segments do not overlap is copied
  completely, and reading the list again gives the data back; bytes outside the
  list are not touched.
\<close>

theorem iov_fill_read_roundtrip:
  assumes "distinct (iov_addrs sg)" and "length buf \<le> length (iov_addrs sg)"
    and "iov_fill mem sg buf = (copied, mem')"
  shows "copied = length buf \<and> iov_read mem' (length buf) sg = buf
    \<and> (\<forall>a. a \<notin> set (iov_addrs sg) \<longrightarrow> mem' a = mem a)"
proof -
  have "mem' = store_at mem (iov_addrs sg) buf" and "copied = length buf"
    using assms(2,3) by (simp_all add: iov_fill_eq)
  then show ?thesis
    using store_at_map [OF assms(1,2), of mem] by (simp add: iov_read_eq store_at_out)
qed

theorem iov_fill_read_roundtrip_witness:
  "let sg = [\<lparr>iov_base = 0x1000, iov_len_of = 2\<rparr>, \<lparr>iov_base = 0x2000, iov_len_of = 3\<rparr>]; buf = [1, 2, 3, 4];
       mem' = snd (iov_fill (\<lambda>_. 0) sg buf)
   in iov_read mem' 4 sg = buf \<and> mem' 0x2002 = 0 \<and> mem' 0x3000 = 0"
proof -
  let ?sg = "[\<lparr>iov_base = 0x1000, iov_len_of = 2\<rparr>, \<lparr>iov_base = 0x2000, iov_len_of = 3\<rparr>] :: iovec list"
  have a: "iov_addrs ?sg = [0x1000, 0x1001, 0x2000, 0x2001, 0x2002]"
    by (simp add: upt_conv_Cons)
  have "distinct (iov_addrs ?sg)" "length [1, 2, 3, 4 :: u8] \<le> length (iov_addrs ?sg)"
    unfolding a by simp_all
  from iov_fill_read_roundtrip [OF this, of "\<lambda>_. 0" "fst (iov_fill (\<lambda>_. 0) ?sg [1, 2, 3, 4])"
      "snd (iov_fill (\<lambda>_. 0) ?sg [1, 2, 3, 4])"] show ?thesis
    unfolding a by (simp add: Let_def load_bytes_eq upt_conv_Cons)
qed

end
