(* ===== verification/Vhost_Queue.thy ===== *)
theory Vhost_Queue
  imports Vhost
begin

text \<open>
  What the virtqueue code of \<^verbatim>\<open>src/vhost.c\<close> achieves: a kick works off every buffer
  the front-end has made available, in order, and gives each one back once.
\<close>

section \<open>Working off a queue\<close>

text \<open>What the walk over a queue's descriptors depends on.\<close>

definition same_rings :: "'x usfstl_vhost_user_dev_int \<Rightarrow> 'x usfstl_vhost_user_dev_int \<Rightarrow> bool" where
  "same_rings dev dev' \<longleftrightarrow> n_regions dev' = n_regions dev \<and> regions dev' = regions dev
     \<and> region_vaddr dev' = region_vaddr dev \<and> m_desc (gmem dev') = m_desc (gmem dev)
     \<and> m_avail_idx (gmem dev') = m_avail_idx (gmem dev) \<and> m_avail_ring (gmem dev') = m_avail_ring (gmem dev)"

text \<open>A chain that starts at descriptor \<open>h\<close> ends within \<open>L\<close> steps and lies in mapped memory.\<close>

definition chain_ok :: "nat \<Rightarrow> 'x usfstl_vhost_user_dev_int \<Rightarrow> virtq_state \<Rightarrow> u16 \<Rightarrow> bool" where
  "chain_ok L dev q h \<longleftrightarrow> unat h < unat (vq_num q) \<and>
     (case desc_chain L (gmem dev) q h of Inl _ \<Rightarrow> False
      | Inr ds \<Rightarrow> list_all (\<lambda>d. \<not> isl (usfstl_vhost_user_to_va dev (d_addr d))) ds)"

text \<open>The descriptor the front-end made available \<open>k\<close> places after the next one.\<close>

definition avail_head :: "'x usfstl_vhost_user_dev_int \<Rightarrow> virtq_state \<Rightarrow> nat \<Rightarrow> u16" where
  "avail_head dev q k = m_avail_ring (gmem dev) (vq_avail q) (ucast (last_avail_idx q + of_nat k) mod vq_num q)"

definition used_slot :: "virtq_state \<Rightarrow> u16 \<Rightarrow> nat \<Rightarrow> u32" where
  "used_slot q idx k = ucast (idx + of_nat k) mod vq_num q"

text \<open>A device handler that returns, and touches nothing but bytes of guest memory and the buffer's length.\<close>

definition plain_handler :: "'x usfstl_vhost_user_server \<Rightarrow> bool" where
  "plain_handler srv \<longleftrightarrow> (\<forall>dev buf i. \<exists>w bytes.
     ops_handle srv dev buf i = Inr (buf\<lparr>written := w\<rparr>, dev\<lparr>gmem := (gmem dev)\<lparr>m_bytes := bytes\<rparr>\<rparr>))"

lemma desc_chain_mono: "desc_chain n m q h = Inr ds \<Longrightarrow> n \<le> n' \<Longrightarrow> desc_chain n' m q h = Inr ds"
proof (induction n arbitrary: h ds n')
  case (Suc n)
  obtain k where k: "n' = Suc k" "n \<le> k"
    using Suc.prems(2) by (cases n') auto
  let ?d = "m_desc m (vq_desc q) h"
  show ?case
  proof (cases "unat h < unat (vq_num q) \<and> d_flags ?d AND VRING_DESC_F_NEXT \<noteq> 0")
    case True
    with Suc.prems(1) obtain es where es: "desc_chain n m q (d_next ?d) = Inr es" and ds: "ds = ?d # es"
      by (auto simp: Let_def bind_res_Inr_iff)
    from Suc.IH [OF es k(2)] show ?thesis
      using True ds k(1) by (simp add: Let_def)
  next
    case False
    then show ?thesis
      using Suc.prems(1) k(1) by (simp add: Let_def split: if_splits)
  qed
qed simp

lemma desc_chain_cong:
  "m_desc m' = m_desc m \<Longrightarrow> vq_desc q' = vq_desc q \<Longrightarrow> vq_num q' = vq_num q \<Longrightarrow>
     desc_chain n m' q' h = desc_chain n m q h"
  by (induction n arbitrary: h) (simp_all add: Let_def)

lemma to_va_cong:
  "same_rings dev dev' \<Longrightarrow> usfstl_vhost_user_to_va dev' a = usfstl_vhost_user_to_va dev a"
  by (simp add: same_rings_def usfstl_vhost_user_to_va_def)

lemma chain_ok_cong:
  assumes "same_rings dev dev'" and "vq_desc q' = vq_desc q" and "vq_num q' = vq_num q"
  shows "chain_ok L dev' q' h = chain_ok L dev q h"
proof -
  have "desc_chain L (gmem dev') q' h = desc_chain L (gmem dev) q h"
    using assms by (intro desc_chain_cong) (simp_all add: same_rings_def)
  then show ?thesis
    unfolding chain_ok_def to_va_cong [OF assms(1)] using assms(3) by simp
qed

lemma translate_descs_ok:
  "list_all (\<lambda>d. \<not> isl (usfstl_vhost_user_to_va dev (d_addr d))) ds \<Longrightarrow> \<exists>r. translate_descs dev ds ins outs = Inr r"
proof (induction ds arbitrary: ins outs)
  case (Cons d ds)
  then obtain va where "usfstl_vhost_user_to_va dev (d_addr d) = Inr va"
    by (cases "usfstl_vhost_user_to_va dev (d_addr d)") auto
  then show ?case
    using Cons by (simp add: Let_def)
qed simp

lemma same_rings_with_virtq [simp]: "same_rings dev (with_virtq i f dev')  = same_rings dev dev'"
  by (simp add: same_rings_def with_virtq_def)

lemma same_rings_refl [simp]: "same_rings dev dev"
  by (simp add: same_rings_def)

lemma get_virtq_buf_step:
  assumes "i < length (virtqs dev)" and "q = virtqs dev ! i" and "vq_num q \<noteq> 0"
    and "m_avail_idx (gmem dev) (vq_avail q) \<noteq> last_avail_idx q"
    and "chain_ok L dev q (avail_head dev q 0)" and "L \<le> fuel"
  shows "\<exists>buf. usfstl_vhost_user_get_virtq_buf fuel dev i fixed
      = Inr (Some buf, with_virtq i (\<lambda>q. q\<lparr>last_avail_idx := last_avail_idx q + 1\<rparr>) dev)
    \<and> buf_idx buf = avail_head dev q 0 \<and> buf_virtq_idx buf = i"
proof -
  let ?dev = "with_virtq i (\<lambda>q. q\<lparr>last_avail_idx := last_avail_idx q + 1\<rparr>) dev"
  let ?h = "avail_head dev q 0"
  from assms(5) obtain ds where ds: "desc_chain L (gmem dev) q ?h = Inr ds"
    and va: "list_all (\<lambda>d. \<not> isl (usfstl_vhost_user_to_va dev (d_addr d))) ds" and h: "unat ?h < unat (vq_num q)"
    by (auto simp: chain_ok_def split: sum.splits)
  have "list_all (\<lambda>d. \<not> isl (usfstl_vhost_user_to_va ?dev (d_addr d))) ds"
    using va to_va_cong [of dev ?dev] by simp
  from translate_descs_ok [OF this, of "[]" "[]"] obtain r where r: "translate_descs ?dev ds [] [] = Inr r"
    by blast
  obtain ins outs where tr: "translate_descs ?dev ds [] [] = Inr (ins, outs)"
    using r by (cases r) simp
  have g: "gmem ?dev = gmem dev"
    by (simp add: with_virtq_def)
  show ?thesis
    using assms(1-4) h desc_chain_mono [OF ds assms(6)] tr
    by (simp add: usfstl_vhost_user_get_virtq_buf_def virtq_at_def Let_def avail_head_def g)
qed


text \<open>Answering a buffer when the call descriptor can be written and no time controller is used.\<close>

lemma send_response_step:
  assumes "i < length (virtqs dev)" and "q = virtqs dev ! i" and "vq_num q \<noteq> 0" and "buf_virtq_idx buf = i"
    and "\<not> has_ctrl srv" and "0 \<le> call_fd q" and "write_ok srv (call_fd q)"
  shows "usfstl_vhost_user_send_response fuel srv dev buf = Inr (log_event (Called (call_fd q)) (dev\<lparr>gmem := (gmem dev)
      \<lparr>m_used_ring := (m_used_ring (gmem dev))(vq_used q := (m_used_ring (gmem dev) (vq_used q))
         (used_slot q (m_used_idx (gmem dev) (vq_used q)) 0 := (ucast (buf_idx buf), ucast (written buf)))),
       m_used_idx := (m_used_idx (gmem dev))(vq_used q := m_used_idx (gmem dev) (vq_used q) + 1)\<rparr>\<rparr>))"
proof -
  have "ucast (ucast (m :: u16) + 1 :: u32) = m + 1" for m
    by transfer (simp add: take_bit_eq_mod mod_simps)
  then show ?thesis
    using assms by (simp add: usfstl_vhost_user_send_response_def usfstl_vhost_user_send_virtq_buf_def virtq_at_def
        Let_def used_slot_def not_less)
qed


text \<open>The entries that are written to the used ring, starting at an index.\<close>

fun put_used :: "virtq_state \<Rightarrow> (u32 \<Rightarrow> u32 \<times> u32) \<Rightarrow> u16 \<Rightarrow> (u16 \<times> u32) list \<Rightarrow> u32 \<Rightarrow> u32 \<times> u32" where
  "put_used q r idx [] = r"
| "put_used q r idx ((h, w) # es) = put_used q (r(used_slot q idx 0 := (ucast h, w))) (idx + 1) es"

lemma avail_head_Suc:
  assumes "same_rings dev dev'"
  shows "avail_head dev' (q\<lparr>last_avail_idx := last_avail_idx q + 1\<rparr>) k = avail_head dev q (Suc k)"
  using assms by (simp add: avail_head_def same_rings_def add_ac)

lemma put_used_cong: "vq_num q' = vq_num q \<Longrightarrow> put_used q' r idx es = put_used q r idx es"
  by (induction q r idx es rule: put_used.induct) (simp_all add: used_slot_def)

definition drained :: "virtq_state \<Rightarrow> nat \<Rightarrow> nat \<Rightarrow> 'x usfstl_vhost_user_dev_int \<Rightarrow> 'x usfstl_vhost_user_dev_int \<Rightarrow> bool" where
  "drained q i n dev dev' \<longleftrightarrow> same_rings dev dev'
     \<and> virtqs dev' = (virtqs dev)[i := q\<lparr>last_avail_idx := m_avail_idx (gmem dev) (vq_avail q)\<rparr>]
     \<and> m_used_idx (gmem dev') (vq_used q) = m_used_idx (gmem dev) (vq_used q) + of_nat n
     \<and> events dev' = events dev @ replicate n (Called (call_fd q))
     \<and> (\<exists>ws. length ws = n \<and> m_used_ring (gmem dev') (vq_used q)
          = put_used q (m_used_ring (gmem dev) (vq_used q)) (m_used_idx (gmem dev) (vq_used q))
              (zip (map (avail_head dev q) [0..<n]) ws))"

lemma drained_step:
  assumes "drained q' i n dev3 dev'" and "q' = q\<lparr>last_avail_idx := last_avail_idx q + 1\<rparr>"
    and "same_rings dev dev3" and "virtqs dev3 = (virtqs dev)[i := q']"
    and "m_used_idx (gmem dev3) (vq_used q) = m_used_idx (gmem dev) (vq_used q) + 1"
    and "events dev3 = events dev @ [Called (call_fd q)]"
    and "m_used_ring (gmem dev3) (vq_used q) = (m_used_ring (gmem dev) (vq_used q))
      (used_slot q (m_used_idx (gmem dev) (vq_used q)) 0 := (ucast (avail_head dev q 0), w))"
  shows "drained q i (Suc n) dev dev'"
proof -
  obtain ws where ws: "length ws = n" "m_used_ring (gmem dev') (vq_used q')
          = put_used q' (m_used_ring (gmem dev3) (vq_used q')) (m_used_idx (gmem dev3) (vq_used q'))
              (zip (map (avail_head dev3 q') [0..<n]) ws)"
    using assms(1) by (auto simp: drained_def)
  have heads: "map (avail_head dev q) [0..<Suc n] = avail_head dev q 0 # map (avail_head dev3 q') [0..<n]"
    by (simp add: upt_conv_Cons map_Suc_upt [symmetric] assms(2) avail_head_Suc [OF assms(3)] comp_def del: upt_Suc)
  have "m_used_ring (gmem dev') (vq_used q)
    = put_used q (m_used_ring (gmem dev) (vq_used q)) (m_used_idx (gmem dev) (vq_used q))
        (zip (map (avail_head dev q) [0..<Suc n]) (w # ws))"
    unfolding heads using ws(2) assms(2,5,7) put_used_cong [of q' q] by simp
  moreover have "length (w # ws) = Suc n"
    using ws(1) by simp
  moreover have "same_rings dev dev'"
    using assms(1,3) by (simp add: drained_def same_rings_def)
  moreover have "virtqs dev' = (virtqs dev)[i := q\<lparr>last_avail_idx := m_avail_idx (gmem dev) (vq_avail q)\<rparr>]"
    using assms(1-4) by (simp add: drained_def same_rings_def)
  moreover have "m_used_idx (gmem dev') (vq_used q) = m_used_idx (gmem dev) (vq_used q) + of_nat (Suc n)"
    using assms(1,2,5) by (simp add: drained_def)
  moreover have "events dev' = events dev @ replicate (Suc n) (Called (call_fd q))"
    using assms(1,2,6) by (simp add: drained_def)
  ultimately show ?thesis
    unfolding drained_def by blast
qed

lemma handle_queue_loop_drains:
  assumes "plain_handler srv" and "\<not> has_ctrl srv" and "i < length (virtqs dev)" and "q = virtqs dev ! i"
    and "vq_num q \<noteq> 0" and "0 \<le> call_fd q" and "write_ok srv (call_fd q)"
    and "n = unat (m_avail_idx (gmem dev) (vq_avail q) - last_avail_idx q)"
    and "\<forall>k<n. chain_ok L dev q (avail_head dev q k)" and "n + L < fuel"
  shows "\<exists>dev'. handle_queue_loop fuel srv fb dev i = Inr dev' \<and> drained q i n dev dev'"
  using assms
proof (induction n arbitrary: fuel fb dev q)
  case 0
  then have "m_avail_idx (gmem dev) (vq_avail q) = last_avail_idx q"
    by (simp add: unat_eq_0)
  with 0 have "handle_queue_loop fuel srv fb dev i = Inr dev" "drained q i 0 dev dev"
    by (cases fuel; simp add: usfstl_vhost_user_get_virtq_buf_def virtq_at_def drained_def list_update_same_conv)+
  then show ?case
    by blast
next
  case (Suc n)
  obtain m where fuel: "fuel = Suc m" "n + L < m" "L \<le> fuel"
    using Suc.prems(10) by (cases fuel) auto
  let ?q' = "q\<lparr>last_avail_idx := last_avail_idx q + 1\<rparr>"
  let ?dev1 = "with_virtq i (\<lambda>q. q\<lparr>last_avail_idx := last_avail_idx q + 1\<rparr>) dev"
  have ne: "m_avail_idx (gmem dev) (vq_avail q) \<noteq> last_avail_idx q"
    using Suc.prems(8) by auto
  obtain buf where buf: "usfstl_vhost_user_get_virtq_buf fuel dev i (Some fb) = Inr (Some buf, ?dev1)"
    "buf_idx buf = avail_head dev q 0" "buf_virtq_idx buf = i"
    using get_virtq_buf_step [OF Suc.prems(3,4,5) ne _ fuel(3)] Suc.prems(9) by blast
  obtain w bytes where h: "ops_handle srv ?dev1 buf i
      = Inr (buf\<lparr>written := w\<rparr>, ?dev1\<lparr>gmem := (gmem ?dev1)\<lparr>m_bytes := bytes\<rparr>\<rparr>)"
    using Suc.prems(1) unfolding plain_handler_def by blast
  let ?dev2 = "?dev1\<lparr>gmem := (gmem ?dev1)\<lparr>m_bytes := bytes\<rparr>\<rparr>"
  have q2: "i < length (virtqs ?dev2)" "?q' = virtqs ?dev2 ! i"
    using Suc.prems(3,4) by (simp_all add: with_virtq_def)
  have "\<exists>dev3. usfstl_vhost_user_send_response fuel srv ?dev2 (buf\<lparr>written := w\<rparr>) = Inr dev3
    \<and> same_rings dev dev3 \<and> virtqs dev3 = (virtqs dev)[i := ?q']
    \<and> m_used_idx (gmem dev3) (vq_used q) = m_used_idx (gmem dev) (vq_used q) + 1
    \<and> events dev3 = events dev @ [Called (call_fd q)]
    \<and> m_used_ring (gmem dev3) (vq_used q) = (m_used_ring (gmem dev) (vq_used q))
      (used_slot q (m_used_idx (gmem dev) (vq_used q)) 0 := (ucast (avail_head dev q 0), ucast w))"
    using Suc.prems(2,4-7) buf(2,3)
    by (subst send_response_step [OF q2]) (simp_all add: same_rings_def with_virtq_def log_event_def used_slot_def)
  then obtain dev3 where d3: "usfstl_vhost_user_send_response fuel srv ?dev2 (buf\<lparr>written := w\<rparr>) = Inr dev3"
    and dd: "same_rings dev dev3" "virtqs dev3 = (virtqs dev)[i := ?q']"
     "m_used_idx (gmem dev3) (vq_used q) = m_used_idx (gmem dev) (vq_used q) + 1"
     "events dev3 = events dev @ [Called (call_fd q)]"
     "m_used_ring (gmem dev3) (vq_used q) = (m_used_ring (gmem dev) (vq_used q))
       (used_slot q (m_used_idx (gmem dev) (vq_used q)) 0 := (ucast (avail_head dev q 0), ucast w))"
    by blast
  obtain fb' where loop: "handle_queue_loop fuel srv fb dev i = handle_queue_loop m srv fb' dev3 i"
    using buf(1) h d3 by (simp add: fuel(1))
  have n: "n = unat (m_avail_idx (gmem dev3) (vq_avail ?q') - last_avail_idx ?q')"
    using Suc.prems(8) dd(1) ne unat_minus_one [of "m_avail_idx (gmem dev) (vq_avail q) - last_avail_idx q"]
    by (simp add: same_rings_def diff_diff_eq2 algebra_simps)
  have ok: "\<forall>k<n. chain_ok L dev3 ?q' (avail_head dev3 ?q' k)"
    using Suc.prems(9) chain_ok_cong [OF dd(1)] avail_head_Suc [OF dd(1)] by auto
  have "\<exists>dev'. handle_queue_loop m srv fb' dev3 i = Inr dev' \<and> drained ?q' i n dev3 dev'"
    by (rule Suc.IH) (use Suc.prems(1-7) n ok fuel(2) dd(2) in simp_all)
  then show ?case
    using loop drained_step [OF _ refl dd] by auto
qed

lemma used_slot_Suc [simp]: "used_slot q (idx + 1) k = used_slot q idx (Suc k)"
  by (simp add: used_slot_def add_ac)

lemma put_used_out:
  "s \<notin> used_slot q idx ` {..<length es} \<Longrightarrow> put_used q r idx es s = r s"
proof (induction es arbitrary: r idx)
  case (Cons e es)
  have "s \<notin> used_slot q (idx + 1) ` {..<length es}" and "s \<noteq> used_slot q idx 0"
    using Cons.prems by (auto simp: image_iff)
  then show ?case
    using Cons.IH by (cases e) simp
qed simp

lemma put_used_lookup:
  assumes "inj_on (used_slot q idx) {..<length es}" and "k < length es"
  shows "put_used q r idx es (used_slot q idx k) = (ucast (fst (es ! k)), snd (es ! k))"
  using assms
proof (induction es arbitrary: r idx k)
  case (Cons e es)
  obtain h w where e: "e = (h, w)"
    by (cases e)
  show ?case
  proof (cases k)
    case 0
    have "used_slot q idx 0 \<notin> used_slot q (idx + 1) ` {..<length es}"
      using Cons.prems(1) by (auto dest!: inj_onD)
    then show ?thesis
      by (simp add: e 0 put_used_out)
  next
    case (Suc k')
    have "inj_on (used_slot q (idx + 1)) {..<length es}"
      using Cons.prems(1) by (auto simp: inj_on_def)
    from Cons.IH [OF this, of k'] show ?thesis
      using Cons.prems(2) by (simp add: e Suc)
  qed
qed simp

lemma unat_power_two: "p \<le> 15 \<Longrightarrow> unat (2 ^ p :: u32) = 2 ^ p"
proof -
  assume "p \<le> 15"
  then have "(2 :: nat) ^ p < 2 ^ 32"
    by (intro power_strict_increasing) auto
  then show ?thesis
    using unat_of_nat [of "2 ^ p", where 'a = 32] by simp
qed

lemma unat_used_slot:
  assumes "vq_num q = 2 ^ p" and "p \<le> 15"
  shows "unat (used_slot q idx k) = (unat idx + k) mod 2 ^ p"
proof -
  have c: "unat (ucast (x :: u16) :: u32) = unat x" for x
  proof -
    have "unat x < 2 ^ 16"
      using unsigned_less [of x, where 'a = nat] by simp
    then show ?thesis
      by (simp add: unsigned_ucast_eq take_bit_nat_eq_self)
  qed
  have "(unat idx + k) mod 2 ^ 16 mod 2 ^ p = (unat idx + k) mod 2 ^ p"
    using assms(2) by (intro mod_mod_cancel le_imp_power_dvd) simp
  then show ?thesis
    using assms(1) unat_power_two [OF assms(2)] c by (simp add: used_slot_def unat_mod unat_word_ariths unat_of_nat mod_simps)
qed

lemma mod_shift_inj:
  fixes a j k m :: nat
  assumes "(a + j) mod m = (a + k) mod m" and "j < m" and "k < m"
  shows "j = k"
proof -
  have le: "x = y" if "x \<le> y" "y < m" "(a + x) mod m = (a + y) mod m" for x y
  proof -
    have "m dvd y - x"
      using that mod_eq_dvd_iff_nat [of "a + x" "a + y" m] by simp
    then show ?thesis
      using that nat_dvd_not_less [of "y - x" m] by fastforce
  qed
  show ?thesis
    using assms le [of j k] le [of k j] by (cases "j \<le> k") auto
qed

lemma inj_used_slot:
  assumes "vq_num q = 2 ^ p" and "p \<le> 15" and "n \<le> 2 ^ p"
  shows "inj_on (used_slot q idx) {..<n}"
proof (rule inj_onI)
  fix j k
  assume jk: "j \<in> {..<n}" "k \<in> {..<n}" and "used_slot q idx j = used_slot q idx k"
  then have "(unat idx + j) mod 2 ^ p = (unat idx + k) mod 2 ^ p"
    using unat_used_slot [OF assms(1,2)] by metis
  then show "j = k"
    by (rule mod_shift_inj) (use jk assms(3) in auto)
qed




text \<open>A server with one queue, and a device with two chains waiting in it.\<close>

definition example_srv :: "unit usfstl_vhost_user_server" where
  "example_srv = \<lparr>max_queues = 1, input_queues = 1, deferred_handling = False, interrupt_latency = 0,
     has_scheduler = False, has_ctrl = False, srv_features = 0, srv_protocol_features = 0, config = None,
     ops_handle = (\<lambda>dev buf i. Inr (buf\<lparr>written := 4\<rparr>, dev\<lparr>gmem := (gmem dev)\<lparr>m_bytes := (\<lambda>_. 7)\<rparr>\<rparr>)),
     ctrl_sync_to = Inr, ctrl_sync_from = Inr, write_ok = (\<lambda>f. 0 \<le> f), srv_select = (\<lambda>_ _ dev. (0, [], dev)),
     srv_pre_handler = (\<lambda>_ _. Inr), srv_handler = (\<lambda>_. Inr), reply_entry = 9, recv_answer = (\<lambda>_. ((12, 0), 0)),
     disconnected = id, mmap = (\<lambda>_ _ _. 0x7000)\<rparr>"

definition example_virtq :: virtq_state where
  "example_virtq = \<lparr>vq_entry = 1, enabled = True, triggered = False, vq_num = 4, vq_desc = 0x7000, vq_avail = 0x7100,
     vq_used = 0x7200, call_fd = 5, last_avail_idx = 0xffff\<rparr>"

definition example_dev :: "unit usfstl_vhost_user_dev_int" where
  "example_dev = \<lparr>dev_features = 0, dev_protocol_features = 0, dev_entry = 0, irq_job = 0, n_regions = 1,
     regions = [\<lparr>guest_phys_addr = 0, region_size = 0x1000, user_addr = 0x1000, mmap_offset = 0\<rparr>,
       \<lparr>guest_phys_addr = 0, region_size = 0, user_addr = 0, mmap_offset = 0\<rparr>],
     region_fds = [6, -1], region_vaddr = [0x7000, 0], req_fd = -1, virtqs = [example_virtq],
     gmem = \<lparr>m_desc = (\<lambda>_ i. \<lparr>d_addr = 0x1400, d_len = 16, d_flags = (if i = 0 then 1 else 2), d_next = 1\<rparr>),
       m_avail_idx = (\<lambda>_. 1), m_avail_ring = (\<lambda>_ i. if i = 3 then 0 else 2), m_used_idx = (\<lambda>_. 0xffff),
       m_used_ring = (\<lambda>_ _. (0, 0)), m_bytes = (\<lambda>_. 0)\<rparr>,
     vloop = \<lparr>g_usfstl_loop_entries = [0], loop_entry = (\<lambda>_. \<lparr>handler = 0, fd = -1, loop_priority = 0, loop_data = 0\<rparr>),
       g_usfstl_loop_pre_handler_fn = None, g_usfstl_loop_pre_handler_fn_data = 0\<rparr>,
     vsched = USFSTL_SCHEDULER ''vhost'' (\<lambda>_. \<lparr>start = 0, priority = 0, group = 0, job_name = [],
      job_data = 0, callback = 0, blocked = False, pending = False\<rparr>) (), events = []\<rparr>"

lemma plain_example: "plain_handler example_srv"
  by (auto simp: plain_handler_def example_srv_def)


end
