(* ===== verification/Vhost_Control.thy ===== *)
theory Vhost_Control
  imports Vhost_Queue
begin

text \<open>
  What the control socket's handler of \<^verbatim>\<open>src/vhost.c\<close> does: its replies, the memory
  table, well-formedness of the device, and the ways in which messages lead to
  accesses outside the device or through null pointers.
\<close>

section \<open>Replies\<close>

lemma concat_trim_iov: "concat (trim_iov n iov) = take n (concat iov)"
  by (induction n iov rule: trim_iov.induct) auto

lemma concat_advance_iov: "concat (advance_iov n iov) = drop n (concat iov)"
  by (induction n iov rule: advance_iov.induct) (auto simp: Let_def min_def)

text \<open>\<^verbatim>\<open>sendmsg\<close> sends some of the bytes it is given.\<close>

definition sends_some :: "(nat \<Rightarrow> u8 list \<Rightarrow> int) \<Rightarrow> bool" where
  "sends_some sendmsg \<longleftrightarrow> (\<forall>k bs. bs \<noteq> [] \<longrightarrow> 0 < sendmsg k bs \<and> sendmsg k bs \<le> int (length bs))"

lemma send_reply_loop_all:
  assumes "sends_some sendmsg" and "length (concat iov) = r" and "r \<le> fuel"
  shows "send_reply_loop fuel sendmsg k iov r sent = Inr (False, sent @ concat iov)"
  using assms(2,3)
proof (induction r arbitrary: fuel k iov sent rule: less_induct)
  case (less r)
  show ?case
  proof (cases r)
    case (Suc r')
    then obtain n where n: "fuel = Suc n"
      using less.prems(2) by (cases fuel) auto
    let ?l = "sendmsg k (concat iov)"
    have l: "0 < ?l" "?l \<le> int (length (concat iov))"
    proof -
      have "concat iov \<noteq> []"
        using less.prems(1) Suc by (metis length_0_conv nat.distinct(1))
      then show "0 < ?l" "?l \<le> int (length (concat iov))"
        using assms(1) unfolding sends_some_def by blast+
    qed
    have "send_reply_loop n sendmsg (k + 1) (advance_iov (nat ?l) iov) (r - nat ?l) (sent @ take (nat ?l) (concat iov))
        = Inr (False, (sent @ take (nat ?l) (concat iov)) @ concat (advance_iov (nat ?l) iov))"
      using l less.prems n Suc by (intro less.IH) (auto simp: concat_advance_iov)
    then show ?thesis
      using l by (simp add: Suc n Let_def concat_advance_iov)
  qed (use less.prems in simp)
qed

lemma send_reply_all:
  assumes "sends_some sendmsg" and "n \<le> length (concat iov)"
  shows "send_reply sendmsg iov n = Inr (False, take n (concat iov))"
  using send_reply_loop_all [OF assms(1), of "trim_iov n iov" n n 0 "[]"] assms(2)
  by (simp add: send_reply_def concat_trim_iov)

text \<open>
  C21: however \<^verbatim>\<open>sendmsg\<close> splits the reply, what the front-end receives in answer to a
  message is exactly a header that repeats the request, has the reply flag and not
  the need-reply flag, and announces eight bytes, followed by the number that was
  asked for, or zero as acknowledgement.
\<close>

theorem handle_msg_reply:
  assumes "sends_some sendmsg" and "fst recv = 12" and "msg_size msg = 0 \<or> msg_size msg = 8 \<and> snd recv = 8"
    and "msg_flags msg AND VHOST_USER_MSG_FLAGS_VERSION = VHOST_USER_VERSION"
    and "vhost_switch fuel H srv uninit dev msg = Inr (reply, dev')"
    and "reply = ReplyU64 v \<or> reply = NoReply \<and> v = 0 \<and> msg_flags msg AND VHOST_USER_MSG_FLAGS_NEED_REPLY \<noteq> 0"
  shows "\<exists>sent. usfstl_vhost_user_handle_msg fuel H srv uninit sendmsg dev recv msg data = Inr (sent, dev')
    \<and> length sent = 20 \<and> of_le_bytes (take 4 sent) = unat (request msg)
    \<and> (let flags = (of_nat (of_le_bytes (take 4 (drop 4 sent))) :: u32) in
         flags AND VHOST_USER_MSG_FLAGS_REPLY \<noteq> 0 \<and> flags AND VHOST_USER_MSG_FLAGS_NEED_REPLY = 0)
    \<and> of_le_bytes (take 4 (drop 8 sent)) = 8 \<and> of_le_bytes (drop 12 sent) = unat v"
proof -
  let ?sent = "reply_header msg 8 @ le_bytes 8 (unat v)"
  let ?f = "(msg_flags msg AND NOT VHOST_USER_MSG_FLAGS_NEED_REPLY) OR VHOST_USER_MSG_FLAGS_REPLY"
  have len: "reply_payload_len reply msg = 8"
    using assms(6) by (auto simp: reply_payload_len_def)
  have iov: "concat (reply_iov srv reply msg data) = ?sent @ p_rest msg @ data"
    using assms(6) by (auto simp: reply_iov_def reply_payload_len_def)
  have hl: "length (reply_header msg 8) = 12"
    by (simp add: reply_header_def)
  have s: "send_reply sendmsg (reply_iov srv reply msg data) 20 = Inr (False, ?sent)"
    using hl by (subst send_reply_all [OF assms(1)]) (simp_all add: iov)
  have "usfstl_vhost_user_handle_msg fuel H srv uninit sendmsg dev recv msg data = Inr (?sent, dev')"
    using assms(2-6) len s by (auto simp: usfstl_vhost_user_handle_msg_def usfstl_vhost_user_read_msg_def)
  moreover have "of_le_bytes (take 4 (drop 4 ?sent)) = unat ?f" "of_le_bytes (take 4 ?sent) = unat (request msg)"
    "of_le_bytes (drop 12 ?sent) = unat v" "of_le_bytes (take 4 (drop 8 ?sent)) = 8"
    using unsigned_less [of ?f, where 'a = nat] unsigned_less [of "request msg", where 'a = nat]
      unsigned_less [of v, where 'a = nat]
    by (simp_all add: reply_header_def)
  moreover have "?f AND VHOST_USER_MSG_FLAGS_REPLY \<noteq> 0"
    by (simp add: VHOST_USER_MSG_FLAGS_REPLY_def VHOST_USER_MSG_FLAGS_NEED_REPLY_def bit.conj_disj_distrib2)
  moreover have "?f AND VHOST_USER_MSG_FLAGS_NEED_REPLY = 0"
  proof -
    have "((x AND NOT n) OR r) AND n = r AND n" for x n r :: u32
      by (rule bit_eqI) (auto simp: bit_simps)
    then show ?thesis
      by (simp only:) (simp add: VHOST_USER_MSG_FLAGS_REPLY_def VHOST_USER_MSG_FLAGS_NEED_REPLY_def)
  qed
  ultimately show ?thesis
    using hl by (intro exI [of _ ?sent]) simp
qed


definition example_msg :: "u32 \<Rightarrow> vhost_user_msg" where
  "example_msg r = \<lparr>request = r, msg_flags = 1, msg_size = 0, p_u64 = 0, p_idx = 0, p_num = 0, p_descriptor = 0,
     p_used = 0, p_avail = 0, p_n_regions = 0, p_regions = [], p_cfg_offset = 0, p_cfg_size = 0,
     p_rest = replicate 64 0, p_fds = []\<rparr>"

theorem handle_msg_reply_witness:
  "\<exists>sent. usfstl_vhost_user_handle_msg 9 no_hooks example_srv 0 (\<lambda>k bs. min 7 (int (length bs))) example_dev
      (12, 0) (example_msg 1) [] = Inr (sent, example_dev)
    \<and> length sent = 20 \<and> of_le_bytes (take 4 sent) = 1 \<and> of_le_bytes (drop 12 sent) = 2 ^ 30"
proof -
  have 1: "sends_some (\<lambda>k bs. min 7 (int (length bs)))"
    by (auto simp: sends_some_def)
  have 2: "vhost_switch 9 no_hooks example_srv 0 example_dev (example_msg 1) = Inr (ReplyU64 0x40000000, example_dev)"
    by (simp add: vhost_switch_def example_msg_def example_srv_def VHOST_USER_F_PROTOCOL_FEATURES_def Let_def)
  have 3: "msg_flags (example_msg 1) AND VHOST_USER_MSG_FLAGS_VERSION = VHOST_USER_VERSION"
    "msg_size (example_msg 1) = 0" "unat (request (example_msg 1)) = 1"
    by (simp_all add: example_msg_def VHOST_USER_MSG_FLAGS_VERSION_def VHOST_USER_VERSION_def)
  show ?thesis
    using handle_msg_reply [OF 1 _ _ 3(1) 2, of "(12, 0)" "0x40000000" "[]"] 3(2,3) by auto
qed

section \<open>Memory regions\<close>

text \<open>The arrays have their sizes, and only regions of the current table are mapped.\<close>

definition dev_wf :: "'x usfstl_vhost_user_server \<Rightarrow> 'x usfstl_vhost_user_dev_int \<Rightarrow> bool" where
  "dev_wf srv dev \<longleftrightarrow> length (regions dev) = MAX_REGIONS \<and> length (region_fds dev) = MAX_REGIONS
     \<and> length (region_vaddr dev) = MAX_REGIONS \<and> n_regions dev \<le> MAX_REGIONS
     \<and> length (virtqs dev) = max_queues srv
     \<and> (\<forall>k<MAX_REGIONS. n_regions dev \<le> k \<longrightarrow> region_vaddr dev ! k = 0)"

lemma less_MAX_REGIONS [simp]: "k < MAX_REGIONS \<longleftrightarrow> k = 0 \<or> k = 1"
  by (auto simp: MAX_REGIONS_def)

lemma upt_MAX_REGIONS: "[0..<MAX_REGIONS] = [0, 1]"
  by (simp add: MAX_REGIONS_def upt_conv_Cons)

lemma clear_mappings_fields [simp]:
  "regions (usfstl_vhost_user_clear_mappings dev) = regions dev"
  "n_regions (usfstl_vhost_user_clear_mappings dev) = n_regions dev"
  "virtqs (usfstl_vhost_user_clear_mappings dev) = virtqs dev"
  by (simp_all add: usfstl_vhost_user_clear_mappings_def upt_MAX_REGIONS clear_mapping_def log_event_def Let_def)

lemma clear_mappings_clears:
  assumes "length (region_vaddr dev) = MAX_REGIONS" and "length (region_fds dev) = MAX_REGIONS"
  shows "region_vaddr (usfstl_vhost_user_clear_mappings dev) = [0, 0]"
    and "region_fds (usfstl_vhost_user_clear_mappings dev) = [-1, -1]"
proof -
  obtain a b where v: "region_vaddr dev = [a, b]"
    using assms(1) by (auto simp: MAX_REGIONS_def length_Suc_conv numeral_2_eq_2)
  obtain c d where f: "region_fds dev = [c, d]"
    using assms(2) by (auto simp: MAX_REGIONS_def length_Suc_conv numeral_2_eq_2)
  show "region_vaddr (usfstl_vhost_user_clear_mappings dev) = [0, 0]"
    by (simp add: usfstl_vhost_user_clear_mappings_def upt_MAX_REGIONS clear_mapping_def log_event_def Let_def v f)
  show "region_fds (usfstl_vhost_user_clear_mappings dev) = [-1, -1]"
    by (simp add: usfstl_vhost_user_clear_mappings_def upt_MAX_REGIONS clear_mapping_def log_event_def Let_def v f)
qed

lemma clear_mappings_events:
  assumes "k < MAX_REGIONS" and "length (region_vaddr dev) = MAX_REGIONS" and "length (region_fds dev) = MAX_REGIONS"
  shows "region_vaddr dev ! k \<noteq> 0 \<Longrightarrow>
      Unmapped (region_vaddr dev ! k) (region_size (regions dev ! k)) \<in> set (events (usfstl_vhost_user_clear_mappings dev))"
    and "region_fds dev ! k \<noteq> -1 \<Longrightarrow> Closed (region_fds dev ! k) \<in> set (events (usfstl_vhost_user_clear_mappings dev))"
  using assms by (auto simp: usfstl_vhost_user_clear_mappings_def upt_MAX_REGIONS clear_mapping_def log_event_def Let_def)

text \<open>An address is translated by the first region that contains it.\<close>

definition in_region :: "vhost_user_region \<Rightarrow> u64 \<Rightarrow> bool" where
  "in_region r a \<longleftrightarrow> user_addr r \<le> a \<and> a < user_addr r + region_size r"

lemma to_va_loop_first:
  assumes "k < n" and "n \<le> length rs" and "n \<le> length vs"
    and "in_region (rs ! k) a" and "\<forall>j<k. \<not> in_region (rs ! j) a"
  shows "to_va_loop n rs vs a = Inr (vs ! k + (a - user_addr (rs ! k)))"
  using assms
proof (induction n rs vs a arbitrary: k rule: to_va_loop.induct)
  case (1 n r rs v vs addr)
  show ?case
  proof (cases k)
    case 0
    then show ?thesis
      using "1.prems" by (simp add: in_region_def)
  next
    case (Suc k')
    have "\<not> in_region r addr"
      using "1.prems"(5) Suc by auto
    moreover have "\<forall>j<k'. \<not> in_region (rs ! j) addr"
      using "1.prems"(5) Suc by fastforce
    ultimately show ?thesis
      using "1.IH" [of k'] "1.prems" Suc by (auto simp: in_region_def)
  qed
qed auto

lemma setup_mappings_ok:
  assumes "n_regions dev \<le> MAX_REGIONS" and "region_vaddr dev = [0, 0]"
    and "\<And>k. k < n_regions dev \<Longrightarrow> mmap srv (region_size (regions dev ! k)) (region_fds dev ! k) (mmap_offset (regions dev ! k)) \<noteq> -1"
  shows "usfstl_vhost_user_setup_mappings srv dev = Inr (dev\<lparr>region_vaddr :=
    map (\<lambda>k. if k < n_regions dev
       then mmap srv (region_size (regions dev ! k)) (region_fds dev ! k) (mmap_offset (regions dev ! k)) else 0) [0, 1]\<rparr>)"
proof -
  have two: "[0..<2] = [0, 1 :: nat]"
    by (simp add: upt_conv_Cons)
  consider "n_regions dev = 0" | "n_regions dev = 1" | "n_regions dev = 2"
    using assms(1) by (fastforce simp: MAX_REGIONS_def)
  then show ?thesis
    by cases (use assms(2) assms(3) [of 0] assms(3) [of 1] in
        \<open>simp_all add: usfstl_vhost_user_setup_mappings_def Let_def two\<close>)
qed

text \<open>
  C22: a well-formed device accepts every memory table that fits and whose regions
  can be mapped; afterwards exactly these regions are mapped, every earlier mapping
  has been removed and its descriptor closed, and an address inside a region is
  translated to its place in the mapping of the first such region.
\<close>

theorem set_mem_table_remaps:
  assumes "dev_wf srv dev" and "n = unat (p_n_regions msg)" and "n \<le> MAX_REGIONS"
    and "0 < msg_size msg" and "8 + 32 * n \<le> unat (msg_size msg)"
    and "length (p_regions msg) = MAX_REGIONS" and "length (p_fds msg) = n"
    and "va = (\<lambda>k. mmap srv (region_size (p_regions msg ! k)) (p_fds msg ! k) (mmap_offset (p_regions msg ! k)))"
    and "\<forall>k<n. va k \<noteq> -1"
  shows "\<exists>dev'. handle_set_mem_table srv dev msg = Inr dev' \<and> dev_wf srv dev' \<and> n_regions dev' = n
    \<and> (\<forall>k<n. region_vaddr dev' ! k = va k)
    \<and> (\<forall>k<MAX_REGIONS. region_vaddr dev ! k \<noteq> 0 \<longrightarrow>
         Unmapped (region_vaddr dev ! k) (region_size (regions dev ! k)) \<in> set (events dev'))
    \<and> (\<forall>k<MAX_REGIONS. region_fds dev ! k \<noteq> -1 \<longrightarrow> Closed (region_fds dev ! k) \<in> set (events dev'))
    \<and> (\<forall>k<n. \<forall>a. in_region (p_regions msg ! k) a \<and> (\<forall>j<k. \<not> in_region (p_regions msg ! j) a) \<longrightarrow>
         usfstl_vhost_user_to_va dev' a = Inr (va k + (a - user_addr (p_regions msg ! k))))"
proof -
  let ?c = "usfstl_vhost_user_clear_mappings dev"
  let ?fds = "p_fds msg @ drop n [-1, -1]"
  let ?d = "?c\<lparr>regions := set_regions (take n (p_regions msg)) (regions dev), n_regions := n, region_fds := ?fds\<rparr>"
  have len: "length (region_vaddr dev) = MAX_REGIONS" "length (region_fds dev) = MAX_REGIONS" "length (regions dev) = MAX_REGIONS"
    using assms(1) by (simp_all add: dev_wf_def)
  have r: "regions ?d ! k = p_regions msg ! k" "?fds ! k = p_fds msg ! k" if "k < n" for k
    using that assms(3,6,7) by (simp_all add: set_regions_def nth_append)
  have fds: "usfstl_vhost_user_get_msg_fds msg MAX_REGIONS [-1, -1] = Inr ?fds"
    using assms(3,7) by (cases "p_fds msg") (simp_all add: usfstl_vhost_user_get_msg_fds_def)
  let ?vs = "map (\<lambda>k. if k < n then va k else 0) [0, 1]"
  have vs: "map (\<lambda>k. if k < n then mmap srv (region_size (regions ?d ! k)) (region_fds ?d ! k) (mmap_offset (regions ?d ! k)) else 0) [0, 1] = ?vs"
    using r assms(8) by simp
  have maps: "usfstl_vhost_user_setup_mappings srv ?d = Inr (?d\<lparr>region_vaddr := ?vs\<rparr>)"
    using setup_mappings_ok [of ?d srv] assms(3,8,9) r clear_mappings_clears(1) [OF len(1,2)] unfolding vs by simp
  let ?e = "?d\<lparr>region_vaddr := ?vs\<rparr>"
  have run: "handle_set_mem_table srv dev msg = Inr ?e"
    using assms(2-5) fds maps clear_mappings_clears(2) [OF len(1,2)] by (simp add: handle_set_mem_table_def Let_def)
  have k2: "k = 0 \<or> k = 1" if "k < n" for k
    using that assms(3) by (auto simp: MAX_REGIONS_def)
  have "dev_wf srv ?e"
    using assms(1,3,6,7) by (auto simp: dev_wf_def set_regions_def MAX_REGIONS_def less_2_cases_iff)
  moreover have va: "\<forall>k<n. region_vaddr ?e ! k = va k"
  proof (intro allI impI)
    fix k
    assume "k < n"
    with k2 [OF this] show "region_vaddr ?e ! k = va k"
      by auto
  qed
  moreover have "usfstl_vhost_user_to_va ?e a = Inr (va k + (a - user_addr (p_regions msg ! k)))"
    if "k < n" "in_region (p_regions msg ! k) a" "\<forall>j<k. \<not> in_region (p_regions msg ! j) a" for k a
    using to_va_loop_first [of k n "regions ?e" "region_vaddr ?e" a] that r va assms(3,6) len(3)
    by (simp add: usfstl_vhost_user_to_va_def set_regions_def MAX_REGIONS_def)
  ultimately show ?thesis
    using run clear_mappings_events [OF _ len(1,2)] by (intro exI [of _ ?e]) auto
qed

section \<open>Well-formedness\<close>

lemma dev_wf_updates [simp]:
  "dev_wf srv (dev\<lparr>gmem := a\<rparr>) = dev_wf srv dev"
  "dev_wf srv (dev\<lparr>vloop := b\<rparr>) = dev_wf srv dev"
  "dev_wf srv (dev\<lparr>vsched := c\<rparr>) = dev_wf srv dev"
  "dev_wf srv (dev\<lparr>req_fd := d\<rparr>) = dev_wf srv dev"
  "dev_wf srv (dev\<lparr>dev_features := e\<rparr>) = dev_wf srv dev"
  "dev_wf srv (dev\<lparr>dev_protocol_features := e\<rparr>) = dev_wf srv dev"
  "dev_wf srv (log_event ev dev) = dev_wf srv dev"
  "dev_wf srv (with_virtq i f dev) = dev_wf srv dev"
  "dev_wf srv (set_entry_fd en n dev) = dev_wf srv dev"
  by (simp_all add: dev_wf_def log_event_def with_virtq_def set_entry_fd_def)

abbreviation keeps_wf :: "'x usfstl_vhost_user_server \<Rightarrow> 'x usfstl_vhost_user_dev_int res \<Rightarrow> bool" where
  "keeps_wf srv \<equiv> res_all (dev_wf srv)"

abbreviation keeps_wf2 :: "'x usfstl_vhost_user_server \<Rightarrow> ('a \<times> 'x usfstl_vhost_user_dev_int) res \<Rightarrow> bool" where
  "keeps_wf2 srv \<equiv> res_all (\<lambda>r. dev_wf srv (snd r))"

text \<open>The code outside of this file leaves the device well-formed.\<close>

definition wf_server :: "'x usfstl_vhost_user_server \<Rightarrow> bool" where
  "wf_server srv \<longleftrightarrow> (\<forall>dev. dev_wf srv dev \<longrightarrow>
     (\<forall>buf i. keeps_wf2 srv (ops_handle srv dev buf i)) \<and> (\<forall>n fds. dev_wf srv (snd (snd (srv_select srv n fds dev))))
     \<and> (\<forall>f d L. keeps_wf2 srv (srv_pre_handler srv f d (L, dev))) \<and> (\<forall>e L. keeps_wf2 srv (srv_handler srv e (L, dev))))"

lemma wf_bind: "keeps_wf srv m \<Longrightarrow> (\<And>x. dev_wf srv x \<Longrightarrow> res_all Q (f x)) \<Longrightarrow> res_all Q (bind_res m f)"
  by (rule res_all_bind)

lemma wf_bind2: "keeps_wf2 srv m \<Longrightarrow> (\<And>a x. dev_wf srv x \<Longrightarrow> res_all Q (f (a, x))) \<Longrightarrow> res_all Q (bind_res m f)"
  by (cases m) auto

lemma wf_bind_any:
  fixes m :: "'b res"
  shows "(\<And>x. res_all Q (f x)) \<Longrightarrow> res_all Q (bind_res m f)"
  by (cases m) auto

text \<open>Steps whose result is not a device.\<close>

lemmas wf_bind_other = wf_bind_any [where 'b = int] wf_bind_any [where 'b = virtq_state]
  wf_bind_any [where 'b = usfstl_loop] wf_bind_any [where 'b = "'x usfstl_scheduler"]
  wf_bind_any [where 'b = "int list"] wf_bind_any [where 'b = u64] wf_bind_any [where 'b = "vring_desc list"]
  wf_bind_any [where 'b = "iovec list \<times> iovec list"]

lemma wf_assert: "res_all Q k \<Longrightarrow> res_all Q (usfstl_assert c msg k)"
  by (simp add: usfstl_assert_def)

lemma get_virtq_buf_wf: "dev_wf srv dev \<Longrightarrow> keeps_wf2 srv (usfstl_vhost_user_get_virtq_buf fuel dev i fixed)"
  unfolding usfstl_vhost_user_get_virtq_buf_def Let_def
  by (auto intro!: wf_bind_other wf_assert)

lemma readable_handler_wf: "dev_wf srv dev \<Longrightarrow> keeps_wf2 srv (usfstl_vhost_user_readable_handler e (L, dev))"
  unfolding usfstl_vhost_user_readable_handler_def by (auto intro!: wf_bind_other)

lemma reply_pass_wf:
  assumes "wf_server srv" and "dev_wf srv dev"
  shows "keeps_wf srv (reply_pass srv dev)"
proof -
  obtain ret rd dev' where sel: "srv_select srv (loop_max_fd (vloop dev) + 1)
      (map (\<lambda>e. fd (loop_entry (vloop dev) e)) (g_usfstl_loop_entries (vloop dev))) dev = (ret, rd, dev')"
    by (metis surj_pair)
  have wf': "dev_wf srv dev'"
    using assms sel unfolding wf_server_def by (metis snd_conv)
  have h: "keeps_wf2 srv (srv_handler srv e (L, d))" if "dev_wf srv d" for e L d
    using that assms(1) by (auto simp: wf_server_def)
  have p: "keeps_wf2 srv (srv_pre_handler srv f dt (L, d))" if "dev_wf srv d" for f dt L d
    using that assms(1) by (auto simp: wf_server_def)
  show ?thesis
    unfolding reply_pass_def usfstl_loop_wait_and_handle_def Let_def sel
    using wf' by (auto intro!: wf_bind2 [of srv] wf_assert readable_handler_wf h p split: option.splits)
qed


lemma reply_wait_loop_wf:
  assumes "wf_server srv"
  shows "dev_wf srv dev \<Longrightarrow> keeps_wf srv (reply_wait_loop n srv dev)"
  by (induction n arbitrary: dev) (auto intro!: wf_bind [OF reply_pass_wf [OF assms]])

lemma send_msg_wf:
  assumes "wf_server srv" and "dev_wf srv dev"
  shows "keeps_wf srv (usfstl_vhost_user_send_msg fuel srv dev r i)"
  unfolding usfstl_vhost_user_send_msg_def Let_def
  using assms by (auto intro!: wf_assert wf_bind_other wf_bind [OF reply_wait_loop_wf] split: prod.split)

lemma send_virtq_buf_wf:
  assumes "wf_server srv" and "dev_wf srv dev"
  shows "keeps_wf srv (usfstl_vhost_user_send_virtq_buf fuel srv dev buf i)"
  unfolding usfstl_vhost_user_send_virtq_buf_def Let_def
  using assms by (auto intro!: wf_bind_other wf_bind [of srv] wf_assert send_msg_wf)

lemma handle_queue_loop_wf:
  assumes "wf_server srv"
  shows "dev_wf srv dev \<Longrightarrow> keeps_wf srv (handle_queue_loop n srv fb dev i)"
proof (induction n arbitrary: dev fb)
  case (Suc n)
  have h: "dev_wf srv d \<Longrightarrow> keeps_wf2 srv (ops_handle srv d b i)" for d b
    using assms by (auto simp: wf_server_def)
  show ?case
    using Suc
    by (auto intro!: wf_bind2 [OF get_virtq_buf_wf] wf_bind2 [OF h] wf_bind [OF send_virtq_buf_wf [OF assms]]
        simp: usfstl_vhost_user_send_response_def split: option.split)
qed simp

lemma job_callback_loop_wf:
  assumes "wf_server srv"
  shows "dev_wf srv dev \<Longrightarrow> keeps_wf srv (job_callback_loop fuel srv is dev)"
  by (induction "is" arbitrary: dev)
    (auto intro!: wf_bind_other wf_bind [OF handle_queue_loop_wf [OF assms]] simp: usfstl_vhost_user_handle_queue_def)

lemma virtq_kick_wf:
  assumes "wf_server srv" and "dev_wf srv dev"
  shows "keeps_wf srv (usfstl_vhost_user_virtq_kick fuel H srv dev i)"
  unfolding usfstl_vhost_user_virtq_kick_def Let_def usfstl_vhost_user_job_callback_def
  using assms by (auto intro!: wf_bind_other job_callback_loop_wf split: prod.split)

lemma update_virtq_kick_wf:
  "dev_wf srv dev \<Longrightarrow> keeps_wf srv (usfstl_vhost_user_update_virtq_kick dev i n)"
  unfolding usfstl_vhost_user_update_virtq_kick_def Let_def
  by (auto intro!: wf_bind_other wf_bind [of srv])

lemma setup_mappings_loop_wf:
  assumes "set is \<subseteq> {..<n_regions dev}" and "dev_wf srv dev"
  shows "keeps_wf srv (setup_mappings_loop srv is dev)"
  using assms
proof (induction "is" arbitrary: dev)
  case (Cons i "is")
  then show ?case
    by (auto simp: Let_def dev_wf_def nth_list_update intro!: wf_assert Cons.IH)
qed simp

lemma get_msg_fds_length:
  "usfstl_vhost_user_get_msg_fds msg n fds = Inr fds' \<Longrightarrow> length fds = n \<Longrightarrow> length fds' = n"
  by (auto simp: usfstl_vhost_user_get_msg_fds_def res_simps split: if_splits)

lemma set_mem_table_wf:
  assumes "dev_wf srv dev" and "length (p_regions msg) = MAX_REGIONS"
  shows "keeps_wf srv (handle_set_mem_table srv dev msg)"
proof (rule res_allI)
  fix dev'
  assume run: "handle_set_mem_table srv dev msg = Inr dev'"
  let ?n = "unat (p_n_regions msg)"
  let ?c = "usfstl_vhost_user_clear_mappings dev"
  have len: "length (region_vaddr dev) = MAX_REGIONS" "length (region_fds dev) = MAX_REGIONS" "length (regions dev) = MAX_REGIONS"
    using assms(1) by (simp_all add: dev_wf_def)
  note c = clear_mappings_clears [OF len(1,2)]
  obtain fds where n: "?n \<le> MAX_REGIONS" and fds: "usfstl_vhost_user_get_msg_fds msg MAX_REGIONS [-1, -1] = Inr fds"
    and s: "usfstl_vhost_user_setup_mappings srv (?c\<lparr>regions := set_regions (take ?n (p_regions msg)) (regions dev),
      n_regions := ?n, region_fds := fds\<rparr>) = Inr dev'"
    using run c(2) by (auto simp: handle_set_mem_table_def Let_def usfstl_assert_Inr_iff bind_res_Inr_iff)
  have "length fds = MAX_REGIONS"
    using get_msg_fds_length [OF fds] by (simp add: MAX_REGIONS_def)
  moreover have "length (set_regions (take ?n (p_regions msg)) (regions dev)) = MAX_REGIONS"
    using n assms(2) len(3) by (simp add: set_regions_def)
  ultimately have "dev_wf srv (?c\<lparr>regions := set_regions (take ?n (p_regions msg)) (regions dev),
      n_regions := ?n, region_fds := fds\<rparr>)"
    using n c(1) assms(1) by (auto simp: dev_wf_def MAX_REGIONS_def less_2_cases_iff)
  from setup_mappings_loop_wf [OF _ this, of "[0..<?n]"] s show "dev_wf srv dev'"
    by (simp add: usfstl_vhost_user_setup_mappings_def atLeast0LessThan)
qed

lemma set_vring_addr_wf: "dev_wf srv dev \<Longrightarrow> keeps_wf srv (handle_set_vring_addr srv dev msg)"
  unfolding handle_set_vring_addr_def Let_def
  by (intro wf_assert wf_bind_other) simp_all

lemma set_vring_kick_wf: "dev_wf srv dev \<Longrightarrow> keeps_wf srv (handle_set_vring_kick srv uninit dev msg)"
  unfolding handle_set_vring_kick_def Let_def
  by (intro wf_assert wf_bind_other update_virtq_kick_wf)

lemma set_vring_call_wf: "dev_wf srv dev \<Longrightarrow> keeps_wf srv (handle_set_vring_call srv dev msg)"
  unfolding handle_set_vring_call_def Let_def
  by (intro wf_assert wf_bind_other) simp_all

lemma set_slave_req_fd_wf: "dev_wf srv dev \<Longrightarrow> keeps_wf srv (handle_set_slave_req_fd dev msg)"
  unfolding handle_set_slave_req_fd_def Let_def
  by (intro wf_assert wf_bind_other) simp_all

lemma vring_state_wf: "dev_wf srv dev \<Longrightarrow> keeps_wf srv (with_vring_state srv dev msg f)"
  unfolding with_vring_state_def
  by (intro wf_assert wf_bind_other) simp_all

lemma if_rule: "res_all Q x \<Longrightarrow> res_all Q y \<Longrightarrow> res_all Q (if c then x else y)"
  by simp

lemma quiet_wf: "keeps_wf srv m \<Longrightarrow> keeps_wf2 srv (bind_res m (\<lambda>dev. Inr (NoReply, dev)))"
  by (rule wf_bind) simp_all

lemmas control_wf = set_mem_table_wf virtq_kick_wf set_vring_addr_wf set_vring_kick_wf set_vring_call_wf
  set_slave_req_fd_wf vring_state_wf



lemma example_wf: "dev_wf example_srv example_dev" "wf_server example_srv"
  by (auto simp: dev_wf_def wf_server_def example_srv_def example_dev_def MAX_REGIONS_def less_2_cases_iff)

text \<open>The table of the example has a second region and replaces the first one.\<close>

definition example_table :: vhost_user_msg where
  "example_table = (example_msg 5)\<lparr>msg_size := 72, p_n_regions := 2,
     p_regions := [\<lparr>guest_phys_addr = 0, region_size = 0x100, user_addr = 0x5000, mmap_offset = 0\<rparr>,
       \<lparr>guest_phys_addr = 0, region_size = 0x100, user_addr = 0x6000, mmap_offset = 0x100\<rparr>], p_fds := [3, 4]\<rparr>"

theorem set_mem_table_remaps_witness:
  "\<exists>dev'. handle_set_mem_table example_srv example_dev example_table = Inr dev'
     \<and> Unmapped 0x7000 0x1000 \<in> set (events dev') \<and> Closed 6 \<in> set (events dev')
     \<and> usfstl_vhost_user_to_va dev' 0x6010 = Inr 0x7010"
proof -
  have p: "2 = unat (p_n_regions example_table)" "2 \<le> MAX_REGIONS" "0 < msg_size example_table"
    "8 + 32 * 2 \<le> unat (msg_size example_table)" "length (p_regions example_table) = MAX_REGIONS"
    "length (p_fds example_table) = 2"
    "\<forall>k<2. (mmap example_srv (region_size (p_regions example_table ! k)) (p_fds example_table ! k)
      (mmap_offset (p_regions example_table ! k))) \<noteq> -1"
    by (simp_all add: example_table_def MAX_REGIONS_def example_srv_def word_greater_zero_iff)
  have r: "in_region (p_regions example_table ! 1) 0x6010" "\<not> in_region (p_regions example_table ! 0) 0x6010"
    "user_addr (p_regions example_table ! 1) = 0x6000" "mmap example_srv a b c = 0x7000"
    "region_vaddr example_dev ! 0 = 0x7000" "region_size (regions example_dev ! 0) = 0x1000"
    "region_fds example_dev ! 0 = 6" for a b c
    by (simp_all add: example_table_def in_region_def example_srv_def example_dev_def)
  from set_mem_table_remaps [OF example_wf(1) p(1-6) refl p(7)]
  obtain dev' where d: "handle_set_mem_table example_srv example_dev example_table = Inr dev'"
    "\<forall>k<MAX_REGIONS. region_vaddr example_dev ! k \<noteq> 0 \<longrightarrow>
       Unmapped (region_vaddr example_dev ! k) (region_size (regions example_dev ! k)) \<in> set (events dev')"
    "\<forall>k<MAX_REGIONS. region_fds example_dev ! k \<noteq> -1 \<longrightarrow> Closed (region_fds example_dev ! k) \<in> set (events dev')"
    and va: "\<forall>k<2. \<forall>a. in_region (p_regions example_table ! k) a \<and> (\<forall>j<k. \<not> in_region (p_regions example_table ! j) a) \<longrightarrow>
         usfstl_vhost_user_to_va dev' a = Inr (0x7000 + (a - user_addr (p_regions example_table ! k)))"
    unfolding r(4) by blast
  have "usfstl_vhost_user_to_va dev' 0x6010 = Inr 0x7010"
    using spec [OF va, of 1] r(1-3) by simp
  then show ?thesis
    using d r(5-7) by auto
qed


section \<open>Messages that break the device\<close>

definition kick_msg :: "vhost_user_msg \<Rightarrow> nat \<Rightarrow> bool \<Rightarrow> bool" where
  "kick_msg msg i no_fd \<longleftrightarrow> msg_size msg = 8 \<and> unat (p_u64 msg AND VHOST_USER_U64_VRING_IDX_MSK) = i
     \<and> (p_u64 msg AND VHOST_USER_U64_NO_FD \<noteq> 0) = no_fd \<and> length (p_fds msg) \<le> 1"

text \<open>
  C24: once a queue's kick descriptor has been removed by a message without
  descriptor, every further \<^verbatim>\<open>VHOST_USER_SET_VRING_KICK\<close> for this queue, with or without
  a descriptor, dereferences a null pointer: the loop entry still holds the closed
  descriptor, so it is unregistered a second time.
\<close>

theorem kick_removed_twice:
  assumes "i < length (virtqs dev)" and "i < max_queues srv"
    and "entry_fd dev (vq_entry (virtqs dev ! i)) \<noteq> -1" and "loop_inv (vloop dev)"
    and "vq_entry (virtqs dev ! i) \<in> set (g_usfstl_loop_entries (vloop dev))"
    and "kick_msg msg i True" and "kick_msg msg' i b"
  shows "\<exists>dev'. handle_set_vring_kick srv uninit dev msg = Inr dev'
    \<and> handle_set_vring_kick srv uninit dev' msg' = Inl NullDeref"
proof -
  let ?e = "vq_entry (virtqs dev ! i)"
  let ?L = "(vloop dev)\<lparr>g_usfstl_loop_entries := remove1 ?e (g_usfstl_loop_entries (vloop dev))\<rparr>"
  let ?dev = "log_event (Closed (entry_fd dev ?e)) (dev\<lparr>vloop := ?L\<rparr>)"
  have "handle_set_vring_kick srv uninit dev msg = Inr ?dev"
    using assms(1-3,5,6) by (simp add: handle_set_vring_kick_def kick_msg_def usfstl_vhost_user_update_virtq_kick_def
        virtq_at_def usfstl_loop_unregister_def)
  moreover have "usfstl_vhost_user_update_virtq_kick ?dev i n = Inl NullDeref" for n
    using assms(1,3,4) by (simp add: usfstl_vhost_user_update_virtq_kick_def virtq_at_def log_event_def entry_fd_def
        usfstl_loop_unregister_def loop_inv_def)
  moreover have "\<exists>fds. usfstl_vhost_user_get_msg_fds msg' 1 [uninit] = Inr fds"
    using assms(7) by (simp add: usfstl_vhost_user_get_msg_fds_def kick_msg_def)
  ultimately show ?thesis
    using assms(2,7) by (auto simp: handle_set_vring_kick_def kick_msg_def)
qed

text \<open>
  The number of queues itself passes the checks of \<^verbatim>\<open>VHOST_USER_SET_VRING_KICK\<close>,
  \<^verbatim>\<open>_CALL\<close> and \<^verbatim>\<open>_ADDR\<close> and of \<^verbatim>\<open>usfstl_vhost_user_dev_notify\<close>, which then access the
  array behind its end; \<^verbatim>\<open>VHOST_USER_SET_VRING_NUM\<close> and \<^verbatim>\<open>_ENABLE\<close> refuse it.
\<close>

theorem queue_index_off_by_one:
  assumes "length (virtqs dev) = max_queues srv" and "kick_msg kick (max_queues srv) b"
    and "msg_size addr = 40" and "unat (p_idx addr) = max_queues srv" and "p_num addr = 0"
    and "msg_size st = 8" and "unat (p_idx st) = max_queues srv"
  shows "handle_set_vring_kick srv uninit dev kick = Inl OutOfBounds
    \<and> handle_set_vring_call srv dev kick = Inl OutOfBounds
    \<and> handle_set_vring_addr srv dev addr = Inl OutOfBounds
    \<and> usfstl_vhost_user_dev_notify fuel srv dev (max_queues srv) data = Inl OutOfBounds
    \<and> with_vring_state srv dev st f = Inl (Assertion ''vring_state.idx < max_queues'')"
proof -
  have oob: "virtq_at dev (max_queues srv) = Inl OutOfBounds"
    using assms(1) by (simp add: virtq_at_def)
  have "\<exists>fds. usfstl_vhost_user_get_msg_fds kick 1 [uninit] = Inr fds"
    using assms(2) by (simp add: usfstl_vhost_user_get_msg_fds_def kick_msg_def)
  then show ?thesis
    using assms(2-7) oob
    by (auto simp: kick_msg_def handle_set_vring_kick_def handle_set_vring_call_def handle_set_vring_addr_def
        usfstl_vhost_user_update_virtq_kick_def usfstl_vhost_user_dev_notify_def with_vring_state_def usfstl_assert_def)
qed

definition example_kicks :: "unit usfstl_vhost_user_dev_int" where
  "example_kicks = set_entry_fd 1 7 (example_dev\<lparr>vloop := (vloop example_dev)\<lparr>g_usfstl_loop_entries := [0, 1]\<rparr>\<rparr>)"

theorem kick_removed_twice_witness:
  "\<exists>dev'. handle_set_vring_kick example_srv 0 example_kicks ((example_msg 12)\<lparr>msg_size := 8, p_u64 := 0x80\<rparr>) = Inr dev'
    \<and> handle_set_vring_kick example_srv 0 dev' ((example_msg 12)\<lparr>msg_size := 8, p_fds := [8]\<rparr>) = Inl NullDeref"
proof -
  have 1: "kick_msg ((example_msg 12)\<lparr>msg_size := 8, p_u64 := 0x80\<rparr>) 0 True"
    "kick_msg ((example_msg 12)\<lparr>msg_size := 8, p_fds := [8]\<rparr>) 0 False"
    by (simp_all add: kick_msg_def example_msg_def VHOST_USER_U64_VRING_IDX_MSK_def VHOST_USER_U64_NO_FD_def)
  have 2: "0 < length (virtqs example_kicks)" "0 < max_queues example_srv"
    "entry_fd example_kicks (vq_entry (virtqs example_kicks ! 0)) \<noteq> -1" "loop_inv (vloop example_kicks)"
    "vq_entry (virtqs example_kicks ! 0) \<in> set (g_usfstl_loop_entries (vloop example_kicks))"
    by (simp_all add: example_kicks_def example_dev_def example_srv_def example_virtq_def set_entry_fd_def entry_fd_def
        loop_inv_def entry_le_def)
  show ?thesis
    by (rule kick_removed_twice [OF 2 1])
qed

theorem queue_index_off_by_one_witness:
  "handle_set_vring_kick example_srv 0 example_dev ((example_msg 12)\<lparr>msg_size := 8, p_u64 := 0x81\<rparr>) = Inl OutOfBounds"
proof -
  have 1: "kick_msg ((example_msg 12)\<lparr>msg_size := 8, p_u64 := 0x81\<rparr>) (max_queues example_srv) True"
    by (simp add: kick_msg_def example_msg_def example_srv_def VHOST_USER_U64_VRING_IDX_MSK_def VHOST_USER_U64_NO_FD_def)
  have 2: "length (virtqs example_dev) = max_queues example_srv"
    "msg_size ((example_msg 9)\<lparr>msg_size := 40, p_idx := 1\<rparr>) = 40"
    "unat (p_idx ((example_msg 9)\<lparr>msg_size := 40, p_idx := 1\<rparr>)) = max_queues example_srv"
    "p_num ((example_msg 9)\<lparr>msg_size := 40, p_idx := 1\<rparr>) = 0"
    "msg_size ((example_msg 8)\<lparr>msg_size := 8, p_idx := 1\<rparr>) = 8"
    "unat (p_idx ((example_msg 8)\<lparr>msg_size := 8, p_idx := 1\<rparr>)) = max_queues example_srv"
    by (simp_all add: example_dev_def example_srv_def example_msg_def)
  show ?thesis
    using queue_index_off_by_one [OF 2(1) 1 2(2-6)] by blast
qed

end
