(* ===== verification/Pci.thy ===== *)
theory Pci
  imports Vhost_Control
begin

text \<open>
  PCI devices on top of the vhost-user device, \<^verbatim>\<open>src/pci.c\<close> and \<^verbatim>\<open>pci.h\<close>: messages from
  the guest read and write the configuration space and the memory of the device,
  interrupts are messages to the guest. The PCI device is the \<open>env\<close> of the
  scheduler that the vhost-user device uses, so that one state has both; the
  device's callbacks are a record of optional functions.
\<close>

section \<open>Data\<close>

record 'p usfstl_pci_device =
  config_space :: "u8 list option"
  config_space_mask :: "u8 list option"
  config_space_size :: u32
  pci_priv :: 'p

type_synonym 'p pci_vdev = "'p usfstl_pci_device usfstl_vhost_user_dev_int"

text \<open>
  \<^verbatim>\<open>struct virtio_pcidev_msg\<close>, as it is read from the first output segment; \<open>msg_data\<close> is
  the address of the bytes behind it.
\<close>

record virtio_pcidev_msg =
  pm_op :: u8
  pm_bar :: u8
  pm_size :: u32
  pm_addr :: u64
  msg_data :: u64

text \<open>
  The callbacks. Those that answer at once act on the device's own data; the
  deferred ones get the buffer and may do anything with the state, such as sending
  the response. \<^verbatim>\<open>mmio_read\<close> is given what the buffer holds and returns what it
  holds afterwards.
\<close>

record 'p usfstl_pci_device_ops =
  pci_connected :: "'p usfstl_pci_device option"
  pci_disconnected :: "'p pci_vdev \<Rightarrow> 'p pci_vdev"
  cfg_space_read :: "('p \<Rightarrow> int \<Rightarrow> int \<Rightarrow> u64 \<times> 'p) option"
  cfg_space_write :: "('p \<Rightarrow> int \<Rightarrow> int \<Rightarrow> u64 \<Rightarrow> 'p) option"
  cfg_space_read_deferred :: "(int \<Rightarrow> int \<Rightarrow> usfstl_vhost_user_buf \<Rightarrow> 'p pci_vdev \<Rightarrow> 'p pci_vdev res) option"
  cfg_space_write_deferred :: "(int \<Rightarrow> u8 list \<Rightarrow> int \<Rightarrow> usfstl_vhost_user_buf \<Rightarrow> 'p pci_vdev \<Rightarrow> 'p pci_vdev res) option"
  mmio_read :: "('p \<Rightarrow> int \<Rightarrow> u8 list \<Rightarrow> u64 \<Rightarrow> u64 \<Rightarrow> u8 list \<times> 'p) option"
  mmio_write :: "('p \<Rightarrow> int \<Rightarrow> u64 \<Rightarrow> u8 list \<Rightarrow> u64 \<Rightarrow> 'p) option"
  mmio_set :: "('p \<Rightarrow> int \<Rightarrow> u64 \<Rightarrow> u8 \<Rightarrow> u64 \<Rightarrow> 'p) option"
  mmio_read_deferred :: "(int \<Rightarrow> u64 \<Rightarrow> u64 \<Rightarrow> usfstl_vhost_user_buf \<Rightarrow> 'p pci_vdev \<Rightarrow> 'p pci_vdev res) option"
  mmio_write_deferred :: "(int \<Rightarrow> u64 \<Rightarrow> u8 list \<Rightarrow> u64 \<Rightarrow> usfstl_vhost_user_buf \<Rightarrow> 'p pci_vdev \<Rightarrow> 'p pci_vdev res) option"
  mmio_set_deferred :: "(int \<Rightarrow> u64 \<Rightarrow> u8 \<Rightarrow> u64 \<Rightarrow> usfstl_vhost_user_buf \<Rightarrow> 'p pci_vdev \<Rightarrow> 'p pci_vdev res) option"

definition VIRTIO_PCIDEV_OP_CFG_READ :: u8 where "VIRTIO_PCIDEV_OP_CFG_READ = 1"
definition VIRTIO_PCIDEV_OP_CFG_WRITE :: u8 where "VIRTIO_PCIDEV_OP_CFG_WRITE = 2"
definition VIRTIO_PCIDEV_OP_MMIO_READ :: u8 where "VIRTIO_PCIDEV_OP_MMIO_READ = 3"
definition VIRTIO_PCIDEV_OP_MMIO_WRITE :: u8 where "VIRTIO_PCIDEV_OP_MMIO_WRITE = 4"
definition VIRTIO_PCIDEV_OP_MMIO_MEMSET :: u8 where "VIRTIO_PCIDEV_OP_MMIO_MEMSET = 5"
definition VIRTIO_PCIDEV_OP_INT :: u8 where "VIRTIO_PCIDEV_OP_INT = 6"
definition VIRTIO_PCIDEV_OP_MSI :: u8 where "VIRTIO_PCIDEV_OP_MSI = 7"
definition VIRTIO_PCIDEV_OP_PME :: u8 where "VIRTIO_PCIDEV_OP_PME = 8"

definition pcidev :: "'p pci_vdev \<Rightarrow> 'p usfstl_pci_device" where
  "pcidev dev = env (vsched dev)"

definition with_pcidev :: "('p usfstl_pci_device \<Rightarrow> 'p usfstl_pci_device) \<Rightarrow> 'p pci_vdev \<Rightarrow> 'p pci_vdev" where
  "with_pcidev f dev = dev\<lparr>vsched := (vsched dev)\<lparr>env := f (env (vsched dev))\<rparr>\<rparr>"

definition guest_write :: "u64 \<Rightarrow> u8 list \<Rightarrow> 'x usfstl_vhost_user_dev_int \<Rightarrow> 'x usfstl_vhost_user_dev_int" where
  "guest_write a bs dev = dev\<lparr>gmem := (gmem dev)\<lparr>m_bytes := store_bytes (m_bytes (gmem dev)) a bs\<rparr>\<rparr>"

definition guest_read :: "'x usfstl_vhost_user_dev_int \<Rightarrow> u64 \<Rightarrow> nat \<Rightarrow> u8 list" where
  "guest_read dev a n = load_bytes (m_bytes (gmem dev)) a n"

text \<open>The argument types of the callbacks: an \<^verbatim>\<open>int\<close> gets the low 32 bits.\<close>

definition as_int :: "u64 \<Rightarrow> int" where
  "as_int a = sint (ucast a :: u32)"

section \<open>Operations\<close>

definition usfstl_vhost_pci_connected :: "'p usfstl_pci_device_ops \<Rightarrow> 'p pci_vdev \<Rightarrow> 'p pci_vdev res" where
  "usfstl_vhost_pci_connected ops dev =
     (case pci_connected ops of
        None \<Rightarrow> Inl (Assertion ''pcidev'')
      | Some p \<Rightarrow>
          let dev = with_pcidev (\<lambda>_. p) dev in
          usfstl_assert (cfg_space_read ops \<noteq> None \<or> cfg_space_read_deferred ops \<noteq> None
             \<or> (config_space p \<noteq> None \<and> config_space_size p \<noteq> 0)) ''can read the config space'' (
          usfstl_assert (cfg_space_write ops \<noteq> None \<or> cfg_space_write_deferred ops \<noteq> None
             \<or> (config_space p \<noteq> None \<and> config_space_mask p \<noteq> None \<and> config_space_size p \<noteq> 0))
             ''can write the config space'' (
          Inr dev)))"

definition usfstl_pci_send_response :: "nat \<Rightarrow> 'p usfstl_pci_device usfstl_vhost_user_server \<Rightarrow> 'p pci_vdev \<Rightarrow>
    usfstl_vhost_user_buf \<Rightarrow> 'p pci_vdev res" where
  "usfstl_pci_send_response fuel srv dev vubuf = usfstl_vhost_user_send_response fuel srv dev vubuf"

text \<open>
  The range check adds in 64 bits, where the sum may wrap; what is then accessed
  outside of the configuration space is not there.
\<close>

definition cfg_out_of_range :: "'p usfstl_pci_device \<Rightarrow> virtio_pcidev_msg \<Rightarrow> bool" where
  "cfg_out_of_range p msg \<longleftrightarrow> pm_addr msg + ucast (pm_size msg) > ucast (config_space_size p)"

definition usfstl_vhost_pci_cfg_read :: "nat \<Rightarrow> 'p usfstl_pci_device usfstl_vhost_user_server \<Rightarrow>
    'p usfstl_pci_device_ops \<Rightarrow> 'p pci_vdev \<Rightarrow> virtio_pcidev_msg \<Rightarrow> usfstl_vhost_user_buf \<Rightarrow> 'p pci_vdev res" where
  "usfstl_vhost_pci_cfg_read fuel srv ops dev msg buf =
     (let out = iov_base (in_sg buf ! 0);
          a = unat (pm_addr msg);
          n = unat (pm_size msg);
          p = pcidev dev
      in case (cfg_space_read ops, cfg_space_read_deferred ops) of
           (None, None) \<Rightarrow>
             if cfg_out_of_range p msg then Inr (guest_write out (replicate n 0) dev)
             else (case config_space p of
                 None \<Rightarrow> Inl NullDeref
               | Some cs \<Rightarrow>
                   if a + n \<le> length cs
                   then usfstl_pci_send_response fuel srv (guest_write out (take n (drop a cs)) dev) buf
                   else Inl OutOfBounds)
         | (_, Some deferred) \<Rightarrow> deferred (as_int (pm_addr msg)) (sint (pm_size msg)) buf dev
         | (Some read, None) \<Rightarrow>
             usfstl_assert (n = 1 \<or> n = 2 \<or> n = 4 \<or> n = 8) ''size'' (
             let (v, d) = read (pci_priv p) (as_int (pm_addr msg)) (sint (pm_size msg));
                 dev = with_pcidev (\<lambda>p. p\<lparr>pci_priv := d\<rparr>) dev
             in usfstl_pci_send_response fuel srv (guest_write out (le_bytes n (unat v)) dev) buf))"

fun cfg_write_loop :: "u8 list \<Rightarrow> u8 list \<Rightarrow> nat \<Rightarrow> u8 list \<Rightarrow> u8 list" where
  "cfg_write_loop msk val a [] = val"
| "cfg_write_loop msk val a (d # ds) =
     (let val = val[a := val ! a AND NOT (msk ! a)];
          val = val[a := val ! a OR (d AND msk ! a)]
      in cfg_write_loop msk val (Suc a) ds)"

definition usfstl_vhost_pci_cfg_write :: "nat \<Rightarrow> 'p usfstl_pci_device usfstl_vhost_user_server \<Rightarrow>
    'p usfstl_pci_device_ops \<Rightarrow> 'p pci_vdev \<Rightarrow> virtio_pcidev_msg \<Rightarrow> usfstl_vhost_user_buf \<Rightarrow> 'p pci_vdev res" where
  "usfstl_vhost_pci_cfg_write fuel srv ops dev msg buf =
     (let a = unat (pm_addr msg);
          n = unat (pm_size msg);
          data = guest_read dev (msg_data msg) n;
          p = pcidev dev
      in case (cfg_space_write ops, cfg_space_write_deferred ops) of
           (None, None) \<Rightarrow>
             if cfg_out_of_range p msg then Inr dev
             else (case (config_space p, config_space_mask p) of
                 (Some val, Some msk) \<Rightarrow>
                   if a + n \<le> length val \<and> a + n \<le> length msk
                   then usfstl_pci_send_response fuel srv
                          (with_pcidev (\<lambda>p. p\<lparr>config_space := Some (cfg_write_loop msk val a data)\<rparr>) dev) buf
                   else Inl OutOfBounds
               | _ \<Rightarrow> if n = 0 then usfstl_pci_send_response fuel srv dev buf else Inl NullDeref)
         | (_, Some deferred) \<Rightarrow> deferred (as_int (pm_addr msg)) data (sint (pm_size msg)) buf dev
         | (Some write, None) \<Rightarrow>
             usfstl_assert (n = 1 \<or> n = 2 \<or> n = 4 \<or> n = 8) ''size'' (
             let d = write (pci_priv p) (as_int (pm_addr msg)) (sint (pm_size msg)) (of_nat (of_le_bytes data))
             in usfstl_pci_send_response fuel srv (with_pcidev (\<lambda>p. p\<lparr>pci_priv := d\<rparr>) dev) buf))"

text \<open>The message at the start of the first output segment.\<close>

definition load_pcidev_msg :: "'x usfstl_vhost_user_dev_int \<Rightarrow> u64 \<Rightarrow> virtio_pcidev_msg" where
  "load_pcidev_msg dev a =
     \<lparr>pm_op = of_nat (of_le_bytes (guest_read dev a 1)), pm_bar = of_nat (of_le_bytes (guest_read dev (a + 1) 1)),
      pm_size = of_nat (of_le_bytes (guest_read dev (a + 4) 4)), pm_addr = of_nat (of_le_bytes (guest_read dev (a + 8) 8)),
      msg_data = a + 16\<rparr>"

definition sg_at :: "iovec list \<Rightarrow> nat \<Rightarrow> iovec res" where
  "sg_at sg i = (if i < length sg then Inr (sg ! i) else Inl OutOfBounds)"

text \<open>Where the data of a write is: behind the message, or in the second output segment.\<close>

definition pci_write_buf :: "usfstl_vhost_user_buf \<Rightarrow> virtio_pcidev_msg \<Rightarrow> u64 \<Rightarrow> u64 res" where
  "pci_write_buf buf msg need =
     (let v = out_sg buf ! 0 in
      if iov_len_of v > 16 then
        usfstl_assert (iov_len_of v \<ge> 16 + need) ''out_sg[0].iov_len >= sizeof(*msg) + size'' (Inr (msg_data msg))
      else
        bind_res (sg_at (out_sg buf) 1) (\<lambda>w.
        usfstl_assert (iov_len_of w \<ge> need) ''out_sg[1].iov_len >= size'' (Inr (iov_base w))))"

definition pci_mmio_read :: "nat \<Rightarrow> 'p usfstl_pci_device usfstl_vhost_user_server \<Rightarrow>
    'p usfstl_pci_device_ops \<Rightarrow> 'p pci_vdev \<Rightarrow> virtio_pcidev_msg \<Rightarrow> usfstl_vhost_user_buf \<Rightarrow> 'p pci_vdev res" where
  "pci_mmio_read fuel srv ops dev msg buf =
     bind_res (sg_at (in_sg buf) 0) (\<lambda>v.
     usfstl_assert (iov_len_of v \<ge> ucast (pm_size msg)) ''in_sg[0].iov_len >= msg->size'' (
     let n = unat (pm_size msg);
         dev = guest_write (iov_base v) (replicate n 0xff) dev
     in usfstl_assert (mmio_read ops \<noteq> None \<or> mmio_read_deferred ops \<noteq> None) ''ops->mmio_read || ops->mmio_read_deferred'' (
        case mmio_read ops of
          Some read \<Rightarrow>
            let (bs, d) = read (pci_priv (pcidev dev)) (uint (pm_bar msg)) (replicate n 0xff) (pm_addr msg) (ucast (pm_size msg))
            in usfstl_pci_send_response fuel srv
                 (guest_write (iov_base v) bs (with_pcidev (\<lambda>p. p\<lparr>pci_priv := d\<rparr>) dev)) buf
        | None \<Rightarrow> (case mmio_read_deferred ops of
              Some deferred \<Rightarrow> deferred (uint (pm_bar msg)) (pm_addr msg) (ucast (pm_size msg)) buf dev
            | None \<Rightarrow> Inl NullDeref))))"

definition pci_mmio_write :: "nat \<Rightarrow> 'p usfstl_pci_device usfstl_vhost_user_server \<Rightarrow>
    'p usfstl_pci_device_ops \<Rightarrow> 'p pci_vdev \<Rightarrow> virtio_pcidev_msg \<Rightarrow> usfstl_vhost_user_buf \<Rightarrow> 'p pci_vdev res" where
  "pci_mmio_write fuel srv ops dev msg buf =
     bind_res (pci_write_buf buf msg (ucast (pm_size msg))) (\<lambda>write_buf.
     let bs = guest_read dev write_buf (unat (pm_size msg))
     in usfstl_assert (mmio_write ops \<noteq> None \<or> mmio_write_deferred ops \<noteq> None) ''ops->mmio_write || ops->mmio_write_deferred'' (
        case mmio_write ops of
          Some write \<Rightarrow>
            let d = write (pci_priv (pcidev dev)) (uint (pm_bar msg)) (pm_addr msg) bs (ucast (pm_size msg))
            in usfstl_pci_send_response fuel srv (with_pcidev (\<lambda>p. p\<lparr>pci_priv := d\<rparr>) dev) buf
        | None \<Rightarrow> (case mmio_write_deferred ops of
              Some deferred \<Rightarrow> deferred (uint (pm_bar msg)) (pm_addr msg) bs (ucast (pm_size msg)) buf dev
            | None \<Rightarrow> Inl NullDeref)))"

definition pci_mmio_memset :: "nat \<Rightarrow> 'p usfstl_pci_device usfstl_vhost_user_server \<Rightarrow>
    'p usfstl_pci_device_ops \<Rightarrow> 'p pci_vdev \<Rightarrow> virtio_pcidev_msg \<Rightarrow> usfstl_vhost_user_buf \<Rightarrow> 'p pci_vdev res" where
  "pci_mmio_memset fuel srv ops dev msg buf =
     bind_res (pci_write_buf buf msg 1) (\<lambda>write_buf.
     let b = m_bytes (gmem dev) write_buf
     in usfstl_assert (mmio_set ops \<noteq> None \<or> mmio_set_deferred ops \<noteq> None) ''ops->mmio_set || ops->mmio_set_deferred'' (
        case mmio_set ops of
          Some fill \<Rightarrow>
            let d = fill (pci_priv (pcidev dev)) (uint (pm_bar msg)) (pm_addr msg) b (ucast (pm_size msg))
            in usfstl_pci_send_response fuel srv (with_pcidev (\<lambda>p. p\<lparr>pci_priv := d\<rparr>) dev) buf
        | None \<Rightarrow> (case mmio_set_deferred ops of
              Some deferred \<Rightarrow> deferred (uint (pm_bar msg)) (pm_addr msg) b (ucast (pm_size msg)) buf dev
            | None \<Rightarrow> Inl NullDeref)))"

definition usfstl_vhost_pci_handle :: "nat \<Rightarrow> 'p usfstl_pci_device usfstl_vhost_user_server \<Rightarrow>
    'p usfstl_pci_device_ops \<Rightarrow> 'p pci_vdev \<Rightarrow> usfstl_vhost_user_buf \<Rightarrow> 'p pci_vdev res" where
  "usfstl_vhost_pci_handle fuel srv ops dev buf =
     usfstl_assert (length (out_sg buf) \<ge> 1 \<and> iov_len_of (out_sg buf ! 0) \<ge> 16)
       ''buf->n_out_sg >= 1 && buf->out_sg[0].iov_len >= sizeof(*msg)'' (
     let msg = load_pcidev_msg dev (iov_base (out_sg buf ! 0)) in
     if pm_op msg = VIRTIO_PCIDEV_OP_CFG_READ then
       usfstl_assert (in_sg buf \<noteq> [] \<and> iov_len_of (in_sg buf ! 0) \<ge> ucast (pm_size msg))
         ''buf->n_in_sg && buf->in_sg[0].iov_len >= msg->size'' (
       usfstl_vhost_pci_cfg_read fuel srv ops dev msg buf)
     else if pm_op msg = VIRTIO_PCIDEV_OP_CFG_WRITE then
       usfstl_assert (iov_len_of (out_sg buf ! 0) \<ge> 16 + ucast (pm_size msg))
         ''buf->out_sg[0].iov_len >= sizeof(*msg) + msg->size'' (
       usfstl_vhost_pci_cfg_write fuel srv ops dev msg buf)
     else if pm_op msg = VIRTIO_PCIDEV_OP_MMIO_READ then pci_mmio_read fuel srv ops dev msg buf
     else if pm_op msg = VIRTIO_PCIDEV_OP_MMIO_WRITE then pci_mmio_write fuel srv ops dev msg buf
     else if pm_op msg = VIRTIO_PCIDEV_OP_MMIO_MEMSET then pci_mmio_memset fuel srv ops dev msg buf
     else Inr dev)"

definition usfstl_vhost_pci_disconnected :: "'p usfstl_pci_device_ops \<Rightarrow> 'p pci_vdev \<Rightarrow> 'p pci_vdev" where
  "usfstl_vhost_pci_disconnected ops dev = pci_disconnected ops dev"

text \<open>The initialiser for a server: two queues, handled out of band, with the PCI handlers.\<close>

definition VIRTIO_F_VERSION_1 :: nat where "VIRTIO_F_VERSION_1 = 32"

definition USFSTL_VHOST_USER_SERVER_PCI :: "nat \<Rightarrow> 'p usfstl_pci_device_ops \<Rightarrow>
    'p usfstl_pci_device usfstl_vhost_user_server \<Rightarrow> 'p usfstl_pci_device usfstl_vhost_user_server" where
  "USFSTL_VHOST_USER_SERVER_PCI fuel ops srv = srv\<lparr>max_queues := 2, input_queues := 1, deferred_handling := True,
     srv_features := push_bit VHOST_USER_F_PROTOCOL_FEATURES 1 OR push_bit VIRTIO_F_VERSION_1 1, config := None,
     ops_handle := (\<lambda>dev buf i. bind_res (usfstl_vhost_pci_handle fuel srv ops dev buf) (\<lambda>dev. Inr (buf, dev))),
     disconnected := usfstl_vhost_pci_disconnected ops\<rparr>"

text \<open>The bytes of a message to the guest.\<close>

definition pcidev_msg_bytes :: "u8 \<Rightarrow> u32 \<Rightarrow> u64 \<Rightarrow> u8 list" where
  "pcidev_msg_bytes op sz a = op # 0 # le_bytes 2 0 @ le_bytes 4 (unat sz) @ le_bytes 8 (unat a)"

definition usfstl_pci_send_int :: "nat \<Rightarrow> 'p usfstl_pci_device usfstl_vhost_user_server \<Rightarrow> 'p pci_vdev \<Rightarrow> int \<Rightarrow>
    'p pci_vdev res" where
  "usfstl_pci_send_int fuel srv dev number =
     usfstl_assert (number \<ge> 1 \<and> number \<le> 4) ''number >= 1 && number <= 4'' (
     usfstl_vhost_user_dev_notify fuel srv dev 1 (pcidev_msg_bytes VIRTIO_PCIDEV_OP_INT 0 (word_of_int number)))"

text \<open>\<open>pad\<close> are the four bytes that fill the structure up to its alignment.\<close>

definition usfstl_pci_send_msi :: "nat \<Rightarrow> 'p usfstl_pci_device usfstl_vhost_user_server \<Rightarrow> 'p pci_vdev \<Rightarrow>
    u8 list \<Rightarrow> u64 \<Rightarrow> bool \<Rightarrow> u32 \<Rightarrow> 'p pci_vdev res" where
  "usfstl_pci_send_msi fuel srv dev pad addr msix data =
     usfstl_vhost_user_dev_notify fuel srv dev 1
       (pcidev_msg_bytes VIRTIO_PCIDEV_OP_MSI (if msix then 4 else 2) addr
        @ (if msix then le_bytes 4 (unat data) else le_bytes 2 (unat data) @ [0, 0]) @ pad)"

definition usfstl_pci_send_pme :: "nat \<Rightarrow> 'p usfstl_pci_device usfstl_vhost_user_server \<Rightarrow> 'p pci_vdev \<Rightarrow> 'p pci_vdev res" where
  "usfstl_pci_send_pme fuel srv dev =
     usfstl_vhost_user_dev_notify fuel srv dev 1 (pcidev_msg_bytes VIRTIO_PCIDEV_OP_PME 0 0)"

definition usfstl_pci_pa_to_va :: "'p pci_vdev \<Rightarrow> u64 \<Rightarrow> u64 res" where
  "usfstl_pci_pa_to_va dev physaddr = usfstl_vhost_user_to_va dev physaddr"

definition usfstl_pci_dma_read :: "'p pci_vdev \<Rightarrow> u64 \<Rightarrow> u32 \<Rightarrow> u8 list res" where
  "usfstl_pci_dma_read dev physaddr sz =
     bind_res (usfstl_pci_pa_to_va dev physaddr) (\<lambda>va. Inr (guest_read dev va (unat sz)))"

definition usfstl_pci_dma_write :: "'p pci_vdev \<Rightarrow> u64 \<Rightarrow> u8 list \<Rightarrow> 'p pci_vdev res" where
  "usfstl_pci_dma_write dev physaddr bs =
     bind_res (usfstl_pci_pa_to_va dev physaddr) (\<lambda>va. Inr (guest_write va bs dev))"

section \<open>The configuration space\<close>

lemma cfg_write_loop_nth:
  assumes "a + length ds \<le> length val"
  shows "length (cfg_write_loop msk val a ds) = length val"
    and "k < length val \<Longrightarrow> cfg_write_loop msk val a ds ! k =
      (if a \<le> k \<and> k < a + length ds then (val ! k AND NOT (msk ! k)) OR (ds ! (k - a) AND msk ! k) else val ! k)"
  using assms by (induction msk val a ds rule: cfg_write_loop.induct)
    (auto simp: Let_def nth_list_update nth_Cons' Suc_diff_le not_less_eq_eq)

lemma load_store_bytes:
  assumes "length bs < 2 ^ 64"
  shows "load_bytes (store_bytes mem a bs) a (length bs) = bs"
proof -
  let ?as = "map (\<lambda>i. a + of_nat i) [0..<length bs]"
  have "inj_on (\<lambda>i. a + of_nat i :: u64) {0..<length bs}"
    using assms by (intro inj_onI) (simp add: word_of_nat_eq_iff take_bit_nat_eq_self)
  then have "distinct ?as"
    by (simp add: distinct_map)
  from store_at_map [OF this, of bs mem] show ?thesis
    by (simp add: load_bytes_eq store_bytes_eq comp_def)
qed

text \<open>A queue on which a buffer can be given back at once.\<close>

definition can_respond :: "'x usfstl_vhost_user_server \<Rightarrow> 'x usfstl_vhost_user_dev_int \<Rightarrow> nat \<Rightarrow> bool" where
  "can_respond srv dev i \<longleftrightarrow> i < length (virtqs dev) \<and> vq_num (virtqs dev ! i) \<noteq> 0 \<and> \<not> has_ctrl srv
     \<and> 0 \<le> call_fd (virtqs dev ! i) \<and> write_ok srv (call_fd (virtqs dev ! i))"

lemma can_respond_updates [simp]:
  "can_respond srv (guest_write a bs dev) i = can_respond srv dev i"
  "can_respond srv (with_pcidev f dev') i = can_respond srv dev' i"
  by (simp_all add: can_respond_def guest_write_def with_pcidev_def)

definition answered :: "'x usfstl_vhost_user_dev_int \<Rightarrow> 'x usfstl_vhost_user_dev_int \<Rightarrow> nat \<Rightarrow> bool" where
  "answered dev dev' i \<longleftrightarrow> m_used_idx (gmem dev') (vq_used (virtqs dev ! i)) = m_used_idx (gmem dev) (vq_used (virtqs dev ! i)) + 1
     \<and> events dev' = events dev @ [Called (call_fd (virtqs dev ! i))]"

lemma pci_send_response_ok:
  assumes "can_respond srv dev (buf_virtq_idx buf)"
  shows "\<exists>dev'. usfstl_pci_send_response fuel srv dev buf = Inr dev' \<and> answered dev dev' (buf_virtq_idx buf)
    \<and> pcidev dev' = pcidev dev \<and> m_bytes (gmem dev') = m_bytes (gmem dev) \<and> virtqs dev' = virtqs dev"
  using assms unfolding usfstl_pci_send_response_def can_respond_def
  by (subst send_response_step [OF _ refl]) (auto simp: answered_def pcidev_def log_event_def)

definition no_cfg_callbacks :: "'p usfstl_pci_device_ops \<Rightarrow> bool" where
  "no_cfg_callbacks ops \<longleftrightarrow> cfg_space_read ops = None \<and> cfg_space_read_deferred ops = None
     \<and> cfg_space_write ops = None \<and> cfg_space_write_deferred ops = None"

definition cfg_space_ok :: "'p usfstl_pci_device \<Rightarrow> u8 list \<Rightarrow> u8 list \<Rightarrow> bool" where
  "cfg_space_ok p val msk \<longleftrightarrow> config_space p = Some val \<and> config_space_mask p = Some msk
     \<and> length val = unat (config_space_size p) \<and> length msk = unat (config_space_size p)"

lemma in_range:
  assumes "unat (pm_addr msg) + unat (pm_size msg) \<le> unat (config_space_size p)"
  shows "\<not> cfg_out_of_range p msg"
proof -
  have "unat (config_space_size p) < 2 ^ 32"
    using unsigned_less [of "config_space_size p", where 'a = nat] by simp
  then have "unat (pm_addr msg + ucast (pm_size msg)) = unat (pm_addr msg) + unat (pm_size msg)"
    using assms by (simp add: unat_word_ariths)
  then show ?thesis
    using assms by (simp add: cfg_out_of_range_def not_less word_le_nat_alt)
qed

text \<open>
  C25: a configuration write without callbacks is answered and changes, in the range
  it names, exactly the bits that the mask allows, to the bits that were sent; a later
  read of that range is answered and gives the guest the resulting bytes.
\<close>

theorem pci_cfg_write_read:
  assumes "no_cfg_callbacks ops" and "cfg_space_ok (pcidev dev) val msk"
    and "a = unat (pm_addr msg)" and "n = unat (pm_size msg)" and "a + n \<le> length val"
    and "data = guest_read dev (msg_data msg) n" and "can_respond srv dev (buf_virtq_idx buf)"
    and "new = map (\<lambda>k. (val ! (a + k) AND NOT (msk ! (a + k))) OR (data ! k AND msk ! (a + k))) [0..<n]"
  shows "\<exists>dev'. usfstl_vhost_pci_cfg_write fuel srv ops dev msg buf = Inr dev' \<and> answered dev dev' (buf_virtq_idx buf)
    \<and> config_space (pcidev dev') = Some (take a val @ new @ drop (a + n) val)
    \<and> (\<forall>dev2 buf2. pcidev dev2 = pcidev dev' \<and> can_respond srv dev2 (buf_virtq_idx buf2) \<longrightarrow>
        (\<exists>dev3. usfstl_vhost_pci_cfg_read fuel srv ops dev2 msg buf2 = Inr dev3 \<and> answered dev2 dev3 (buf_virtq_idx buf2)
           \<and> guest_read dev3 (iov_base (in_sg buf2 ! 0)) n = new))"
proof -
  let ?p = "pcidev dev"
  have p: "config_space ?p = Some val" "config_space_mask ?p = Some msk" "a + n \<le> unat (config_space_size ?p)"
    "a + n \<le> length msk"
    using assms(2,5) by (simp_all add: cfg_space_ok_def)
  have r: "\<not> cfg_out_of_range ?p msg"
    using p(3) assms(3,4) by (intro in_range) simp
  have ld: "length data = n"
    using assms(6) by (simp add: guest_read_def load_bytes_eq)
  let ?val = "cfg_write_loop msk val a data"
  let ?dev1 = "with_pcidev (\<lambda>p. p\<lparr>config_space := Some ?val\<rparr>) dev"
  note cw = cfg_write_loop_nth [of a data val, unfolded ld, OF assms(5)]
  have val': "?val = take a val @ new @ drop (a + n) val"
    using assms(5) by (intro nth_equalityI) (auto simp: cw assms(8) nth_append)
  have w: "usfstl_vhost_pci_cfg_write fuel srv ops dev msg buf = usfstl_pci_send_response fuel srv ?dev1 buf"
    using assms(1,3-6) p r by (simp add: usfstl_vhost_pci_cfg_write_def no_cfg_callbacks_def)
  obtain dev' where dev': "usfstl_pci_send_response fuel srv ?dev1 buf = Inr dev'" "answered ?dev1 dev' (buf_virtq_idx buf)"
    "pcidev dev' = pcidev ?dev1"
    using pci_send_response_ok [of srv ?dev1 buf fuel] assms(7) by auto
  have p1: "pcidev ?dev1 = ?p\<lparr>config_space := Some ?val\<rparr>"
    by (simp add: pcidev_def with_pcidev_def)
  have rd: "\<exists>dev3. usfstl_vhost_pci_cfg_read fuel srv ops dev2 msg buf2 = Inr dev3 \<and> answered dev2 dev3 (buf_virtq_idx buf2)
      \<and> guest_read dev3 (iov_base (in_sg buf2 ! 0)) n = new"
    if pd: "pcidev dev2 = pcidev dev'" and cr: "can_respond srv dev2 (buf_virtq_idx buf2)" for dev2 buf2
  proof -
    let ?out = "iov_base (in_sg buf2 ! 0)"
    have r2: "\<not> cfg_out_of_range (pcidev dev2) msg"
      using r pd dev'(3) p1 by (simp add: cfg_out_of_range_def)
    have slice: "take n (drop a ?val) = new"
      using assms(5,8) by (simp add: val')
    have "usfstl_vhost_pci_cfg_read fuel srv ops dev2 msg buf2
        = usfstl_pci_send_response fuel srv (guest_write ?out new dev2) buf2"
      using assms(1,3-5) r2 pd dev'(3) p1 cw(1) slice
      by (simp add: usfstl_vhost_pci_cfg_read_def no_cfg_callbacks_def)
    moreover obtain dev3 where "usfstl_pci_send_response fuel srv (guest_write ?out new dev2) buf2 = Inr dev3"
      "answered (guest_write ?out new dev2) dev3 (buf_virtq_idx buf2)"
      "m_bytes (gmem dev3) = m_bytes (gmem (guest_write ?out new dev2))"
      using pci_send_response_ok [of srv "guest_write ?out new dev2" buf2 fuel] cr by auto
    moreover have "load_bytes (store_bytes (m_bytes (gmem dev2)) ?out new) ?out n = new"
      using load_store_bytes [of new] assms(4,8) unsigned_less [of "pm_size msg", where 'a = nat] by simp
    ultimately show ?thesis
      by (intro exI [of _ dev3]) (simp add: guest_read_def guest_write_def answered_def)
  qed
  show ?thesis
    using w dev' p1 rd by (intro exI [of _ dev']) (simp add: val' answered_def with_pcidev_def)
qed

text \<open>What the guest can see of a buffer being given back.\<close>

definition unanswered :: "'x usfstl_vhost_user_dev_int \<Rightarrow> 'x usfstl_vhost_user_dev_int \<Rightarrow> bool" where
  "unanswered dev dev' \<longleftrightarrow> m_used_idx (gmem dev') = m_used_idx (gmem dev)
     \<and> m_used_ring (gmem dev') = m_used_ring (gmem dev) \<and> events dev' = events dev \<and> virtqs dev' = virtqs dev"

definition cfg_request :: "'x usfstl_vhost_user_dev_int \<Rightarrow> usfstl_vhost_user_buf \<Rightarrow> virtio_pcidev_msg \<Rightarrow> bool" where
  "cfg_request dev buf msg \<longleftrightarrow> out_sg buf \<noteq> [] \<and> msg = load_pcidev_msg dev (iov_base (out_sg buf ! 0))
     \<and> 16 \<le> iov_len_of (out_sg buf ! 0)
     \<and> (pm_op msg = VIRTIO_PCIDEV_OP_CFG_READ \<and> in_sg buf \<noteq> [] \<and> ucast (pm_size msg) \<le> iov_len_of (in_sg buf ! 0)
        \<or> pm_op msg = VIRTIO_PCIDEV_OP_CFG_WRITE \<and> 16 + ucast (pm_size msg) \<le> iov_len_of (out_sg buf ! 0))"

text \<open>
  A configuration request that reaches past the end of the space is accepted but
  never answered: the used ring and the call descriptor are not touched, so the
  guest waits for ever. When the end of the range wraps around to a small address,
  the check does not notice and memory outside of the space is accessed.
\<close>

theorem pci_cfg_bad_range:
  assumes "no_cfg_callbacks ops" and "cfg_space_ok (pcidev dev) val msk" and "cfg_request dev buf msg"
    and "lim = unat (pm_addr msg) + unat (pm_size msg)" and "length val < lim"
  shows "(lim < 2 ^ 64 \<longrightarrow> (\<exists>dev'. usfstl_vhost_pci_handle fuel srv ops dev buf = Inr dev' \<and> unanswered dev dev'))
    \<and> (2 ^ 64 \<le> lim \<and> lim - 2 ^ 64 \<le> length val \<longrightarrow> usfstl_vhost_pci_handle fuel srv ops dev buf = Inl OutOfBounds)"
proof -
  let ?p = "pcidev dev"
  have oor: "cfg_out_of_range ?p msg \<longleftrightarrow> length val < lim mod 2 ^ 64"
    using assms(2,4) by (simp add: cfg_out_of_range_def word_less_nat_alt unat_word_ariths cfg_space_ok_def)
  have p: "config_space ?p = Some val" "config_space_mask ?p = Some msk"
    using assms(2) by (simp_all add: cfg_space_ok_def)
  have h: "usfstl_vhost_pci_handle fuel srv ops dev buf = (if pm_op msg = VIRTIO_PCIDEV_OP_CFG_READ
      then usfstl_vhost_pci_cfg_read fuel srv ops dev msg buf else usfstl_vhost_pci_cfg_write fuel srv ops dev msg buf)"
    using assms(3) by (auto simp: usfstl_vhost_pci_handle_def cfg_request_def Let_def usfstl_assert_def
        VIRTIO_PCIDEV_OP_CFG_READ_def VIRTIO_PCIDEV_OP_CFG_WRITE_def Suc_le_eq)
  show ?thesis
  proof (intro conjI impI)
    assume "lim < 2 ^ 64"
    then have "cfg_out_of_range ?p msg"
      using oor assms(5) by simp
    then show "\<exists>dev'. usfstl_vhost_pci_handle fuel srv ops dev buf = Inr dev' \<and> unanswered dev dev'"
      using assms(1) by (simp add: h usfstl_vhost_pci_cfg_read_def usfstl_vhost_pci_cfg_write_def no_cfg_callbacks_def
          unanswered_def guest_write_def Let_def)
  next
    assume w: "2 ^ 64 \<le> lim \<and> lim - 2 ^ 64 \<le> length val"
    have "lim < 2 ^ 64 + 2 ^ 32"
      using assms(4) unsigned_less [of "pm_addr msg", where 'a = nat] unsigned_less [of "pm_size msg", where 'a = nat] by simp
    with w have "lim mod 2 ^ 64 \<le> length val"
      by (simp add: le_mod_geq)
    then have "\<not> cfg_out_of_range ?p msg"
      using oor by simp
    then show "usfstl_vhost_pci_handle fuel srv ops dev buf = Inl OutOfBounds"
      using assms(1,4,5) p by (simp add: h usfstl_vhost_pci_cfg_read_def usfstl_vhost_pci_cfg_write_def no_cfg_callbacks_def)
  qed
qed

section \<open>Examples\<close>

definition example_pci_ops :: "unit usfstl_pci_device_ops" where
  "example_pci_ops = \<lparr>pci_connected = None, pci_disconnected = id, cfg_space_read = None, cfg_space_write = None,
     cfg_space_read_deferred = None, cfg_space_write_deferred = None, mmio_read = None, mmio_write = None, mmio_set = None,
     mmio_read_deferred = None, mmio_write_deferred = None, mmio_set_deferred = None\<rparr>"

definition example_pci_srv :: "unit usfstl_pci_device usfstl_vhost_user_server" where
  "example_pci_srv = \<lparr>max_queues = 2, input_queues = 1, deferred_handling = True, interrupt_latency = 0,
     has_scheduler = False, has_ctrl = False, srv_features = 0, srv_protocol_features = 0, config = None,
     ops_handle = (\<lambda>dev buf i. Inr (buf, dev)),
     ctrl_sync_to = Inr, ctrl_sync_from = Inr, write_ok = (\<lambda>f. 0 \<le> f), srv_select = (\<lambda>_ _ dev. (0, [], dev)),
     srv_pre_handler = (\<lambda>_ _. Inr), srv_handler = (\<lambda>_. Inr), reply_entry = 9, recv_answer = (\<lambda>_. ((12, 0), 0)),
     disconnected = id, mmap = (\<lambda>_ _ _. 0x7000)\<rparr>"

text \<open>Four bytes of configuration space, of which only some bits can be written; the guest's memory is filled with one byte.\<close>

definition example_pci :: "u8 \<Rightarrow> unit pci_vdev" where
  "example_pci b = \<lparr>dev_features = 0, dev_protocol_features = 0, dev_entry = 0, irq_job = 0, n_regions = 0,
     regions = [], region_fds = [-1, -1], region_vaddr = [0, 0], req_fd = -1, virtqs = [example_virtq, example_virtq],
     gmem = \<lparr>m_desc = (\<lambda>_ _. \<lparr>d_addr = 0x1400, d_len = 16, d_flags = 0, d_next = 1\<rparr>),
       m_avail_idx = (\<lambda>_. 1), m_avail_ring = (\<lambda>_ _. 0), m_used_idx = (\<lambda>_. 5),
       m_used_ring = (\<lambda>_ _. (0, 0)), m_bytes = (\<lambda>_. b)\<rparr>,
     vloop = \<lparr>g_usfstl_loop_entries = [0], loop_entry = (\<lambda>_. \<lparr>handler = 0, fd = -1, loop_priority = 0, loop_data = 0\<rparr>),
       g_usfstl_loop_pre_handler_fn = None, g_usfstl_loop_pre_handler_fn_data = 0\<rparr>,
     vsched = USFSTL_SCHEDULER ''vhost'' (\<lambda>_. \<lparr>start = 0, priority = 0, group = 0, job_name = [],
      job_data = 0, callback = 0, blocked = False, pending = False\<rparr>)
      \<lparr>config_space = Some [1, 2, 3, 4], config_space_mask = Some [0, 0xf0, 0x0f, 0xff], config_space_size = 4, pci_priv = ()\<rparr>,
     events = []\<rparr>"

definition example_pci_buf :: usfstl_vhost_user_buf where
  "example_pci_buf = \<lparr>in_sg = [\<lparr>iov_base = 0x9000, iov_len_of = 8\<rparr>], out_sg = [\<lparr>iov_base = 0x8000, iov_len_of = 0x20000000\<rparr>],
     written = 0, buf_virtq_idx = 0, buf_idx = 0, allocated = True\<rparr>"

definition example_pci_msg :: virtio_pcidev_msg where
  "example_pci_msg = \<lparr>pm_op = 2, pm_bar = 0, pm_size = 2, pm_addr = 1, msg_data = 0x8010\<rparr>"

lemma example_pci_facts:
  "no_cfg_callbacks example_pci_ops"
  "cfg_space_ok (pcidev (example_pci b)) [1, 2, 3, 4] [0, 0xf0, 0x0f, 0xff]"
  "can_respond example_pci_srv (example_pci b) (buf_virtq_idx example_pci_buf)"
  by (simp_all add: no_cfg_callbacks_def example_pci_ops_def cfg_space_ok_def pcidev_def example_pci_def
      USFSTL_SCHEDULER_def can_respond_def example_pci_srv_def example_pci_buf_def example_virtq_def)

theorem pci_cfg_write_read_witness:
  "\<exists>dev'. usfstl_vhost_pci_cfg_write 0 example_pci_srv example_pci_ops (example_pci 0xaa) example_pci_msg example_pci_buf = Inr dev'
    \<and> m_used_idx (gmem dev') 0x7200 = 6 \<and> config_space (pcidev dev') = Some [1, 0xa2, 0x0a, 4]"
proof -
  have 1: "1 = unat (pm_addr example_pci_msg)" "2 = unat (pm_size example_pci_msg)" "1 + 2 \<le> length [1, 2, 3, 4 :: u8]"
    by (simp_all add: example_pci_msg_def)
  have d: "guest_read (example_pci 0xaa) (msg_data example_pci_msg) 2 = [0xaa, 0xaa]"
    by (simp add: guest_read_def load_bytes_eq example_pci_def upt_conv_Cons)
  have e: "vq_used (virtqs (example_pci 0xaa) ! 0) = 0x7200" "m_used_idx (gmem (example_pci 0xaa)) 0x7200 = 5"
    "buf_virtq_idx example_pci_buf = 0"
    by (simp_all add: example_pci_def example_pci_buf_def example_virtq_def)
  obtain dev' where d': "usfstl_vhost_pci_cfg_write 0 example_pci_srv example_pci_ops (example_pci 0xaa) example_pci_msg
      example_pci_buf = Inr dev'" "answered (example_pci 0xaa) dev' (buf_virtq_idx example_pci_buf)"
    "config_space (pcidev dev') = Some (take 1 [1, 2, 3, 4] @
       map (\<lambda>k. ([1, 2, 3, 4] ! (1 + k) AND NOT ([0, 0xf0, 0x0f, 0xff] ! (1 + k)))
         OR ([0xaa, 0xaa] ! k AND [0, 0xf0, 0x0f, 0xff] ! (1 + k))) [0..<2] @ drop (1 + 2) [1, 2, 3, 4])"
    using pci_cfg_write_read [OF example_pci_facts(1) example_pci_facts(2) [of "0xaa"] 1 refl example_pci_facts(3) refl, of 0] unfolding d by blast
  then show ?thesis
    using e by (auto simp: upt_conv_Cons answered_def)
qed

text \<open>A write far outside: the guest's memory holds the same byte everywhere.\<close>

theorem pci_cfg_bad_range_witness:
  "\<exists>dev'. usfstl_vhost_pci_handle 0 example_pci_srv example_pci_ops (example_pci 2) example_pci_buf = Inr dev'
     \<and> unanswered (example_pci 2) dev'"
proof -
  let ?m = "load_pcidev_msg (example_pci 2) 0x8000"
  have m: "pm_op ?m = 2" "pm_addr ?m = 0x0202020202020202" "pm_size ?m = 0x02020202"
    by (simp_all add: load_pcidev_msg_def guest_read_def load_bytes_eq example_pci_def upt_conv_Cons)
  have c: "cfg_request (example_pci 2) example_pci_buf ?m"
    using m by (simp add: cfg_request_def example_pci_buf_def VIRTIO_PCIDEV_OP_CFG_WRITE_def word_le_nat_alt)
  have l: "length [1, 2, 3, 4 :: u8] < unat (pm_addr ?m) + unat (pm_size ?m)" "unat (pm_addr ?m) + unat (pm_size ?m) < 2 ^ 64"
    by (simp_all add: m)
  show ?thesis
    using pci_cfg_bad_range [OF example_pci_facts(1,2) c refl l(1)] l(2) by blast
qed

end
