(* ===== verification/Uds.thy ===== *)
theory Uds
  imports Loop
begin

text \<open>
  Unix domain sockets in the main loop, \<^verbatim>\<open>src/uds.c\<close>: servers that accept
  connections and clients whose descriptor is watched. The system calls act on a
  state of type \<open>'w\<close>; what \<^verbatim>\<open>malloc\<close> returns is an argument.
\<close>

section \<open>Data and operations\<close>

record usfstl_uds_server =
  uds_connected :: nat
  uds_server_data :: nat
  uds_name :: string

record usfstl_uds_client =
  uds_readable :: nat
  uds_client_data :: nat

record 'w uds_state =
  uds_loop :: usfstl_loop
  uds_server :: "entry_ptr \<Rightarrow> usfstl_uds_server"
  uds_client :: "entry_ptr \<Rightarrow> usfstl_uds_client"
  uds_os :: 'w

text \<open>What \<^verbatim>\<open>stat\<close> finds at a path.\<close>

datatype stat_result = StatSocket | StatOther | StatNoEntry | StatError

record 'w uds_calls =
  sys_stat :: "string \<Rightarrow> 'w \<Rightarrow> stat_result"
  sys_unlink :: "string \<Rightarrow> 'w \<Rightarrow> int \<times> 'w"
  sys_socket :: "'w \<Rightarrow> int \<times> 'w"
  sys_bind :: "int \<Rightarrow> string \<Rightarrow> 'w \<Rightarrow> int \<times> 'w"
  sys_listen :: "int \<Rightarrow> 'w \<Rightarrow> int \<times> 'w"
  sys_accept :: "int \<Rightarrow> 'w \<Rightarrow> int \<times> 'w"
  sys_connect :: "int \<Rightarrow> string \<Rightarrow> 'w \<Rightarrow> int \<times> 'w"
  sys_close :: "int \<Rightarrow> 'w \<Rightarrow> 'w"

text \<open>The numbers that stand for the pointers to the two handlers of this file.\<close>

definition UDS_ACCEPT_HANDLER :: nat where "UDS_ACCEPT_HANDLER = 3"
definition UDS_READABLE_HANDLER :: nat where "UDS_READABLE_HANDLER = 4"

text \<open>The callback that the handler calls, with the descriptor and the data it is given.\<close>

definition usfstl_uds_accept_handler :: "'w uds_calls \<Rightarrow> 'w uds_state \<Rightarrow> entry_ptr \<Rightarrow>
    (nat \<times> int \<times> nat) \<times> 'w uds_state" where
  "usfstl_uds_accept_handler C s entry =
     (let (newfd, w) = sys_accept C (fd (loop_entry (uds_loop s) entry)) (uds_os s)
      in ((uds_connected (uds_server s entry), newfd, uds_server_data (uds_server s entry)), s\<lparr>uds_os := w\<rparr>))"

text \<open>The loop entry of a new server or client: the other members are zero, or, for a server, not initialised.\<close>

definition new_entry :: "nat \<Rightarrow> int \<Rightarrow> int \<Rightarrow> usfstl_loop_entry" where
  "new_entry h f prio = \<lparr>handler = h, fd = f, loop_priority = prio, loop_data = 0\<rparr>"

definition register_entry :: "entry_ptr \<Rightarrow> usfstl_loop_entry \<Rightarrow> usfstl_loop \<Rightarrow> usfstl_loop" where
  "register_entry e en L = usfstl_loop_register (L\<lparr>loop_entry := (loop_entry L)(e := en)\<rparr>) e"

text \<open>\<open>uninit\<close> is the priority that the memory from \<^verbatim>\<open>malloc\<close> happens to hold.\<close>

definition usfstl_uds_create :: "'w uds_calls \<Rightarrow> 'w uds_state \<Rightarrow> entry_ptr option \<Rightarrow> int \<Rightarrow> string \<Rightarrow> nat \<Rightarrow> nat \<Rightarrow>
    'w uds_state res" where
  "usfstl_uds_create C s mem uninit path connected data =
     (case mem of
        None \<Rightarrow> Inl (Assertion ''uds'')
      | Some e \<Rightarrow>
          let st = sys_stat C path (uds_os s) in
          bind_res
            (if st = StatSocket \<or> st = StatOther then
               usfstl_assert (st = StatSocket) ''(buf.st_mode & S_IFMT) == S_IFSOCK'' (
               let (ret, w) = sys_unlink C path (uds_os s)
               in usfstl_assert (ret = 0) ''unlink(path) == 0'' (Inr w))
             else usfstl_assert (st = StatNoEntry) ''errno == ENOENT'' (Inr (uds_os s))) (\<lambda>w.
          let (f, w) = sys_socket C w;
              (ret, w) = sys_bind C f path w
          in usfstl_assert (ret = 0) ''bind == 0'' (
             let (ret, w) = sys_listen C f w
             in usfstl_assert (ret = 0) ''listen == 0'' (
                Inr (s\<lparr>uds_os := w,
                  uds_server := (uds_server s)(e := \<lparr>uds_connected = connected, uds_server_data = data, uds_name = path\<rparr>),
                  uds_loop := register_entry e (new_entry UDS_ACCEPT_HANDLER f uninit) (uds_loop s)\<rparr>)))))"

definition usfstl_uds_remove :: "'w uds_calls \<Rightarrow> 'w uds_state \<Rightarrow> string \<Rightarrow> 'w uds_state res" where
  "usfstl_uds_remove C s path =
     (case find (\<lambda>e. handler (loop_entry (uds_loop s) e) = UDS_ACCEPT_HANDLER \<and> uds_name (uds_server s e) = path)
             (g_usfstl_loop_entries (uds_loop s)) of
        None \<Rightarrow> Inl (Assertion ''found'')
      | Some e \<Rightarrow>
          let w = sys_close C (fd (loop_entry (uds_loop s) e)) (uds_os s)
          in bind_res (usfstl_loop_unregister (uds_loop s) e) (\<lambda>L.
             let (_, w) = sys_unlink C path w
             in Inr (s\<lparr>uds_os := w, uds_loop := L\<rparr>)))"

definition usfstl_uds_readable_handler :: "'w uds_state \<Rightarrow> entry_ptr \<Rightarrow> nat \<times> int \<times> nat" where
  "usfstl_uds_readable_handler s entry =
     (uds_readable (uds_client s entry), fd (loop_entry (uds_loop s) entry), uds_client_data (uds_client s entry))"

definition usfstl_uds_connect_raw :: "'w uds_calls \<Rightarrow> string \<Rightarrow> 'w \<Rightarrow> (int \<times> 'w) res" where
  "usfstl_uds_connect_raw C path w =
     (let (f, w) = sys_socket C w
      in usfstl_assert (f \<ge> 0) ''fd >= 0'' (
         let (err, w) = sys_connect C f path w
         in usfstl_assert (err = 0) ''err == 0'' (Inr (f, w))))"

definition usfstl_uds_connect :: "'w uds_calls \<Rightarrow> 'w uds_state \<Rightarrow> entry_ptr option \<Rightarrow> string \<Rightarrow> nat \<Rightarrow> nat \<Rightarrow>
    (int \<times> 'w uds_state) res" where
  "usfstl_uds_connect C s mem path readable data =
     (case mem of
        None \<Rightarrow> Inl (Assertion ''client'')
      | Some e \<Rightarrow>
          bind_res (usfstl_uds_connect_raw C path (uds_os s)) (\<lambda>(f, w).
          Inr (f, s\<lparr>uds_os := w,
            uds_client := (uds_client s)(e := \<lparr>uds_readable = readable, uds_client_data = data\<rparr>),
            uds_loop := register_entry e (new_entry UDS_READABLE_HANDLER f 0) (uds_loop s)\<rparr>)))"

definition usfstl_uds_disconnect :: "'w uds_calls \<Rightarrow> 'w uds_state \<Rightarrow> int \<Rightarrow> 'w uds_state res" where
  "usfstl_uds_disconnect C s f =
     (case find (\<lambda>e. handler (loop_entry (uds_loop s) e) = UDS_READABLE_HANDLER \<and> fd (loop_entry (uds_loop s) e) = f)
             (g_usfstl_loop_entries (uds_loop s)) of
        None \<Rightarrow> Inl (Assertion ''found'')
      | Some e \<Rightarrow>
          let w = sys_close C f (uds_os s)
          in bind_res (usfstl_loop_unregister (uds_loop s) e) (\<lambda>L. Inr (s\<lparr>uds_os := w, uds_loop := L\<rparr>)))"

section \<open>Connecting and disconnecting\<close>

lemma register_entry_entries:
  "set (g_usfstl_loop_entries (register_entry e en L)) = insert e (set (g_usfstl_loop_entries L))"
  "loop_entry (register_entry e en L) = (loop_entry L)(e := en)"
  by (simp_all add: register_entry_def usfstl_loop_register_def)

lemma unregister_entry:
  assumes "e \<notin> set (g_usfstl_loop_entries L)"
  shows "usfstl_loop_unregister (register_entry e en L) e = Inr (L\<lparr>loop_entry := (loop_entry L)(e := en)\<rparr>)"
  using assms by (simp add: register_entry_def unregister_register)

text \<open>
  C26: disconnecting the descriptor that a connection returned removes exactly the
  entry of this connection from the main loop, closes the descriptor, and leaves
  every other entry and its place as it was before the connection.
\<close>

theorem uds_connect_disconnect:
  assumes "usfstl_uds_connect C s (Some e) path readable data = Inr (f, s')"
    and "e \<notin> set (g_usfstl_loop_entries (uds_loop s))"
    and "\<forall>x \<in> set (g_usfstl_loop_entries (uds_loop s)). fd (loop_entry (uds_loop s) x) \<noteq> f"
  shows "\<exists>s''. usfstl_uds_disconnect C s' f = Inr s'' \<and> uds_os s'' = sys_close C f (uds_os s')
    \<and> g_usfstl_loop_entries (uds_loop s'') = g_usfstl_loop_entries (uds_loop s)
    \<and> (\<forall>x. x \<noteq> e \<longrightarrow> loop_entry (uds_loop s'') x = loop_entry (uds_loop s) x)"
proof -
  have s': "uds_loop s' = register_entry e (new_entry UDS_READABLE_HANDLER f 0) (uds_loop s)"
    using assms(1) by (auto simp: usfstl_uds_connect_def res_simps)
  have "find (\<lambda>e. handler (loop_entry (uds_loop s') e) = UDS_READABLE_HANDLER \<and> fd (loop_entry (uds_loop s') e) = f)
      (g_usfstl_loop_entries (uds_loop s')) = Some e"
    using assms(3) by (intro find_unique) (auto simp: s' register_entry_entries new_entry_def split: if_splits)
  then show ?thesis
    using unregister_entry [OF assms(2)] by (simp add: usfstl_uds_disconnect_def s')
qed

definition example_uds_calls :: "int list uds_calls" where
  "example_uds_calls = \<lparr>sys_stat = (\<lambda>_ _. StatNoEntry), sys_unlink = (\<lambda>_ w. (0, w)), sys_socket = (\<lambda>w. (5, w)),
     sys_bind = (\<lambda>_ _ w. (0, w)), sys_listen = (\<lambda>_ w. (0, w)), sys_accept = (\<lambda>_ w. (6, w)),
     sys_connect = (\<lambda>_ _ w. (0, w)), sys_close = (\<lambda>f w. f # w)\<rparr>"

definition example_uds :: "int list uds_state" where
  "example_uds = \<lparr>uds_loop = \<lparr>g_usfstl_loop_entries = [1],
       loop_entry = (\<lambda>_. \<lparr>handler = UDS_READABLE_HANDLER, fd = 3, loop_priority = 0, loop_data = 0\<rparr>),
       g_usfstl_loop_pre_handler_fn = None, g_usfstl_loop_pre_handler_fn_data = 0\<rparr>,
     uds_server = (\<lambda>_. \<lparr>uds_connected = 0, uds_server_data = 0, uds_name = []\<rparr>),
     uds_client = (\<lambda>_. \<lparr>uds_readable = 0, uds_client_data = 0\<rparr>), uds_os = []\<rparr>"

theorem uds_connect_disconnect_witness:
  "\<exists>s' s''. usfstl_uds_connect example_uds_calls example_uds (Some 2) ''sock'' 7 8 = Inr (5, s')
     \<and> usfstl_uds_disconnect example_uds_calls s' 5 = Inr s'' \<and> uds_os s'' = [5]
     \<and> g_usfstl_loop_entries (uds_loop s'') = [1]"
proof -
  obtain s' where s': "usfstl_uds_connect example_uds_calls example_uds (Some 2) ''sock'' 7 8 = Inr (5, s')" "uds_os s' = []"
    by (simp add: usfstl_uds_connect_def usfstl_uds_connect_raw_def example_uds_calls_def example_uds_def)
  have "2 \<notin> set (g_usfstl_loop_entries (uds_loop example_uds))"
    "\<forall>x \<in> set (g_usfstl_loop_entries (uds_loop example_uds)). fd (loop_entry (uds_loop example_uds) x) \<noteq> 5"
    by (simp_all add: example_uds_def)
  from uds_connect_disconnect [OF s'(1) this] show ?thesis
    using s' by (auto simp: example_uds_def example_uds_calls_def)
qed

end
