(* ===== verification/Schedctrl.thy ===== *)
theory Schedctrl
  imports Sched Uds
begin

text \<open>
  The client of the time controller, \<^verbatim>\<open>src/schedctrl.c\<close>: a scheduler that asks a
  controller for run time, by messages on a socket or through shared memory. The
  scheduler's \<open>env\<close> is the \<^verbatim>\<open>struct usfstl_sched_ctrl\<close> together with the function's
  static variables, the sockets and the main loop. Which functions the scheduler's
  pointers refer to is kept as \<open>hook_state\<close>. The shared memory is written by other
  processes only while this one waits, in \<^verbatim>\<open>select\<close> or \<^verbatim>\<open>recvmsg\<close>.
\<close>

section \<open>Data\<close>

record um_timetravel_msg =
  tt_op :: u32
  tt_seq :: u32
  tt_time :: u64

record um_timetravel_schedshm_client =
  capa :: u32
  flags :: u32
  req_time :: u64
  client_name :: u64

record um_timetravel_schedshm =
  version :: u32
  shm_len :: u32
  free_until :: u64
  shm_time :: u64
  running_id :: u16
  max_clients :: u16
  shm_clients :: "um_timetravel_schedshm_client list"

definition UM_TIMETRAVEL_ACK :: u32 where "UM_TIMETRAVEL_ACK = 0"
definition UM_TIMETRAVEL_START :: u32 where "UM_TIMETRAVEL_START = 1"
definition UM_TIMETRAVEL_REQUEST :: u32 where "UM_TIMETRAVEL_REQUEST = 2"
definition UM_TIMETRAVEL_WAIT :: u32 where "UM_TIMETRAVEL_WAIT = 3"
definition UM_TIMETRAVEL_GET :: u32 where "UM_TIMETRAVEL_GET = 4"
definition UM_TIMETRAVEL_UPDATE :: u32 where "UM_TIMETRAVEL_UPDATE = 5"
definition UM_TIMETRAVEL_RUN :: u32 where "UM_TIMETRAVEL_RUN = 6"
definition UM_TIMETRAVEL_FREE_UNTIL :: u32 where "UM_TIMETRAVEL_FREE_UNTIL = 7"
definition UM_TIMETRAVEL_GET_TOD :: u32 where "UM_TIMETRAVEL_GET_TOD = 8"
definition UM_TIMETRAVEL_BROADCAST :: u32 where "UM_TIMETRAVEL_BROADCAST = 9"

lemmas timetravel_ops = UM_TIMETRAVEL_ACK_def UM_TIMETRAVEL_START_def UM_TIMETRAVEL_REQUEST_def UM_TIMETRAVEL_WAIT_def
  UM_TIMETRAVEL_GET_def UM_TIMETRAVEL_UPDATE_def UM_TIMETRAVEL_RUN_def UM_TIMETRAVEL_FREE_UNTIL_def
  UM_TIMETRAVEL_GET_TOD_def UM_TIMETRAVEL_BROADCAST_def

definition UM_TIMETRAVEL_MAX_FDS :: nat where "UM_TIMETRAVEL_MAX_FDS = 2"
definition UM_TIMETRAVEL_SHARED_MEMFD :: nat where "UM_TIMETRAVEL_SHARED_MEMFD = 0"
definition UM_TIMETRAVEL_SHARED_LOGFD :: nat where "UM_TIMETRAVEL_SHARED_LOGFD = 1"
definition UM_TIMETRAVEL_SHARED_MAX_FDS :: nat where "UM_TIMETRAVEL_SHARED_MAX_FDS = 2"
definition UM_TIMETRAVEL_START_ACK_ID :: u64 where "UM_TIMETRAVEL_START_ACK_ID = 0xffff"
definition UM_TIMETRAVEL_SCHEDSHM_VERSION :: u32 where "UM_TIMETRAVEL_SCHEDSHM_VERSION = 2"
definition UM_TIMETRAVEL_SCHEDSHM_CAP_TIME_SHARE :: u32 where "UM_TIMETRAVEL_SCHEDSHM_CAP_TIME_SHARE = 1"
definition UM_TIMETRAVEL_SCHEDSHM_FLAGS_REQ_RUN :: u32 where "UM_TIMETRAVEL_SCHEDSHM_FLAGS_REQ_RUN = 1"

datatype ctrl_hook_state = HooksNone | HooksMsg | HooksShm

text \<open>
  \<open>ctrl_attached\<close> says that \<^verbatim>\<open>ctrl->sched\<close> and \<^verbatim>\<open>sched->ext.ctrl\<close> are set. The offset is a
  signed number that is only ever added to and subtracted from 64-bit times. The
  messages written to the socket are recorded in \<open>sent\<close>.
\<close>

record 'w usfstl_sched_ctrl =
  ctrl_attached :: bool
  ack_time :: u64
  offset :: u64
  ctrl_nsec_per_tick :: u32
  ctrl_fd :: int
  ctrl_waiting :: bool
  acked :: bool
  frozen :: bool
  started :: bool
  expected_ack_seq :: u32
  shm_id :: u16
  shm_mem :: "um_timetravel_schedshm option"
  handle_bc_message :: "nat option"
  handle_msg_fds :: bool
  msg_seq :: u32
  old_expected :: u32
  hook_state :: ctrl_hook_state
  sent :: "um_timetravel_msg list"
  ctrl_entry :: entry_ptr
  ctrl_uds :: "'w uds_state"

type_synonym 'w csched = "'w usfstl_sched_ctrl usfstl_scheduler"

text \<open>
  What lies outside: the socket calls, \<^verbatim>\<open>select\<close>, the next message on the socket with
  the descriptors it carries, writing a message, the broadcast handler, the other
  handlers of the main loop, and the memory behind a descriptor.
\<close>

record 'w ctrl_os =
  ctrl_calls :: "'w uds_calls"
  ctrl_select :: "u32 \<Rightarrow> int list \<Rightarrow> 'w csched \<Rightarrow> int \<times> int list \<times> 'w csched"
  ctrl_recv :: "'w csched \<Rightarrow> (int \<times> um_timetravel_msg \<times> int list) \<times> 'w csched"
  ctrl_write :: "int \<Rightarrow> um_timetravel_msg \<Rightarrow> 'w \<Rightarrow> int \<times> 'w"
  ctrl_bc :: "nat \<Rightarrow> u64 \<Rightarrow> 'w csched \<Rightarrow> 'w csched res"
  ctrl_other_handler :: "entry_ptr \<Rightarrow> usfstl_loop \<times> 'w csched \<Rightarrow> (usfstl_loop \<times> 'w csched) res"
  ctrl_pre_handler :: "nat \<Rightarrow> nat \<Rightarrow> usfstl_loop \<times> 'w csched \<Rightarrow> (usfstl_loop \<times> 'w csched) res"
  ctrl_map_shm :: "int \<Rightarrow> 'w \<Rightarrow> um_timetravel_schedshm option"
  ctrl_fdopen :: "int \<Rightarrow> 'w \<Rightarrow> bool"

definition with_ctrl :: "('w usfstl_sched_ctrl \<Rightarrow> 'w usfstl_sched_ctrl) \<Rightarrow> 'w csched \<Rightarrow> 'w csched" where
  "with_ctrl f s = s\<lparr>env := f (env s)\<rparr>"

definition ctrl_sys :: "'w csched \<Rightarrow> 'w" where
  "ctrl_sys s = uds_os (ctrl_uds (env s))"

definition with_sys :: "('w \<Rightarrow> 'w) \<Rightarrow> 'w csched \<Rightarrow> 'w csched" where
  "with_sys f = with_ctrl (\<lambda>c. c\<lparr>ctrl_uds := (ctrl_uds c)\<lparr>uds_os := f (uds_os (ctrl_uds c))\<rparr>\<rparr>)"

section \<open>Time in shared memory\<close>

text \<open>
  The functions behind \<^verbatim>\<open>external_get_time\<close> and \<^verbatim>\<open>external_set_time\<close>; they are only
  installed while the memory is mapped.
\<close>

definition schedctrl_get_time :: "u64 \<Rightarrow> 'w usfstl_sched_ctrl \<Rightarrow> u64 \<times> 'w usfstl_sched_ctrl" where
  "schedctrl_get_time cur c =
     (case shm_mem c of
        None \<Rightarrow> (cur, c)
      | Some m \<Rightarrow>
          if frozen c then (cur, c\<lparr>offset := shm_time m - cur * ucast (ctrl_nsec_per_tick c)\<rparr>)
          else (DIV_ROUND_UP (shm_time m - offset c) (ucast (ctrl_nsec_per_tick c)), c))"

definition schedctrl_set_time :: "'w usfstl_sched_ctrl \<Rightarrow> u64 \<Rightarrow> 'w usfstl_sched_ctrl res" where
  "schedctrl_set_time c time =
     (case shm_mem c of
        None \<Rightarrow> Inl NullDeref
      | Some m \<Rightarrow>
          let old_time = shm_time m;
              new_time = time * ucast (ctrl_nsec_per_tick c) + offset c
          in usfstl_assert (\<not> frozen c) ''!ctrl->frozen'' (
             usfstl_assert (running_id m = shm_id c) ''running_id == ctrl->shm.id'' (
             usfstl_assert (usfstl_time_cmp new_time (\<ge>) old_time) ''new_time >= old_time'' (
             usfstl_assert (usfstl_time_cmp new_time (\<le>) (free_until m)) ''new_time <= free_until'' (
             Inr (c\<lparr>shm_mem := Some (m\<lparr>shm_time := new_time\<rparr>)\<rparr>))))))"

definition ctrl_time_hooks :: "ctrl_hook_state \<Rightarrow> 'w usfstl_sched_ctrl sched_hooks" where
  "ctrl_time_hooks h = (if h = HooksShm
     then no_hooks\<lparr>external_get_time := Some schedctrl_get_time, external_set_time := Some schedctrl_set_time\<rparr>
     else no_hooks)"

text \<open>Reading and setting the time of the scheduler through whatever is installed.\<close>

definition ctrl_current_time :: "'w csched \<Rightarrow> u64 \<times> 'w csched" where
  "ctrl_current_time s = usfstl_sched_current_time (ctrl_time_hooks (hook_state (env s))) s"

definition ctrl_set_time :: "'w csched \<Rightarrow> u64 \<Rightarrow> 'w csched res" where
  "ctrl_set_time s time = usfstl_sched_set_time (ctrl_time_hooks (hook_state (env s))) s time"

text \<open>\<^verbatim>\<open>DIV_ROUND_UP(time - ctrl->offset, ctrl->nsec_per_tick)\<close>, with a division that traps.\<close>

definition ctrl_ticks_up :: "'w usfstl_sched_ctrl \<Rightarrow> u64 \<Rightarrow> u64 res" where
  "ctrl_ticks_up c time = (if ctrl_nsec_per_tick c = 0 then Inl DivByZero
     else Inr (DIV_ROUND_UP (time - offset c) (ucast (ctrl_nsec_per_tick c))))"

section \<open>Messages\<close>

text \<open>\<^verbatim>\<open>_usfstl_sched_ctrl_send_msg\<close>; a message has 16 bytes.\<close>

definition sched_ctrl_write_msg :: "'w ctrl_os \<Rightarrow> 'w csched \<Rightarrow> u32 \<Rightarrow> u64 \<Rightarrow> u32 \<Rightarrow> 'w csched res" where
  "sched_ctrl_write_msg OS s op time seq =
     (let msg = \<lparr>tt_op = op, tt_seq = seq, tt_time = time\<rparr>;
          (n, w) = ctrl_write OS (ctrl_fd (env s)) msg (ctrl_sys s)
      in usfstl_assert (n = 16) ''write == sizeof(msg)'' (
         Inr (with_ctrl (\<lambda>c. c\<lparr>sent := sent c @ [msg]\<rparr>) (with_sys (\<lambda>_. w) s))))"

definition sched_ctrl_get_msg_fds :: "int list \<Rightarrow> int list res" where
  "sched_ctrl_get_msg_fds fds = usfstl_assert (length fds \<le> UM_TIMETRAVEL_MAX_FDS) ''fds <= max_fds'' (Inr fds)"

definition schedshm_setup_shared_mem :: "'w ctrl_os \<Rightarrow> 'w csched \<Rightarrow> int list \<Rightarrow> 'w csched res" where
  "schedshm_setup_shared_mem OS s fds =
     usfstl_assert (shm_mem (env s) = None) ''ctrl->shm.mem == NULL'' (
     case ctrl_map_shm OS (fds ! UM_TIMETRAVEL_SHARED_MEMFD) (ctrl_sys s) of
       None \<Rightarrow> Inl (Assertion ''ctrl->shm.mem != MAP_FAILED'')
     | Some m \<Rightarrow>
         usfstl_assert (ctrl_fdopen OS (fds ! UM_TIMETRAVEL_SHARED_LOGFD) (ctrl_sys s)) ''ctrl->shm.flog'' (
         Inr (with_ctrl (\<lambda>c. c\<lparr>shm_mem := Some m\<rparr>) s)))"

definition schedshm_cleanup :: "'w csched \<Rightarrow> 'w csched" where
  "schedshm_cleanup s = with_ctrl (\<lambda>c. c\<lparr>shm_mem := None\<rparr>) s"

definition schedshm_handle_fds :: "'w ctrl_os \<Rightarrow> 'w csched \<Rightarrow> int list \<Rightarrow> (bool \<times> 'w csched) res" where
  "schedshm_handle_fds OS s fds =
     bind_res (schedshm_setup_shared_mem OS s fds) (\<lambda>s.
     case shm_mem (env s) of
       None \<Rightarrow> Inl NullDeref
     | Some m \<Rightarrow>
         if version m \<noteq> UM_TIMETRAVEL_SCHEDSHM_VERSION then Inr (True, schedshm_cleanup s)
         else Inr (False, s))"

definition with_client :: "u16 \<Rightarrow> (um_timetravel_schedshm_client \<Rightarrow> um_timetravel_schedshm_client) \<Rightarrow> 'w csched \<Rightarrow>
    'w csched res" where
  "with_client i f s =
     (case shm_mem (env s) of
        None \<Rightarrow> Inl NullDeref
      | Some m \<Rightarrow>
          if unat i < length (shm_clients m)
          then Inr (with_ctrl (\<lambda>c. c\<lparr>shm_mem := Some (m\<lparr>shm_clients := (shm_clients m)[unat i := f (shm_clients m ! unat i)]\<rparr>)\<rparr>) s)
          else Inl OutOfBounds)"

definition sched_ctrl_ack_start_handle :: "'w ctrl_os \<Rightarrow> 'w csched \<Rightarrow> um_timetravel_msg \<Rightarrow> int list \<Rightarrow> 'w csched res" where
  "sched_ctrl_ack_start_handle OS s msg fds =
     (let s = with_ctrl (\<lambda>c. c\<lparr>shm_id := ucast (tt_time msg AND UM_TIMETRAVEL_START_ACK_ID), handle_msg_fds := False\<rparr>) s in
      usfstl_assert (length fds = UM_TIMETRAVEL_SHARED_MAX_FDS) ''nr_fds == UM_TIMETRAVEL_SHARED_MAX_FDS'' (
      bind_res (schedshm_handle_fds OS s fds) (\<lambda>(stop, s).
      if stop then Inr s
      else
        let (now, s) = ctrl_current_time s;
            local = now * ucast (ctrl_nsec_per_tick (env s));
            s = with_ctrl (\<lambda>c. c\<lparr>offset := (case shm_mem c of None \<Rightarrow> 0 | Some m \<Rightarrow> shm_time m) - local,
                  hook_state := HooksShm\<rparr>) s
        in with_client (shm_id (env s)) (\<lambda>cl. cl\<lparr>capa := capa cl OR UM_TIMETRAVEL_SCHEDSHM_CAP_TIME_SHARE\<rparr>) s)))"

definition sched_ctrl_handle_fds :: "'w ctrl_os \<Rightarrow> 'w csched \<Rightarrow> um_timetravel_msg \<Rightarrow> int list \<Rightarrow> 'w csched res" where
  "sched_ctrl_handle_fds OS s msg fds =
     bind_res (sched_ctrl_get_msg_fds fds) (\<lambda>fds.
     if fds = [] then Inr s
     else bind_res (if handle_msg_fds (env s) then sched_ctrl_ack_start_handle OS s msg fds else Inr s) (\<lambda>s.
          Inr (with_sys (fold (sys_close (ctrl_calls OS)) fds) s)))"

definition usfstl_sched_ctrl_sock_read :: "'w ctrl_os \<Rightarrow> 'w csched \<Rightarrow> 'w csched res" where
  "usfstl_sched_ctrl_sock_read OS s =
     (let ((sz, msg, fds), s) = ctrl_recv OS s;
          op = tt_op msg;
          ack = (\<lambda>s. sched_ctrl_write_msg OS s UM_TIMETRAVEL_ACK 0 (tt_seq msg))
      in usfstl_assert (sz = 16) ''sz == sizeof(msg)'' (
         if op = UM_TIMETRAVEL_ACK then
           if tt_seq msg = expected_ack_seq (env s)
           then sched_ctrl_handle_fds OS (with_ctrl (\<lambda>c. c\<lparr>acked := True, ack_time := tt_time msg\<rparr>) s) msg fds
           else Inr s
         else if op = UM_TIMETRAVEL_RUN then
           let s = with_ctrl (\<lambda>c. c\<lparr>ctrl_waiting := False\<rparr>) s
           in case shm_mem (env s) of
                Some m \<Rightarrow> usfstl_assert (running_id m = shm_id (env s)) ''running_id == ctrl->shm.id'' (Inr s)
              | None \<Rightarrow>
                  bind_res (ctrl_ticks_up (env s) (tt_time msg)) (\<lambda>time.
                  bind_res (ctrl_set_time s time) ack)
         else if op = UM_TIMETRAVEL_FREE_UNTIL then
           if ctrl_nsec_per_tick (env s) = 0 then Inl DivByZero
           else bind_res (usfstl_sched_set_sync_time (ctrl_time_hooks (hook_state (env s))) s
                  ((tt_time msg - offset (env s)) div ucast (ctrl_nsec_per_tick (env s)))) ack
         else if op = UM_TIMETRAVEL_BROADCAST then
           bind_res (case handle_bc_message (env s) of None \<Rightarrow> Inr s | Some h \<Rightarrow> ctrl_bc OS h (tt_time msg) s) ack
         else if op = UM_TIMETRAVEL_START \<or> op = UM_TIMETRAVEL_REQUEST \<or> op = UM_TIMETRAVEL_WAIT
              \<or> op = UM_TIMETRAVEL_GET \<or> op = UM_TIMETRAVEL_UPDATE \<or> op = UM_TIMETRAVEL_GET_TOD
         then Inl (Assertion ''0'')
         else ack s))"

text \<open>One pass of the main loop; the controller's socket is one of its entries.\<close>

definition ctrl_loop_pass :: "'w ctrl_os \<Rightarrow> 'w csched \<Rightarrow> 'w csched res" where
  "ctrl_loop_pass OS s =
     bind_res (usfstl_loop_wait_and_handle (ctrl_select OS) (ctrl_pre_handler OS)
                 (\<lambda>e (L, s). if e = ctrl_entry (env s)
                    then bind_res (usfstl_sched_ctrl_sock_read OS s) (\<lambda>s. Inr (L, s))
                    else ctrl_other_handler OS e (L, s))
                 (uds_loop (ctrl_uds (env s))) s) (\<lambda>(L, s).
     Inr (with_ctrl (\<lambda>c. c\<lparr>ctrl_uds := (ctrl_uds c)\<lparr>uds_loop := L\<rparr>\<rparr>) s))"

fun ctrl_loop_while :: "nat \<Rightarrow> ('w usfstl_sched_ctrl \<Rightarrow> bool) \<Rightarrow> 'w ctrl_os \<Rightarrow> 'w csched \<Rightarrow> 'w csched res" where
  "ctrl_loop_while 0 P OS s = (if P (env s) then Inl OutOfFuel else Inr s)"
| "ctrl_loop_while (Suc n) P OS s =
     (if P (env s) then bind_res (ctrl_loop_pass OS s) (ctrl_loop_while n P OS) else Inr s)"

text \<open>The loop \<^verbatim>\<open>do seq++ while (seq == 0)\<close>.\<close>

definition next_seq :: "u32 \<Rightarrow> u32" where
  "next_seq n = (if n + 1 = 0 then n + 2 else n + 1)"

definition usfstl_sched_ctrl_send_msg :: "nat \<Rightarrow> 'w ctrl_os \<Rightarrow> 'w csched \<Rightarrow> u32 \<Rightarrow> u64 \<Rightarrow> 'w csched res" where
  "usfstl_sched_ctrl_send_msg fuel OS s op time =
     (let s = with_ctrl (\<lambda>c. c\<lparr>msg_seq := next_seq (msg_seq c)\<rparr>) s in
      bind_res (sched_ctrl_write_msg OS s op time (msg_seq (env s))) (\<lambda>s.
      if shm_mem (env s) \<noteq> None \<and> op = UM_TIMETRAVEL_WAIT then Inr s
      else
        let s = with_ctrl (\<lambda>c. c\<lparr>old_expected := expected_ack_seq c, expected_ack_seq := msg_seq c\<rparr>) s in
        usfstl_assert (\<not> acked (env s)) ''ctrl->acked == 0'' (
        bind_res (if op = UM_TIMETRAVEL_WAIT
                  then bind_res (usfstl_sched_ctrl_sock_read OS s) (\<lambda>s. usfstl_assert (acked (env s)) ''ctrl->acked'' (Inr s))
                  else Inr s) (\<lambda>s.
        bind_res (ctrl_loop_while fuel (\<lambda>c. \<not> acked c) OS s) (\<lambda>s.
        let s = with_ctrl (\<lambda>c. c\<lparr>acked := False, expected_ack_seq := old_expected c\<rparr>) s in
        if op = UM_TIMETRAVEL_GET then
          if frozen (env s) then
            let (now, s) = ctrl_current_time s;
                local = now * ucast (ctrl_nsec_per_tick (env s))
            in Inr (with_ctrl (\<lambda>c. c\<lparr>offset := ack_time c - local\<rparr>) s)
          else bind_res (ctrl_ticks_up (env s) (ack_time (env s))) (ctrl_set_time s)
        else Inr s)))))"

definition usfstl_sched_ctrl_send_bc :: "nat \<Rightarrow> 'w ctrl_os \<Rightarrow> 'w csched \<Rightarrow> u64 \<Rightarrow> 'w csched res" where
  "usfstl_sched_ctrl_send_bc fuel OS s bc_message =
     usfstl_assert (started (env s)) ''ctrl->started'' (
     usfstl_sched_ctrl_send_msg fuel OS s UM_TIMETRAVEL_BROADCAST bc_message)"

section \<open>Requests and waiting\<close>

definition ctrl_nsec :: "'w csched \<Rightarrow> u64 \<Rightarrow> u64" where
  "ctrl_nsec s time = time * ucast (ctrl_nsec_per_tick (env s)) + offset (env s)"

definition usfstl_sched_ctrl_request :: "nat \<Rightarrow> 'w ctrl_os \<Rightarrow> 'w csched \<Rightarrow> u64 \<Rightarrow>
    (usfstl_sched_req_status \<times> 'w csched) res" where
  "usfstl_sched_ctrl_request fuel OS s time =
     (if \<not> started (env s) then Inr (USFSTL_SCHED_REQ_STATUS_CAN_RUN, s)
      else bind_res (usfstl_sched_ctrl_send_msg fuel OS s UM_TIMETRAVEL_REQUEST (ctrl_nsec s time)) (\<lambda>s.
           Inr (USFSTL_SCHED_REQ_STATUS_WAIT, s)))"

definition usfstl_sched_ctrl_wait :: "nat \<Rightarrow> 'w ctrl_os \<Rightarrow> 'w csched \<Rightarrow> 'w csched res" where
  "usfstl_sched_ctrl_wait fuel OS s =
     (let s = with_ctrl (\<lambda>c. c\<lparr>ctrl_waiting := True\<rparr>) s in
      bind_res (usfstl_sched_ctrl_send_msg fuel OS s UM_TIMETRAVEL_WAIT (-1)) (\<lambda>s.
      bind_res (ctrl_loop_while fuel ctrl_waiting OS s) (\<lambda>s.
      case shm_mem (env s) of
        None \<Rightarrow> Inr s
      | Some m \<Rightarrow>
          if started (env s) then
            usfstl_assert (running_id m = shm_id (env s)) ''running_id == ctrl->shm.id'' (
            with_client (shm_id (env s)) (\<lambda>cl. cl\<lparr>flags := flags cl AND NOT UM_TIMETRAVEL_SCHEDSHM_FLAGS_REQ_RUN\<rparr>) s)
          else Inr s)))"

definition schedctrl_request_shm :: "nat \<Rightarrow> 'w ctrl_os \<Rightarrow> 'w csched \<Rightarrow> u64 \<Rightarrow>
    (usfstl_sched_req_status \<times> 'w csched) res" where
  "schedctrl_request_shm fuel OS s time =
     (let rt = ctrl_nsec s time in
      if \<not> started (env s) then Inr (USFSTL_SCHED_REQ_STATUS_CAN_RUN, s)
      else case shm_mem (env s) of
        None \<Rightarrow> Inl NullDeref
      | Some m \<Rightarrow>
          if unat (running_id m) \<ge> length (shm_clients m) then Inl OutOfBounds
          else if capa (shm_clients m ! unat (running_id m)) AND UM_TIMETRAVEL_SCHEDSHM_CAP_TIME_SHARE = 0 then
            bind_res (usfstl_sched_ctrl_send_msg fuel OS s UM_TIMETRAVEL_REQUEST rt) (\<lambda>s.
            Inr (USFSTL_SCHED_REQ_STATUS_WAIT, s))
          else
            usfstl_assert (usfstl_time_cmp rt (\<ge>) (shm_time m)) ''req_time >= current_time'' (
            if usfstl_time_cmp rt (<) (free_until m) \<and> \<not> ctrl_waiting (env s)
            then Inr (USFSTL_SCHED_REQ_STATUS_CAN_RUN, s)
            else
              let s = (if usfstl_time_cmp rt (<) (free_until m)
                       then with_ctrl (\<lambda>c. c\<lparr>shm_mem := Some (m\<lparr>free_until := rt\<rparr>)\<rparr>) s else s)
              in bind_res (with_client (shm_id (env s))
                    (\<lambda>cl. cl\<lparr>req_time := rt, flags := flags cl OR UM_TIMETRAVEL_SCHEDSHM_FLAGS_REQ_RUN\<rparr>) s) (\<lambda>s.
                 Inr (USFSTL_SCHED_REQ_STATUS_WAIT, s))))"

text \<open>The scheduler's function pointers.\<close>

definition ctrl_hooks :: "nat \<Rightarrow> 'w ctrl_os \<Rightarrow> ctrl_hook_state \<Rightarrow> 'w usfstl_sched_ctrl sched_hooks" where
  "ctrl_hooks fuel OS h =
     (case h of
        HooksNone \<Rightarrow> no_hooks
      | HooksMsg \<Rightarrow> no_hooks\<lparr>external_request := Some (usfstl_sched_ctrl_request fuel OS),
          external_wait := Some (usfstl_sched_ctrl_wait fuel OS)\<rparr>
      | HooksShm \<Rightarrow> (ctrl_time_hooks HooksShm)\<lparr>external_request := Some (schedctrl_request_shm fuel OS),
          external_wait := Some (usfstl_sched_ctrl_wait fuel OS)\<rparr>)"

definition usfstl_sched_ctrl_yield :: "nat \<Rightarrow> 'w ctrl_os \<Rightarrow> 'w csched \<Rightarrow> 'w csched res" where
  "usfstl_sched_ctrl_yield fuel OS s =
     (let (time, s) = ctrl_current_time s in
      bind_res (usfstl_sched_ctrl_request fuel OS s time) (\<lambda>(_, s). usfstl_sched_ctrl_wait fuel OS s))"

section \<open>Start and stop\<close>

text \<open>\<open>mem\<close> is the loop entry inside the memory that \<^verbatim>\<open>usfstl_uds_connect\<close> allocates.\<close>

definition SCHED_CTRL_SOCK_READ :: nat where "SCHED_CTRL_SOCK_READ = 1"

definition usfstl_sched_ctrl_start :: "nat \<Rightarrow> 'w ctrl_os \<Rightarrow> 'w csched \<Rightarrow> entry_ptr option \<Rightarrow> string \<Rightarrow> u32 \<Rightarrow> u64 \<Rightarrow>
    'w csched res" where
  "usfstl_sched_ctrl_start fuel OS s mem socket nsec client_id =
     usfstl_assert (\<not> ctrl_attached (env s)) ''ctrl->sched == NULL'' (
     let s = with_ctrl (\<lambda>c. c\<lparr>ctrl_attached := False, ack_time := 0, offset := 0, ctrl_nsec_per_tick := 0, ctrl_fd := 0,
               ctrl_waiting := False, acked := False, frozen := False, started := False, expected_ack_seq := 0,
               shm_id := 0, shm_mem := None, handle_bc_message := None, handle_msg_fds := False\<rparr>) s;
         (now, s) = ctrl_current_time s;
         s = with_ctrl (\<lambda>c. c\<lparr>offset := - now * ucast nsec, ctrl_nsec_per_tick := nsec, ctrl_attached := True\<rparr>) s
     in usfstl_assert (usfstl_sched_next_pending s None = None) ''usfstl_sched_next_pending(sched, NULL) == NULL'' (
        usfstl_assert (hook_state (env s) = HooksNone) ''sched->external_request == NULL'' (
        let s = with_ctrl (\<lambda>c. c\<lparr>hook_state := HooksMsg\<rparr>) s in
        bind_res (usfstl_uds_connect (ctrl_calls OS) (ctrl_uds (env s)) mem socket SCHED_CTRL_SOCK_READ 0) (\<lambda>(f, u).
        let s = with_ctrl (\<lambda>c. c\<lparr>ctrl_uds := u, ctrl_fd := f, ctrl_entry := the mem, ctrl_waiting := True,
                  handle_msg_fds := True\<rparr>) s
        in bind_res (usfstl_sched_ctrl_send_msg fuel OS s UM_TIMETRAVEL_START client_id) (\<lambda>s.
           let s = with_ctrl (\<lambda>c. c\<lparr>started := True, ctrl_waiting := False\<rparr>) s
           in case usfstl_sched_next_pending s None of
                None \<Rightarrow> Inr s
              | Some j \<Rightarrow>
                  usfstl_sched_ctrl_send_msg fuel OS s UM_TIMETRAVEL_REQUEST (start (jobs s j) * ucast nsec))))))"

definition usfstl_sched_ctrl_sync_to :: "nat \<Rightarrow> 'w ctrl_os \<Rightarrow> 'w csched \<Rightarrow> 'w csched res" where
  "usfstl_sched_ctrl_sync_to fuel OS s =
     usfstl_assert (started (env s)) ''ctrl->started'' (
     if shm_mem (env s) \<noteq> None then Inr s
     else
       let (now, s) = ctrl_current_time s
       in usfstl_sched_ctrl_send_msg fuel OS s UM_TIMETRAVEL_UPDATE (ctrl_nsec s now))"

definition usfstl_sched_ctrl_sync_from :: "nat \<Rightarrow> 'w ctrl_os \<Rightarrow> 'w csched \<Rightarrow> 'w csched res" where
  "usfstl_sched_ctrl_sync_from fuel OS s =
     (if \<not> started (env s) then Inr s
      else if shm_mem (env s) \<noteq> None then Inr s
      else usfstl_sched_ctrl_send_msg fuel OS s UM_TIMETRAVEL_GET (-1))"

definition usfstl_sched_ctrl_stop :: "'w ctrl_os \<Rightarrow> 'w csched \<Rightarrow> 'w csched res" where
  "usfstl_sched_ctrl_stop OS s =
     (if \<not> ctrl_attached (env s) then Inl NullDeref
      else bind_res (usfstl_uds_disconnect (ctrl_calls OS) (ctrl_uds (env s)) (ctrl_fd (env s))) (\<lambda>u.
           let s = schedshm_cleanup (with_ctrl (\<lambda>c. c\<lparr>ctrl_uds := u\<rparr>) s)
           in Inr (with_ctrl (\<lambda>c. c\<lparr>hook_state := HooksNone, ctrl_attached := False\<rparr>) s)))"

definition usfstl_sched_ctrl_set_frozen :: "'w csched \<Rightarrow> bool \<Rightarrow> 'w csched" where
  "usfstl_sched_ctrl_set_frozen s b = with_ctrl (\<lambda>c. c\<lparr>frozen := b\<rparr>) s"

section \<open>The protocol\<close>

text \<open>
  A controller whose messages wait in a queue: the socket is readable, reading
  takes the first message, and every message can be written.
\<close>

definition queue_controller :: "um_timetravel_msg list ctrl_os \<Rightarrow> bool" where
  "queue_controller OS \<longleftrightarrow> ctrl_write OS = (\<lambda>_ _ w. (16, w))
     \<and> ctrl_select OS = (\<lambda>_ _ s. (1, [ctrl_fd (env s)], s))
     \<and> ctrl_recv OS = (\<lambda>s. ((16, hd (ctrl_sys s), []), with_sys tl s))"

text \<open>The controller's socket is the first entry of the main loop for its descriptor.\<close>

definition ctrl_ready :: "'w csched \<Rightarrow> bool" where
  "ctrl_ready s \<longleftrightarrow> (let L = uds_loop (ctrl_uds (env s)) in
     find (\<lambda>e. fd (loop_entry L e) = ctrl_fd (env s)) (g_usfstl_loop_entries L) = Some (ctrl_entry (env s))
     \<and> g_usfstl_loop_pre_handler_fn L = None)"

lemma ctrl_pass_reads:
  assumes "queue_controller OS" and "ctrl_ready s" and "usfstl_sched_ctrl_sock_read OS s = Inr s'"
    and "uds_loop (ctrl_uds (env s')) = uds_loop (ctrl_uds (env s))"
  shows "ctrl_loop_pass OS s = Inr s'"
proof -
  have "with_ctrl (\<lambda>c. c\<lparr>ctrl_uds := (ctrl_uds c)\<lparr>uds_loop := uds_loop (ctrl_uds (env s))\<rparr>\<rparr>) s' = s'"
    using assms(4) by (simp add: with_ctrl_def)
  then show ?thesis
    using assms(1-3) by (simp add: ctrl_loop_pass_def usfstl_loop_wait_and_handle_def queue_controller_def ctrl_ready_def Let_def)
qed

lemma sock_read_ack:
  assumes "queue_controller OS" and "ctrl_sys s = msg # rest" and "tt_op msg = UM_TIMETRAVEL_ACK"
    and "tt_seq msg = expected_ack_seq (env s)"
  shows "usfstl_sched_ctrl_sock_read OS s
    = Inr (with_ctrl (\<lambda>c. c\<lparr>acked := True, ack_time := tt_time msg\<rparr>) (with_sys (\<lambda>_. rest) s))"
  using assms by (simp add: usfstl_sched_ctrl_sock_read_def queue_controller_def sched_ctrl_handle_fds_def
      sched_ctrl_get_msg_fds_def with_sys_def with_ctrl_def ctrl_sys_def)

text \<open>Sending a message that the controller acknowledges next.\<close>

lemma send_msg_acked:
  assumes "queue_controller OS" and "ctrl_ready s" and "shm_mem (env s) = None" and "\<not> acked (env s)"
    and "ctrl_sys s = ack # rest" and "tt_op ack = UM_TIMETRAVEL_ACK" and "tt_seq ack = next_seq (msg_seq (env s))"
    and "op \<noteq> UM_TIMETRAVEL_GET" and "0 < fuel"
  shows "usfstl_sched_ctrl_send_msg fuel OS s op time = Inr (with_ctrl (\<lambda>c. c
      \<lparr>msg_seq := next_seq (msg_seq c), sent := sent c @ [\<lparr>tt_op = op, tt_seq = next_seq (msg_seq c), tt_time = time\<rparr>],
       old_expected := expected_ack_seq c, ack_time := tt_time ack, ctrl_uds := (ctrl_uds c)\<lparr>uds_os := rest\<rparr>\<rparr>) s)"
    (is "_ = Inr ?s'")
proof -
  let ?m = "\<lparr>tt_op = op, tt_seq = next_seq (msg_seq (env s)), tt_time = time\<rparr>"
  let ?s1 = "with_ctrl (\<lambda>c. c\<lparr>msg_seq := next_seq (msg_seq c), sent := sent c @ [?m], old_expected := expected_ack_seq c,
       expected_ack_seq := next_seq (msg_seq c)\<rparr>) s"
  let ?s2 = "with_ctrl (\<lambda>c. c\<lparr>acked := True, ack_time := tt_time ack\<rparr>) (with_sys (\<lambda>_. rest) ?s1)"
  have rd: "usfstl_sched_ctrl_sock_read OS ?s1 = Inr ?s2"
    using assms by (intro sock_read_ack) (simp_all add: ctrl_sys_def with_ctrl_def)
  have pass: "ctrl_loop_pass OS ?s1 = Inr ?s2"
    using assms(1,2) rd by (intro ctrl_pass_reads) (simp_all add: ctrl_ready_def with_ctrl_def with_sys_def)
  obtain n where n: "fuel = Suc n"
    using assms(9) by (cases fuel) auto
  have "ctrl_loop_while fuel (\<lambda>c. \<not> acked c) OS ?s1 = Inr ?s2" "ctrl_loop_while fuel (\<lambda>c. \<not> acked c) OS ?s2 = Inr ?s2"
    using pass assms(4) by (cases n; simp add: n with_ctrl_def with_sys_def)+
  moreover have w: "sched_ctrl_write_msg OS (with_ctrl (\<lambda>c. c\<lparr>msg_seq := next_seq (msg_seq c)\<rparr>) s) op time
      (next_seq (msg_seq (env s))) = Inr (with_ctrl (\<lambda>c. c\<lparr>msg_seq := next_seq (msg_seq c), sent := sent c @ [?m]\<rparr>) s)"
    using assms(1) by (simp add: sched_ctrl_write_msg_def queue_controller_def with_ctrl_def with_sys_def ctrl_sys_def)
  moreover have "with_ctrl (\<lambda>c. c\<lparr>acked := False, expected_ack_seq := old_expected c\<rparr>) ?s2 = ?s'"
    using assms(4) by (simp add: with_ctrl_def with_sys_def)
  ultimately show ?thesis
    using assms(3,4,8) rd
    by (cases "op = UM_TIMETRAVEL_WAIT") (simp_all add: usfstl_sched_ctrl_send_msg_def Let_def with_ctrl_def with_sys_def)
qed


lemma ticks_of_nsec:
  assumes "ctrl_nsec_per_tick (env s) \<noteq> 0" and "unat (ctrl_nsec_per_tick (env s)) * (unat t + 1) \<le> 2 ^ 64"
  shows "ctrl_ticks_up (env s) (ctrl_nsec s t) = Inr t"
  using DIV_ROUND_UP_exact [OF ratio_nonzero [OF assms(1)], of t] assms
  by (simp add: ctrl_ticks_up_def ctrl_nsec_def mult.commute)

text \<open>No job is due before a time that lies ahead.\<close>

definition may_go_to :: "'x usfstl_scheduler \<Rightarrow> u64 \<Rightarrow> bool" where
  "may_go_to s t \<longleftrightarrow> usfstl_time_cmp t (\<ge>) (current_time s)
     \<and> (case usfstl_sched_next_pending s None of None \<Rightarrow> True | Some j \<Rightarrow> usfstl_time_cmp t (\<le>) (start (jobs s j)))"

lemma sock_read_run:
  assumes "queue_controller OS" and "ctrl_sys s = run # rest" and "tt_op run = UM_TIMETRAVEL_RUN"
    and "shm_mem (env s) = None" and "hook_state (env s) = HooksMsg" and "ctrl_nsec_per_tick (env s) \<noteq> 0"
    and "unat (ctrl_nsec_per_tick (env s)) * (unat t + 1) \<le> 2 ^ 64" and "tt_time run = ctrl_nsec s t" and "may_go_to s t"
  shows "usfstl_sched_ctrl_sock_read OS s = Inr (with_ctrl (\<lambda>c. c\<lparr>ctrl_waiting := False,
      sent := sent c @ [\<lparr>tt_op = UM_TIMETRAVEL_ACK, tt_seq = tt_seq run, tt_time = 0\<rparr>],
      ctrl_uds := (ctrl_uds c)\<lparr>uds_os := rest\<rparr>\<rparr>) (s\<lparr>current_time := t\<rparr>))"
proof -
  let ?s = "with_ctrl (\<lambda>c. c\<lparr>ctrl_waiting := False\<rparr>) (with_sys (\<lambda>_. rest) s)"
  have "ctrl_ticks_up (env ?s) (tt_time run) = Inr t"
    using ticks_of_nsec [OF assms(6,7)] assms(6,8) by (simp add: ctrl_ticks_up_def with_ctrl_def with_sys_def)
  moreover have "ctrl_set_time ?s t = Inr (?s\<lparr>current_time := t\<rparr>)"
    using assms(5,9) by (simp add: ctrl_set_time_def ctrl_time_hooks_def usfstl_sched_set_time_def usfstl_sched_set_time_raw_def
        no_hooks_def may_go_to_def usfstl_sched_next_pending_def with_ctrl_def with_sys_def split: option.splits)
  moreover have "UM_TIMETRAVEL_RUN \<noteq> UM_TIMETRAVEL_ACK"
    by (simp add: timetravel_ops)
  ultimately show ?thesis
    using assms(1-4) by (simp add: usfstl_sched_ctrl_sock_read_def queue_controller_def Let_def sched_ctrl_write_msg_def
        with_ctrl_def with_sys_def ctrl_sys_def)
qed

lemma ctrl_wait_granted:
  assumes "queue_controller OS" and "ctrl_ready s" and "shm_mem (env s) = None" and "\<not> acked (env s)"
    and "hook_state (env s) = HooksMsg" and "ctrl_nsec_per_tick (env s) \<noteq> 0" and "0 < fuel"
    and "unat (ctrl_nsec_per_tick (env s)) * (unat t + 1) \<le> 2 ^ 64" and "tt_time run = ctrl_nsec s t" and "may_go_to s t"
    and "ctrl_sys s = [ack, run]" and "tt_op ack = UM_TIMETRAVEL_ACK" and "tt_seq ack = next_seq (msg_seq (env s))"
    and "tt_op run = UM_TIMETRAVEL_RUN"
  shows "\<exists>s'. usfstl_sched_ctrl_wait fuel OS s = Inr s' \<and> current_time s' = t \<and> \<not> ctrl_waiting (env s')
    \<and> sent (env s') = sent (env s) @ [\<lparr>tt_op = UM_TIMETRAVEL_WAIT, tt_seq = next_seq (msg_seq (env s)), tt_time = -1\<rparr>,
        \<lparr>tt_op = UM_TIMETRAVEL_ACK, tt_seq = tt_seq run, tt_time = 0\<rparr>]"
proof -
  let ?s = "with_ctrl (\<lambda>c. c\<lparr>ctrl_waiting := True\<rparr>) s"
  have g: "UM_TIMETRAVEL_WAIT \<noteq> UM_TIMETRAVEL_GET"
    by (simp add: timetravel_ops)
  let ?s1 = "with_ctrl (\<lambda>c. c\<lparr>msg_seq := next_seq (msg_seq c),
      sent := sent c @ [\<lparr>tt_op = UM_TIMETRAVEL_WAIT, tt_seq = next_seq (msg_seq c), tt_time = -1\<rparr>],
      old_expected := expected_ack_seq c, ack_time := tt_time ack, ctrl_uds := (ctrl_uds c)\<lparr>uds_os := [run]\<rparr>\<rparr>) ?s"
  have 1: "usfstl_sched_ctrl_send_msg fuel OS ?s UM_TIMETRAVEL_WAIT (-1) = Inr ?s1"
    using assms by (intro send_msg_acked g) (simp_all add: ctrl_ready_def ctrl_sys_def with_ctrl_def)
  let ?s2 = "with_ctrl (\<lambda>c. c\<lparr>ctrl_waiting := False,
      sent := sent c @ [\<lparr>tt_op = UM_TIMETRAVEL_ACK, tt_seq = tt_seq run, tt_time = 0\<rparr>],
      ctrl_uds := (ctrl_uds c)\<lparr>uds_os := []\<rparr>\<rparr>) (?s1\<lparr>current_time := t\<rparr>)"
  have "usfstl_sched_ctrl_sock_read OS ?s1 = Inr ?s2"
    using assms by (intro sock_read_run)
      (simp_all add: ctrl_sys_def with_ctrl_def ctrl_nsec_def may_go_to_def usfstl_sched_next_pending_def
        split: option.splits)
  then have "ctrl_loop_pass OS ?s1 = Inr ?s2"
    using assms(1,2) by (intro ctrl_pass_reads) (simp_all add: ctrl_ready_def with_ctrl_def)
  then have "ctrl_loop_while fuel ctrl_waiting OS ?s1 = Inr ?s2"
    using assms(7) by (cases fuel; cases "fuel - 1") (simp_all add: with_ctrl_def)
  then show ?thesis
    using 1 assms(3) by (intro exI [of _ ?s2]) (simp add: usfstl_sched_ctrl_wait_def with_ctrl_def)
qed

text \<open>
  C27: a scheduler that is attached to a controller and wants to move on asks for
  exactly that time, in the controller's nanoseconds, then tells it that it waits;
  when the controller acknowledges both and grants the time it was asked for, the
  scheduler resumes at precisely the tick it wanted and acknowledges the grant.
\<close>

theorem ctrl_forward_protocol:
  assumes "queue_controller OS" and "ctrl_ready s" and "shm_mem (env s) = None" and "\<not> acked (env s)"
    and "started (env s)" and "hook_state (env s) = HooksMsg" and "ctrl_nsec_per_tick (env s) \<noteq> 0" and "0 < fuel"
    and "unat (ctrl_nsec_per_tick (env s)) * (unat t + 1) \<le> 2 ^ 64" and "may_go_to s t"
    and "\<not> waiting s" and "\<not> next_external_sync_set s" and "ctrl_sys s = [ack, ack', run]"
    and "tt_op ack = UM_TIMETRAVEL_ACK" and "tt_seq ack = next_seq (msg_seq (env s))"
    and "tt_op ack' = UM_TIMETRAVEL_ACK" and "tt_seq ack' = next_seq (next_seq (msg_seq (env s)))"
    and "tt_op run = UM_TIMETRAVEL_RUN" and "tt_time run = ctrl_nsec s t"
  shows "\<exists>s'. usfstl_sched_forward (ctrl_hooks fuel OS HooksMsg) s t = Inr s' \<and> current_time s' = t
    \<and> map (\<lambda>m. (tt_op m, tt_time m)) (sent (env s')) = map (\<lambda>m. (tt_op m, tt_time m)) (sent (env s))
        @ [(UM_TIMETRAVEL_REQUEST, ctrl_nsec s t), (UM_TIMETRAVEL_WAIT, -1), (UM_TIMETRAVEL_ACK, 0)]
    \<and> \<not> ctrl_waiting (env s') \<and> \<not> waiting s'"
proof -
  let ?s0 = "s\<lparr>prev_external_sync := t, prev_external_sync_set := True\<rparr>"
  let ?s1 = "with_ctrl (\<lambda>c. c\<lparr>msg_seq := next_seq (msg_seq c),
      sent := sent c @ [\<lparr>tt_op = UM_TIMETRAVEL_REQUEST, tt_seq = next_seq (msg_seq c), tt_time = ctrl_nsec s t\<rparr>],
      old_expected := expected_ack_seq c, ack_time := tt_time ack, ctrl_uds := (ctrl_uds c)\<lparr>uds_os := [ack', run]\<rparr>\<rparr>) ?s0"
  have g: "UM_TIMETRAVEL_REQUEST \<noteq> UM_TIMETRAVEL_GET"
    by (simp add: timetravel_ops)
  have "usfstl_sched_ctrl_send_msg fuel OS ?s0 UM_TIMETRAVEL_REQUEST (ctrl_nsec s t) = Inr ?s1"
    using assms by (intro send_msg_acked g) (simp_all add: ctrl_ready_def ctrl_sys_def)
  then have 1: "usfstl_sched_external_request (ctrl_hooks fuel OS HooksMsg) s t = Inr (USFSTL_SCHED_REQ_STATUS_WAIT, ?s1)"
    using assms(5,11,12) by (simp add: usfstl_sched_external_request_def ctrl_hooks_def usfstl_sched_ctrl_request_def
        no_hooks_def ctrl_nsec_def)
  let ?s2 = "?s1\<lparr>prev_external_sync_set := False, waiting := True\<rparr>"
  have "\<exists>s'. usfstl_sched_ctrl_wait fuel OS ?s2 = Inr s' \<and> current_time s' = t \<and> \<not> ctrl_waiting (env s')
    \<and> sent (env s') = sent (env ?s2) @ [\<lparr>tt_op = UM_TIMETRAVEL_WAIT, tt_seq = next_seq (msg_seq (env ?s2)), tt_time = -1\<rparr>,
        \<lparr>tt_op = UM_TIMETRAVEL_ACK, tt_seq = tt_seq run, tt_time = 0\<rparr>]"
    using assms by (intro ctrl_wait_granted [where ack = ack'])
      (simp_all add: ctrl_ready_def ctrl_sys_def with_ctrl_def ctrl_nsec_def may_go_to_def usfstl_sched_next_pending_def
        split: option.splits)
  then obtain s' where s': "usfstl_sched_ctrl_wait fuel OS ?s2 = Inr s'" "current_time s' = t" "\<not> ctrl_waiting (env s')"
    "sent (env s') = sent (env ?s2) @ [\<lparr>tt_op = UM_TIMETRAVEL_WAIT, tt_seq = next_seq (msg_seq (env ?s2)), tt_time = -1\<rparr>,
        \<lparr>tt_op = UM_TIMETRAVEL_ACK, tt_seq = tt_seq run, tt_time = 0\<rparr>]"
    by blast
  have "usfstl_sched_external_wait (ctrl_hooks fuel OS HooksMsg) ?s1 = Inr (s'\<lparr>waiting := False\<rparr>)"
    using s'(1) by (simp add: usfstl_sched_external_wait_def ctrl_hooks_def)
  moreover have "usfstl_sched_current_time (ctrl_hooks fuel OS HooksMsg) s = (current_time s, s)"
    by (simp add: usfstl_sched_current_time_def ctrl_hooks_def no_hooks_def)
  moreover have "usfstl_time_cmp t (\<ge>) (current_time s)"
    using assms(10) by (simp add: may_go_to_def)
  ultimately have "usfstl_sched_forward (ctrl_hooks fuel OS HooksMsg) s t = Inr (s'\<lparr>waiting := False\<rparr>)"
    using 1 by (simp add: usfstl_sched_forward_def)
  then show ?thesis
    using s' by (intro exI [of _ "s'\<lparr>waiting := False\<rparr>"]) (simp add: with_ctrl_def)
qed

section \<open>Shared memory\<close>

text \<open>
  C28: setting the time of a scheduler that shares memory with the controller
  succeeds only for the client that is running and while its time is not frozen;
  it never moves the common time back nor past the time until which the client may
  run, touches nothing else of the memory, and the scheduler then reads the time
  that was set.
\<close>

theorem shm_set_time_safe:
  assumes "usfstl_sched_set_time (ctrl_time_hooks HooksShm) s t = Inr s'" and "shm_mem (env s) = Some m"
    and "ctrl_nsec_per_tick (env s) \<noteq> 0" and "unat (ctrl_nsec_per_tick (env s)) * (unat t + 1) \<le> 2 ^ 64"
  shows "running_id m = shm_id (env s) \<and> \<not> frozen (env s)
    \<and> shm_mem (env s') = Some (m\<lparr>shm_time := ctrl_nsec s t\<rparr>)
    \<and> usfstl_time_cmp (ctrl_nsec s t) (\<ge>) (shm_time m) \<and> usfstl_time_cmp (ctrl_nsec s t) (\<le>) (free_until m)
    \<and> fst (usfstl_sched_current_time (ctrl_time_hooks HooksShm) s') = t"
proof -
  have "DIV_ROUND_UP (ctrl_nsec s t - offset (env s)) (ucast (ctrl_nsec_per_tick (env s))) = t"
    using ticks_of_nsec [OF assms(3,4)] assms(3) by (simp add: ctrl_ticks_up_def)
  then show ?thesis
    using assms(1,2)
    by (auto simp: usfstl_sched_set_time_def usfstl_sched_set_time_raw_def ctrl_time_hooks_def no_hooks_def Let_def
        usfstl_sched_current_time_def schedctrl_get_time_def schedctrl_set_time_def ctrl_nsec_def res_simps)
qed

text \<open>
  A request through shared memory either lets the client run on, when it is
  running and the time lies before the limit, or leaves a request for exactly this
  time in the client's slot; when the client is waiting and asks for an earlier time
  than the limit, the limit becomes this time. No message is sent, and no other
  client's slot is changed.
\<close>

theorem shm_request_effect:
  assumes "started (env s)" and "shm_mem (env s) = Some m" and "unat (running_id m) < length (shm_clients m)"
    and "capa (shm_clients m ! unat (running_id m)) AND UM_TIMETRAVEL_SCHEDSHM_CAP_TIME_SHARE \<noteq> 0"
    and "unat (shm_id (env s)) < length (shm_clients m)" and "rt = ctrl_nsec s t"
    and "usfstl_time_cmp rt (\<ge>) (shm_time m)" and "sooner = usfstl_time_cmp rt (<) (free_until m)"
  shows "if sooner \<and> \<not> ctrl_waiting (env s)
    then schedctrl_request_shm fuel OS s t = Inr (USFSTL_SCHED_REQ_STATUS_CAN_RUN, s)
    else \<exists>s' m' cl. schedctrl_request_shm fuel OS s t = Inr (USFSTL_SCHED_REQ_STATUS_WAIT, s')
      \<and> shm_mem (env s') = Some m' \<and> free_until m' = (if sooner then rt else free_until m)
      \<and> shm_clients m' = (shm_clients m)[unat (shm_id (env s)) := cl] \<and> req_time cl = rt
      \<and> flags cl AND UM_TIMETRAVEL_SCHEDSHM_FLAGS_REQ_RUN \<noteq> 0 \<and> sent (env s') = sent (env s)"
proof (cases "sooner \<and> \<not> ctrl_waiting (env s)")
  case True
  then show ?thesis
    using assms by (simp add: schedctrl_request_shm_def)
next
  case False
  let ?i = "unat (shm_id (env s))"
  let ?c = "(shm_clients m ! ?i)\<lparr>req_time := rt, flags := flags (shm_clients m ! ?i) OR UM_TIMETRAVEL_SCHEDSHM_FLAGS_REQ_RUN\<rparr>"
  let ?m = "(if sooner then m\<lparr>free_until := rt\<rparr> else m)\<lparr>shm_clients := (shm_clients m)[?i := ?c]\<rparr>"
  have "schedctrl_request_shm fuel OS s t
      = Inr (USFSTL_SCHED_REQ_STATUS_WAIT, with_ctrl (\<lambda>c. c\<lparr>shm_mem := Some ?m\<rparr>) s)"
    using assms False by (auto simp: schedctrl_request_shm_def with_client_def with_ctrl_def Let_def)
  moreover have "flags ?c AND UM_TIMETRAVEL_SCHEDSHM_FLAGS_REQ_RUN \<noteq> 0"
    by (simp add: UM_TIMETRAVEL_SCHEDSHM_FLAGS_REQ_RUN_def bit.conj_disj_distrib2)
  ultimately show ?thesis
    using False by (auto simp: with_ctrl_def)
qed

section \<open>Examples\<close>

definition example_client :: um_timetravel_schedshm_client where
  "example_client = \<lparr>capa = 1, flags = 0, req_time = 0, client_name = 0\<rparr>"

definition example_shm :: um_timetravel_schedshm where
  "example_shm = \<lparr>version = 2, shm_len = 4352, free_until = 9000, shm_time = 5000, running_id = 1, max_clients = 2,
     shm_clients = [example_client, example_client]\<rparr>"

definition example_ctrl_os :: "um_timetravel_msg list ctrl_os" where
  "example_ctrl_os = \<lparr>ctrl_calls = \<lparr>sys_stat = (\<lambda>_ _. StatNoEntry), sys_unlink = (\<lambda>_ w. (0, w)), sys_socket = (\<lambda>w. (5, w)),
       sys_bind = (\<lambda>_ _ w. (0, w)), sys_listen = (\<lambda>_ w. (0, w)), sys_accept = (\<lambda>_ w. (6, w)),
       sys_connect = (\<lambda>_ _ w. (0, w)), sys_close = (\<lambda>_ w. w)\<rparr>,
     ctrl_select = (\<lambda>_ _ s. (1, [ctrl_fd (env s)], s)), ctrl_recv = (\<lambda>s. ((16, hd (ctrl_sys s), []), with_sys tl s)),
     ctrl_write = (\<lambda>_ _ w. (16, w)), ctrl_bc = (\<lambda>_ _. Inr), ctrl_other_handler = (\<lambda>_. Inr), ctrl_pre_handler = (\<lambda>_ _. Inr),
     ctrl_map_shm = (\<lambda>_ _. None), ctrl_fdopen = (\<lambda>_ _. True)\<rparr>"

text \<open>Ten nanoseconds per tick, the controller being 200 nanoseconds ahead, with the controller's next messages.\<close>

definition example_ctrl :: "um_timetravel_schedshm option \<Rightarrow> um_timetravel_msg list \<Rightarrow> um_timetravel_msg list csched" where
  "example_ctrl shm inbox = USFSTL_SCHEDULER ''ctrl'' (\<lambda>_. \<lparr>start = 0, priority = 0, group = 0, job_name = [],
      job_data = 0, callback = 0, blocked = False, pending = False\<rparr>)
     \<lparr>ctrl_attached = True, ack_time = 0, offset = 200, ctrl_nsec_per_tick = 10, ctrl_fd = 5, ctrl_waiting = False,
      acked = False, frozen = False, started = True, expected_ack_seq = 0, shm_id = 1, shm_mem = shm,
      handle_bc_message = None, handle_msg_fds = False, msg_seq = 0xfffffffe, old_expected = 0,
      hook_state = HooksMsg, sent = [], ctrl_entry = 1,
      ctrl_uds = \<lparr>uds_loop = \<lparr>g_usfstl_loop_entries = [1], loop_entry = (\<lambda>_. \<lparr>handler = 4, fd = 5, loop_priority = 0, loop_data = 0\<rparr>),
          g_usfstl_loop_pre_handler_fn = None, g_usfstl_loop_pre_handler_fn_data = 0\<rparr>,
        uds_server = (\<lambda>_. \<lparr>uds_connected = 0, uds_server_data = 0, uds_name = []\<rparr>),
        uds_client = (\<lambda>_. \<lparr>uds_readable = 0, uds_client_data = 0\<rparr>), uds_os = inbox\<rparr>\<rparr>"

theorem ctrl_forward_protocol_witness:
  "\<exists>s'. usfstl_sched_forward (ctrl_hooks 3 example_ctrl_os HooksMsg)
        (example_ctrl None [\<lparr>tt_op = 0, tt_seq = 0xffffffff, tt_time = 0\<rparr>, \<lparr>tt_op = 0, tt_seq = 1, tt_time = 0\<rparr>,
           \<lparr>tt_op = 6, tt_seq = 77, tt_time = 700\<rparr>]) 50 = Inr s'
     \<and> current_time s' = 50 \<and> map (\<lambda>m. (tt_op m, tt_time m)) (sent (env s')) = [(2, 700), (3, -1), (0, 0)]"
proof -
  let ?a = "\<lparr>tt_op = 0, tt_seq = 0xffffffff, tt_time = 0\<rparr>"
  let ?b = "\<lparr>tt_op = 0, tt_seq = 1, tt_time = 0\<rparr>"
  let ?r = "\<lparr>tt_op = 6, tt_seq = 77, tt_time = 700\<rparr>"
  let ?s = "example_ctrl None [?a, ?b, ?r]"
  have os: "queue_controller example_ctrl_os"
    by (simp add: queue_controller_def example_ctrl_os_def)
  have s: "ctrl_ready ?s" "shm_mem (env ?s) = None" "\<not> acked (env ?s)" "started (env ?s)" "hook_state (env ?s) = HooksMsg"
    "ctrl_nsec_per_tick (env ?s) \<noteq> 0" "unat (ctrl_nsec_per_tick (env ?s)) * (unat (50 :: u64) + 1) \<le> 2 ^ 64"
    "may_go_to ?s 50" "\<not> waiting ?s" "\<not> next_external_sync_set ?s" "ctrl_sys ?s = [?a, ?b, ?r]"
    "ctrl_nsec ?s 50 = 700" "sent (env ?s) = []" "msg_seq (env ?s) = 0xfffffffe"
    by (simp_all add: example_ctrl_def USFSTL_SCHEDULER_def ctrl_ready_def may_go_to_def usfstl_sched_next_pending_def
        ctrl_sys_def ctrl_nsec_def usfstl_time_cmp_def)
  have q: "tt_op ?a = UM_TIMETRAVEL_ACK" "tt_seq ?a = next_seq (msg_seq (env ?s))" "tt_op ?b = UM_TIMETRAVEL_ACK"
    "tt_seq ?b = next_seq (next_seq (msg_seq (env ?s)))" "tt_op ?r = UM_TIMETRAVEL_RUN" "tt_time ?r = ctrl_nsec ?s 50"
    unfolding s(12,14) by (simp_all add: timetravel_ops next_seq_def)
  show ?thesis
    using ctrl_forward_protocol [OF os s(1-6) _ s(7-11) q, of 3] s(12,13) by (auto simp: timetravel_ops)
qed

theorem shm_set_time_safe_witness:
  "\<exists>s'. usfstl_sched_set_time (ctrl_time_hooks HooksShm) (example_ctrl (Some example_shm) []) 600 = Inr s'
     \<and> shm_mem (env s') = Some (example_shm\<lparr>shm_time := 6200\<rparr>)
     \<and> fst (usfstl_sched_current_time (ctrl_time_hooks HooksShm) s') = 600"
proof -
  let ?s = "example_ctrl (Some example_shm) []"
  have s: "shm_mem (env ?s) = Some example_shm" "ctrl_nsec_per_tick (env ?s) \<noteq> 0"
    "unat (ctrl_nsec_per_tick (env ?s)) * (unat (600 :: u64) + 1) \<le> 2 ^ 64" "ctrl_nsec ?s 600 = 6200"
    by (simp_all add: example_ctrl_def USFSTL_SCHEDULER_def ctrl_nsec_def)
  obtain s' where s': "usfstl_sched_set_time (ctrl_time_hooks HooksShm) ?s 600 = Inr s'"
    by (simp add: usfstl_sched_set_time_def usfstl_sched_set_time_raw_def ctrl_time_hooks_def no_hooks_def Let_def
        usfstl_sched_current_time_def schedctrl_get_time_def schedctrl_set_time_def example_ctrl_def USFSTL_SCHEDULER_def
        example_shm_def usfstl_time_cmp_def usfstl_sched_next_pending_def DIV_ROUND_UP_def)
  from shm_set_time_safe [OF s' s(1-3)] show ?thesis
    using s' s(4) by simp
qed

theorem shm_request_effect_witness:
  "schedctrl_request_shm 0 example_ctrl_os (example_ctrl (Some example_shm) []) 700
     = Inr (USFSTL_SCHED_REQ_STATUS_CAN_RUN, example_ctrl (Some example_shm) [])
   \<and> (\<exists>s' m' cl. schedctrl_request_shm 0 example_ctrl_os (example_ctrl (Some example_shm) []) 1000
        = Inr (USFSTL_SCHED_REQ_STATUS_WAIT, s') \<and> shm_mem (env s') = Some m' \<and> free_until m' = 9000
        \<and> shm_clients m' = [example_client, cl] \<and> req_time cl = 10200)"
proof -
  let ?s = "example_ctrl (Some example_shm) []"
  have s: "started (env ?s)" "shm_mem (env ?s) = Some example_shm" "unat (running_id example_shm) < length (shm_clients example_shm)"
    "capa (shm_clients example_shm ! unat (running_id example_shm)) AND UM_TIMETRAVEL_SCHEDSHM_CAP_TIME_SHARE \<noteq> 0"
    "unat (shm_id (env ?s)) < length (shm_clients example_shm)"
    by (simp_all add: example_ctrl_def USFSTL_SCHEDULER_def example_shm_def example_client_def
        UM_TIMETRAVEL_SCHEDSHM_CAP_TIME_SHARE_def)
  have t: "ctrl_nsec ?s 700 = 7200" "ctrl_nsec ?s 1000 = 10200" "usfstl_time_cmp 7200 (\<ge>) (shm_time example_shm)"
    "usfstl_time_cmp 10200 (\<ge>) (shm_time example_shm)" "usfstl_time_cmp 7200 (<) (free_until example_shm)"
    "\<not> usfstl_time_cmp 10200 (<) (free_until example_shm)" "\<not> ctrl_waiting (env ?s)" "free_until example_shm = 9000"
    "unat (shm_id (env ?s)) = 1" "shm_clients example_shm = [example_client, example_client]"
    by (simp_all add: example_ctrl_def USFSTL_SCHEDULER_def example_shm_def ctrl_nsec_def usfstl_time_cmp_def)
  have "schedctrl_request_shm 0 example_ctrl_os ?s 700 = Inr (USFSTL_SCHED_REQ_STATUS_CAN_RUN, ?s)"
    using shm_request_effect [OF s t(1) [symmetric] t(3) refl] t(5,7) by simp
  moreover have "\<exists>s' m' cl. schedctrl_request_shm 0 example_ctrl_os ?s 1000 = Inr (USFSTL_SCHED_REQ_STATUS_WAIT, s')
      \<and> shm_mem (env s') = Some m' \<and> free_until m' = 9000 \<and> shm_clients m' = [example_client, cl] \<and> req_time cl = 10200"
    using shm_request_effect [OF s t(2) [symmetric] t(4) refl, of 0 example_ctrl_os] t(6,8-10) by auto
  ultimately show ?thesis
    by blast
qed

end
