(* ===== verification/Controller.thy ===== *)
theory Controller
  imports Schedctrl
begin

text \<open>
  The time controller, \<^verbatim>\<open>control/main.c\<close>: clients connect on a socket, request run
  time by messages or in shared memory, and the controller's scheduler lets them
  run one after the other. The controller's globals and static variables are the
  scheduler's \<open>env\<close>; a client's pointer is also that of its job and of its loop
  entry, which are members of the same structure. Debug output is left out, and so is
  the mode that follows the wall clock.

  Functions of the file call each other back through the main loop and through the
  scheduler's \<^verbatim>\<open>next_time_changed\<close>. They are given these calls as an argument of type
  \<open>ctl_calls\<close>, and \<open>ctl_nest n\<close> closes the circle for \<open>n\<close> levels of nesting.
\<close>

section \<open>Data\<close>

type_synonym client_ptr = nat

definition CTRL_CLIENT_ID :: u16 where "CTRL_CLIENT_ID = 0"
definition CTRL_CLIENT_BIT :: "u8 \<Rightarrow> u64" where "CTRL_CLIENT_BIT client_id = push_bit (unat client_id - 1) 1"
definition CTRL_SCHEDSHM_MAX_CLIENTS :: nat where "CTRL_SCHEDSHM_MAX_CLIENTS = 64"

datatype usfstl_schedule_client_state = USCS_CONNECTED | USCS_START_REQUESTED | USCS_SHM_CHECK | USCS_STARTED

text \<open>The name is the buffer that the job's name points to, and kept there.\<close>

record usfstl_schedule_client =
  cl_state :: usfstl_schedule_client_state
  sync_set :: bool
  cl_sync :: u64
  n_req :: u64
  n_wait :: u64
  n_update :: u64
  last_message :: u64
  waiting_for :: u64
  cl_offset :: u64
  start_seq :: u32
  nest :: int
  shm_name :: u64
  cl_id :: u8
  cl_pid :: u64

text \<open>The functions that a client's loop entry and job point to.\<close>

definition HANDLE_MESSAGE :: nat where "HANDLE_MESSAGE = 10"
definition HANDLE_MESSAGE_WAIT :: nat where "HANDLE_MESSAGE_WAIT = 11"
definition RUN_CLIENT :: nat where "RUN_CLIENT = 12"
definition FREE_CLIENT :: nat where "FREE_CLIENT = 13"
definition HANDLE_NEW_CONNECTION :: nat where "HANDLE_NEW_CONNECTION = 14"

text \<open>
  The shared memory exists from the call of \<^verbatim>\<open>_schedshm_create_mem_file\<close> on, before
  the first message is read. \<open>ctl_sent\<close> records the messages sent, with their
  receivers and descriptors, and \<open>ctl_freed\<close> the clients that were freed.
\<close>

record 'w ctl =
  clients :: u64
  expected_clients :: u32
  running_client :: "client_ptr option"
  time_at_start :: u64
  nesting :: int
  g_schedshm_mem :: um_timetravel_schedshm
  g_schedshm_fd_mem :: int
  started_scheduling :: bool
  client_list :: "client_ptr list"
  new_clients :: "client_ptr list"
  disable_shm :: bool
  client :: "client_ptr \<Rightarrow> usfstl_schedule_client"
  ctl_seq :: u64
  update_sync_running :: bool
  ctr :: int
  ctl_sent :: "(client_ptr \<times> um_timetravel_msg \<times> int list) list"
  ctl_freed :: "client_ptr list"
  ctl_uds :: "'w uds_state"

type_synonym 'w ctl_sched = "'w ctl usfstl_scheduler"

text \<open>
  What lies outside. While the controller waits in \<^verbatim>\<open>select\<close> or \<^verbatim>\<open>read\<close>, clients may
  write to the shared memory, so these two act on the whole state. \<open>ctl_other\<close> handles
  the loop entries that are not of this file; it may use the scheduler and is given the
  function behind \<^verbatim>\<open>next_time_changed\<close>. Which memory \<^verbatim>\<open>malloc\<close> returns depends on what is in
  use.
\<close>

record 'w ctl_os =
  ctl_sys :: "'w uds_calls"
  ctl_select :: "u32 \<Rightarrow> int list \<Rightarrow> 'w ctl_sched \<Rightarrow> int \<times> int list \<times> 'w ctl_sched"
  ctl_read :: "int \<Rightarrow> 'w ctl_sched \<Rightarrow> (int \<times> um_timetravel_msg) \<times> 'w ctl_sched"
  ctl_sendmsg :: "int \<Rightarrow> um_timetravel_msg \<Rightarrow> int list \<Rightarrow> 'w \<Rightarrow> int \<times> 'w"
  ctl_malloc :: "'w ctl_sched \<Rightarrow> client_ptr option"
  ctl_peer_pid :: "int \<Rightarrow> 'w \<Rightarrow> u64 option"
  ctl_memfd_create :: "'w \<Rightarrow> int \<times> 'w"
  ctl_memfd_ok :: "int \<Rightarrow> nat \<Rightarrow> 'w \<Rightarrow> bool"
  ctl_stdout :: int
  ctl_realtime :: "'w \<Rightarrow> u64"
  ctl_other :: "('w ctl_sched \<Rightarrow> 'w ctl_sched res) \<Rightarrow> entry_ptr \<Rightarrow> 'w ctl_sched \<Rightarrow> 'w ctl_sched res"
  ctl_other_job :: "('w ctl_sched \<Rightarrow> 'w ctl_sched res) \<Rightarrow> job_ptr \<Rightarrow> 'w ctl_sched \<Rightarrow> 'w ctl_sched res"

record 'w ctl_calls =
  k_fuel :: nat
  k_next_time_changed :: "'w ctl_sched \<Rightarrow> 'w ctl_sched res"
  k_loop_wait_and_handle :: "'w ctl_sched \<Rightarrow> 'w ctl_sched res"

definition with_ctl :: "('w ctl \<Rightarrow> 'w ctl) \<Rightarrow> 'w ctl_sched \<Rightarrow> 'w ctl_sched" where
  "with_ctl f s = s\<lparr>env := f (env s)\<rparr>"

definition with_cl :: "client_ptr \<Rightarrow> (usfstl_schedule_client \<Rightarrow> usfstl_schedule_client) \<Rightarrow> 'w ctl_sched \<Rightarrow> 'w ctl_sched" where
  "with_cl c f = with_ctl (\<lambda>k. k\<lparr>client := (client k)(c := f (client k c))\<rparr>)"

definition with_mem :: "(um_timetravel_schedshm \<Rightarrow> um_timetravel_schedshm) \<Rightarrow> 'w ctl_sched \<Rightarrow> 'w ctl_sched" where
  "with_mem f = with_ctl (\<lambda>k. k\<lparr>g_schedshm_mem := f (g_schedshm_mem k)\<rparr>)"

definition with_loop :: "usfstl_loop \<Rightarrow> 'w ctl_sched \<Rightarrow> 'w ctl_sched" where
  "with_loop L = with_ctl (\<lambda>k. k\<lparr>ctl_uds := (ctl_uds k)\<lparr>uds_loop := L\<rparr>\<rparr>)"

definition with_world :: "'w \<Rightarrow> 'w ctl_sched \<Rightarrow> 'w ctl_sched" where
  "with_world w = with_ctl (\<lambda>k. k\<lparr>ctl_uds := (ctl_uds k)\<lparr>uds_os := w\<rparr>\<rparr>)"

abbreviation ctl_loop :: "'w ctl_sched \<Rightarrow> usfstl_loop" where
  "ctl_loop s \<equiv> uds_loop (ctl_uds (env s))"

abbreviation ctl_world :: "'w ctl_sched \<Rightarrow> 'w" where
  "ctl_world s \<equiv> uds_os (ctl_uds (env s))"

abbreviation the_client :: "'w ctl_sched \<Rightarrow> client_ptr \<Rightarrow> usfstl_schedule_client" where
  "the_client s c \<equiv> client (env s) c"

section \<open>Shared memory\<close>

text \<open>\<^verbatim>\<open>_schedshm_client_has_shm\<close>, and access to a client's slot.\<close>

definition schedshm_client_has_shm :: "um_timetravel_schedshm \<Rightarrow> u16 \<Rightarrow> bool res" where
  "schedshm_client_has_shm m client_id =
     (if unat client_id < length (shm_clients m)
      then Inr (capa (shm_clients m ! unat client_id) AND UM_TIMETRAVEL_SCHEDSHM_CAP_TIME_SHARE \<noteq> 0)
      else Inl OutOfBounds)"

definition with_shm_client :: "u8 \<Rightarrow> (um_timetravel_schedshm_client \<Rightarrow> um_timetravel_schedshm_client) \<Rightarrow>
    'w ctl_sched \<Rightarrow> 'w ctl_sched res" where
  "with_shm_client i f s =
     (if unat i < length (shm_clients (g_schedshm_mem (env s)))
      then Inr (with_mem (\<lambda>m. m\<lparr>shm_clients := (shm_clients m)[unat i := f (shm_clients m ! unat i)]\<rparr>) s)
      else Inl OutOfBounds)"

definition no_shm_client :: um_timetravel_schedshm_client where
  "no_shm_client = \<lparr>capa = 0, flags = 0, req_time = 0, client_name = 0\<rparr>"

definition set_running_client :: "client_ptr option \<Rightarrow> 'w ctl_sched \<Rightarrow> 'w ctl_sched" where
  "set_running_client c s =
     with_ctl (\<lambda>k. k\<lparr>running_client := c\<rparr>)
       (with_mem (\<lambda>m. m\<lparr>running_id := (case c of Some c \<Rightarrow> ucast (cl_id (the_client s c)) | None \<Rightarrow> CTRL_CLIENT_ID)\<rparr>) s)"

definition schedshm_set_time :: "'w ctl \<Rightarrow> u64 \<Rightarrow> 'w ctl res" where
  "schedshm_set_time k time =
     bind_res (schedshm_client_has_shm (g_schedshm_mem k) (running_id (g_schedshm_mem k))) (\<lambda>shm.
     usfstl_assert (\<not> shm) ''!_schedshm_client_has_shm(running_id)'' (
     Inr (k\<lparr>g_schedshm_mem := (g_schedshm_mem k)\<lparr>shm_time := time\<rparr>\<rparr>)))"

definition schedshm_get_time :: "u64 \<Rightarrow> 'w ctl \<Rightarrow> u64 \<times> 'w ctl" where
  "schedshm_get_time cur k = (shm_time (g_schedshm_mem k), k)"

definition ctl_hooks :: "'w ctl_calls \<Rightarrow> 'w ctl sched_hooks" where
  "ctl_hooks K = no_hooks\<lparr>external_get_time := Some schedshm_get_time, external_set_time := Some schedshm_set_time,
     next_time_changed := Some (k_next_time_changed K)\<rparr>"

text \<open>\<^verbatim>\<open>usfstl_sched_current_time(&scheduler)\<close>; reading the time changes nothing.\<close>

definition ctl_now :: "'w ctl_calls \<Rightarrow> 'w ctl_sched \<Rightarrow> u64" where
  "ctl_now K s = fst (usfstl_sched_current_time (ctl_hooks K) s)"

section \<open>Clients and messages\<close>

definition free_client :: "client_ptr \<Rightarrow> 'w ctl_sched \<Rightarrow> 'w ctl_sched" where
  "free_client c = with_ctl (\<lambda>k. k\<lparr>ctl_freed := c # ctl_freed k\<rparr>)"

text \<open>\<^verbatim>\<open>usfstl_list_item_remove(&client->list)\<close>: the entry is on one of the two lists, or has null pointers.\<close>

definition client_unlink :: "client_ptr \<Rightarrow> 'w ctl_sched \<Rightarrow> 'w ctl_sched res" where
  "client_unlink c s =
     (if c \<in> set (client_list (env s)) \<or> c \<in> set (new_clients (env s))
      then Inr (with_ctl (\<lambda>k. k\<lparr>client_list := remove1 c (client_list k), new_clients := remove1 c (new_clients k)\<rparr>) s)
      else Inl NullDeref)"

definition is_started :: "usfstl_schedule_client \<Rightarrow> bool" where
  "is_started x \<longleftrightarrow> cl_state x = USCS_STARTED \<or> cl_state x = USCS_SHM_CHECK"

text \<open>The first half of \<^verbatim>\<open>remove_client\<close>: everything that forgets the client.\<close>

definition detach_client :: "'w ctl_os \<Rightarrow> client_ptr \<Rightarrow> 'w ctl_sched \<Rightarrow> 'w ctl_sched res" where
  "detach_client OS c s =
     (let s = usfstl_sched_del_job s c in
      bind_res (usfstl_loop_unregister (ctl_loop s) c) (\<lambda>L.
      let s = with_loop L s;
          s = with_world (sys_close (ctl_sys OS) (fd (loop_entry L c)) (ctl_world s)) s;
          s = (if is_started (the_client s c)
               then with_ctl (\<lambda>k. k\<lparr>clients := clients k AND NOT (CTRL_CLIENT_BIT (cl_id (client k c)))\<rparr>) s else s)
      in bind_res (client_unlink c s) (\<lambda>s.
         with_shm_client (cl_id (the_client s c)) (\<lambda>_. no_shm_client) s)))"

definition remove_client :: "'w ctl_os \<Rightarrow> 'w ctl_calls \<Rightarrow> client_ptr \<Rightarrow> 'w ctl_sched \<Rightarrow> 'w ctl_sched res" where
  "remove_client OS K c s =
     bind_res (detach_client OS c s) (\<lambda>s.
     let t = (case usfstl_sched_next_pending s None of Some j \<Rightarrow> start (jobs s j) | None \<Rightarrow> ctl_now K s);
         s = with_job c (\<lambda>b. b\<lparr>start := t, callback := FREE_CLIENT\<rparr>) s;
         s = (if running_client (env s) = Some c then set_running_client None s else s)
     in usfstl_sched_add_job (ctl_hooks K) s c)"

definition write_message_fds :: "'w ctl_os \<Rightarrow> 'w ctl_calls \<Rightarrow> client_ptr \<Rightarrow> u32 \<Rightarrow> u32 \<Rightarrow> u64 \<Rightarrow> int list \<Rightarrow> 'w ctl_sched \<Rightarrow>
    (bool \<times> 'w ctl_sched) res" where
  "write_message_fds OS K c op seq time fds s =
     (let msg = \<lparr>tt_op = op, tt_seq = seq, tt_time = time\<rparr> in
      if callback (jobs s c) = FREE_CLIENT then Inr (False, s)
      else
        usfstl_assert (length fds \<le> UM_TIMETRAVEL_MAX_FDS) ''fds_num <= UM_TIMETRAVEL_MAX_FDS'' (
        let (ret, w) = ctl_sendmsg OS (fd (loop_entry (ctl_loop s) c)) msg fds (ctl_world s);
            s = with_world w s
        in if ret \<noteq> 16 then bind_res (remove_client OS K c s) (\<lambda>s. Inr (False, s))
           else Inr (True, with_ctl (\<lambda>k. k\<lparr>ctl_sent := ctl_sent k @ [(c, msg, fds)]\<rparr>) s)))"

definition write_message :: "'w ctl_os \<Rightarrow> 'w ctl_calls \<Rightarrow> client_ptr \<Rightarrow> u32 \<Rightarrow> u32 \<Rightarrow> u64 \<Rightarrow> 'w ctl_sched \<Rightarrow>
    (bool \<times> 'w ctl_sched) res" where
  "write_message OS K c op seq time s = write_message_fds OS K c op seq time [] s"

text \<open>\<^verbatim>\<open>_schedshm_client_req_time\<close>.\<close>

definition schedshm_client_req_time :: "'w ctl_calls \<Rightarrow> client_ptr \<Rightarrow> 'w ctl_sched \<Rightarrow> 'w ctl_sched res" where
  "schedshm_client_req_time K c s =
     (let m = g_schedshm_mem (env s); i = unat (cl_id (the_client s c)) in
      if length (shm_clients m) \<le> i then Inl OutOfBounds
      else
        let shm = shm_clients m ! i in
        if flags shm AND UM_TIMETRAVEL_SCHEDSHM_FLAGS_REQ_RUN = 0 then Inr s
        else if usfstl_job_scheduled s c \<and> start (jobs s c) = req_time shm then Inr s
        else
          bind_res (usfstl_sched_add_job (ctl_hooks K)
            (with_job c (\<lambda>b. b\<lparr>start := req_time shm\<rparr>) (usfstl_sched_del_job s c)) c) (\<lambda>s.
          Inr (with_cl c (\<lambda>x. x\<lparr>n_req := n_req x + 1\<rparr>) s)))"

section \<open>Waiting for a client\<close>

text \<open>The \<^verbatim>\<open>do\<close> loop of \<^verbatim>\<open>wait_for\<close>; \<open>-2\<close> is a 64-bit number that no message has.\<close>

fun wait_for_loop :: "nat \<Rightarrow> 'w ctl_calls \<Rightarrow> client_ptr \<Rightarrow> u32 \<Rightarrow> 'w ctl_sched \<Rightarrow> 'w ctl_sched res" where
  "wait_for_loop 0 K c op s = Inl OutOfFuel"
| "wait_for_loop (Suc n) K c op s =
     (let s = with_cl c (\<lambda>x. x\<lparr>last_message := -2, waiting_for := ucast op\<rparr>) s;
          L = ctl_loop s;
          wait_registered = (if c \<in> set (g_usfstl_loop_entries L) then Some (handler (loop_entry L c)) else None)
      in bind_res (if wait_registered \<noteq> None then usfstl_loop_unregister L c else Inr L) (\<lambda>L.
         let wait_prio = loop_priority (loop_entry L c);
             s = with_loop (register_entry c ((loop_entry L c)\<lparr>loop_priority := 0x7fffffff, handler := HANDLE_MESSAGE_WAIT\<rparr>) L) s
         in bind_res (k_loop_wait_and_handle K s) (\<lambda>s.
            let L = ctl_loop s in
            if c \<in> set (g_usfstl_loop_entries L) \<and> wait_registered = Some HANDLE_MESSAGE then
              bind_res (usfstl_loop_unregister L c) (\<lambda>L.
              let s = with_loop (register_entry c ((loop_entry L c)\<lparr>loop_priority := wait_prio, handler := HANDLE_MESSAGE\<rparr>) L) s
              in if last_message (the_client s c) \<noteq> ucast op then wait_for_loop n K c op s else Inr s)
            else Inr s)))"

definition wait_for :: "'w ctl_calls \<Rightarrow> client_ptr \<Rightarrow> u32 \<Rightarrow> 'w ctl_sched \<Rightarrow> 'w ctl_sched res" where
  "wait_for K c op s =
     bind_res (wait_for_loop (k_fuel K) K c op (with_ctl (\<lambda>k. k\<lparr>nesting := nesting k + 1\<rparr>) s)) (\<lambda>s.
     Inr (with_ctl (\<lambda>k. k\<lparr>nesting := nesting k - 1\<rparr>)
       (with_cl c (\<lambda>x. x\<lparr>last_message := -2, waiting_for := -1\<rparr>) s)))"

definition send_message :: "'w ctl_os \<Rightarrow> 'w ctl_calls \<Rightarrow> client_ptr \<Rightarrow> u32 \<Rightarrow> u64 \<Rightarrow> 'w ctl_sched \<Rightarrow>
    (bool \<times> 'w ctl_sched) res" where
  "send_message OS K c op time s =
     (let s = with_cl c (\<lambda>x. x\<lparr>nest := nest x + 1\<rparr>) (with_ctl (\<lambda>k. k\<lparr>ctl_seq := ctl_seq k + 1\<rparr>) s) in
      bind_res (write_message OS K c op (ucast (ctl_seq (env s))) time s) (\<lambda>(ok, s).
      if \<not> ok then Inr (False, s)
      else
        bind_res (if op \<noteq> UM_TIMETRAVEL_RUN then wait_for K c UM_TIMETRAVEL_ACK s
                  else bind_res (schedshm_client_has_shm (g_schedshm_mem (env s)) (ucast (cl_id (the_client s c)))) (\<lambda>shm.
                       if shm then Inr s else wait_for K c UM_TIMETRAVEL_ACK s)) (\<lambda>s.
        Inr (True, with_cl c (\<lambda>x. x\<lparr>nest := nest x - 1\<rparr>) s))))"

definition update_sync :: "'w ctl_os \<Rightarrow> 'w ctl_calls \<Rightarrow> client_ptr option \<Rightarrow> 'w ctl_sched \<Rightarrow> 'w ctl_sched res" where
  "update_sync OS K c s =
     (let sync = fst (usfstl_sched_get_sync_time (ctl_hooks K) s);
          (c, s) = (case c of None \<Rightarrow> (running_client (env s), s) | Some _ \<Rightarrow> (c, set_running_client c s))
      in if \<not> started_scheduling (env s) then Inr s
         else
           let s = with_mem (\<lambda>m. m\<lparr>free_until := sync\<rparr>) s
           in case c of
                None \<Rightarrow> Inr s
              | Some c \<Rightarrow>
                  bind_res (schedshm_client_has_shm (g_schedshm_mem (env s)) (ucast (cl_id (the_client s c)))) (\<lambda>shm.
                  if shm then Inr s
                  else if sync_set (the_client s c) \<and> cl_sync (the_client s c) = sync then Inr s
                  else if update_sync_running (env s) then Inr s
                  else
                    bind_res (send_message OS K c UM_TIMETRAVEL_FREE_UNTIL (sync - cl_offset (the_client s c))
                      (with_ctl (\<lambda>k. k\<lparr>update_sync_running := True\<rparr>) s)) (\<lambda>(_, s).
                    Inr (with_ctl (\<lambda>k. k\<lparr>update_sync_running := False\<rparr>)
                      (with_cl c (\<lambda>x. x\<lparr>sync_set := True, cl_sync := sync\<rparr>) s)))))"

section \<open>Messages from clients\<close>

text \<open>The item after \<open>x\<close>, or \<^const>\<open>None\<close> for the wild pointer that is read from an entry on no list.\<close>

definition item_after :: "'a list \<Rightarrow> 'a \<Rightarrow> 'a option option" where
  "item_after xs x = (if x \<in> set xs then Some (next_item xs x) else None)"

text \<open>
  The cases of \<^verbatim>\<open>_handle_message\<close>. Each gives the value to return at once, or none and
  the time of the acknowledgement to send.
\<close>

definition handle_request :: "'w ctl_calls \<Rightarrow> client_ptr \<Rightarrow> um_timetravel_msg \<Rightarrow> 'w ctl_sched \<Rightarrow>
    (u32 option \<times> u64 \<times> 'w ctl_sched) res" where
  "handle_request K c msg s =
     (let rt = cl_offset (the_client s c) + tt_time msg in
      usfstl_assert (cl_state (the_client s c) = USCS_STARTED) ''client->state == USCS_STARTED'' (
      bind_res (with_shm_client (cl_id (the_client s c))
        (\<lambda>x. x\<lparr>flags := flags x OR UM_TIMETRAVEL_SCHEDSHM_FLAGS_REQ_RUN, req_time := rt\<rparr>) s) (\<lambda>s.
      bind_res (schedshm_client_has_shm (g_schedshm_mem (env s)) (running_id (g_schedshm_mem (env s)))) (\<lambda>shm.
      bind_res (if \<not> shm then
                  usfstl_sched_add_job (ctl_hooks K) (with_job c (\<lambda>b. b\<lparr>start := rt\<rparr>) (usfstl_sched_del_job s c)) c
                else if usfstl_time_cmp rt (<) (free_until (g_schedshm_mem (env s))) then
                  Inr (with_mem (\<lambda>m. m\<lparr>free_until := rt\<rparr>) s)
                else Inr s) (\<lambda>s.
      Inr (None, 0, with_cl c (\<lambda>x. x\<lparr>n_req := n_req x + 1\<rparr>) s))))))"

definition handle_start :: "client_ptr \<Rightarrow> um_timetravel_msg \<Rightarrow> 'w ctl_sched \<Rightarrow> (u32 option \<times> u64 \<times> 'w ctl_sched) res" where
  "handle_start c msg s =
     (let s = with_cl c (\<lambda>x. x\<lparr>start_seq := tt_seq msg\<rparr>) s in
      usfstl_assert (cl_state (the_client s c) \<noteq> USCS_STARTED \<and> cl_state (the_client s c) \<noteq> USCS_START_REQUESTED)
        ''client->state != USCS_STARTED && client->state != USCS_START_REQUESTED'' (
      let s = with_cl c (\<lambda>x. x\<lparr>cl_state := USCS_START_REQUESTED\<rparr>) s
      in Inr (Some UM_TIMETRAVEL_START, 0, with_ctl (\<lambda>k. k\<lparr>new_clients :=
           insert_before_first (\<lambda>x. shm_name (client k x) > shm_name (client k c)) c (new_clients k)\<rparr>) s)))"

definition handle_wait :: "client_ptr \<Rightarrow> 'w ctl_sched \<Rightarrow> (u32 option \<times> u64 \<times> 'w ctl_sched) res" where
  "handle_wait c s =
     usfstl_assert (running_client (env s) = Some c \<or> running_client (env s) = None)
       ''client == running_client || !running_client'' (
     let s = with_cl c (\<lambda>x. x\<lparr>n_wait := n_wait x + 1\<rparr>) s;
         s = (if running_client (env s) \<noteq> None then set_running_client None s else s)
     in bind_res (schedshm_client_has_shm (g_schedshm_mem (env s)) (ucast (cl_id (the_client s c)))) (\<lambda>shm.
        Inr (if shm then Some UM_TIMETRAVEL_WAIT else None, 0, s)))"

definition handle_update :: "'w ctl_calls \<Rightarrow> client_ptr \<Rightarrow> um_timetravel_msg \<Rightarrow> 'w ctl_sched \<Rightarrow>
    (u32 option \<times> u64 \<times> 'w ctl_sched) res" where
  "handle_update K c msg s =
     usfstl_assert (running_client (env s) = Some c) ''client == running_client'' (
     bind_res (usfstl_sched_set_time (ctl_hooks K) s (cl_offset (the_client s c) + tt_time msg)) (\<lambda>s.
     Inr (None, 0, with_cl c (\<lambda>x. x\<lparr>n_update := n_update x + 1\<rparr>) s)))"

text \<open>\<open>nxt\<close> is the item that the safe iteration has fetched already.\<close>

fun broadcast_loop :: "nat \<Rightarrow> 'w ctl_os \<Rightarrow> 'w ctl_calls \<Rightarrow> client_ptr \<Rightarrow> u64 \<Rightarrow> client_ptr option \<Rightarrow>
    client_ptr option option \<Rightarrow> 'w ctl_sched \<Rightarrow> 'w ctl_sched res" where
  "broadcast_loop fuel OS K c time None nxt s = Inr s"
| "broadcast_loop 0 OS K c time (Some p) nxt s = Inl OutOfFuel"
| "broadcast_loop (Suc n) OS K c time (Some p) nxt s =
     bind_res (if p = c then Inr s
               else bind_res (send_message OS K p UM_TIMETRAVEL_BROADCAST time s) (\<lambda>(_, s). Inr s)) (\<lambda>s.
     case nxt of
       None \<Rightarrow> Inl NullDeref
     | Some q \<Rightarrow> broadcast_loop n OS K c time q
         (case q of None \<Rightarrow> Some None | Some q \<Rightarrow> item_after (client_list (env s)) q) s)"

definition handle_broadcast :: "'w ctl_os \<Rightarrow> 'w ctl_calls \<Rightarrow> client_ptr \<Rightarrow> um_timetravel_msg \<Rightarrow> 'w ctl_sched \<Rightarrow>
    (u32 option \<times> u64 \<times> 'w ctl_sched) res" where
  "handle_broadcast OS K c msg s =
     (let first = first_item (client_list (env s)) in
      bind_res (broadcast_loop (k_fuel K) OS K c (tt_time msg) first
        (case first of None \<Rightarrow> Some None | Some p \<Rightarrow> item_after (client_list (env s)) p) s) (\<lambda>s.
      Inr (None, 0, s)))"

definition handle_op :: "'w ctl_os \<Rightarrow> 'w ctl_calls \<Rightarrow> client_ptr \<Rightarrow> um_timetravel_msg \<Rightarrow> 'w ctl_sched \<Rightarrow>
    (u32 option \<times> u64 \<times> 'w ctl_sched) res" where
  "handle_op OS K c msg s =
     (let op = tt_op msg in
      if op = UM_TIMETRAVEL_ACK then Inr (Some UM_TIMETRAVEL_ACK, 0, s)
      else if op = UM_TIMETRAVEL_REQUEST then handle_request K c msg s
      else if op = UM_TIMETRAVEL_START then handle_start c msg s
      else if op = UM_TIMETRAVEL_WAIT then handle_wait c s
      else if op = UM_TIMETRAVEL_GET then
        usfstl_assert (cl_state (the_client s c) = USCS_STARTED) ''client->state == USCS_STARTED'' (
        Inr (None, ctl_now K s - cl_offset (the_client s c), s))
      else if op = UM_TIMETRAVEL_GET_TOD then
        usfstl_assert (cl_state (the_client s c) = USCS_STARTED) ''client->state == USCS_STARTED'' (
        Inr (None, time_at_start (env s) + ctl_now K s, s))
      else if op = UM_TIMETRAVEL_UPDATE then handle_update K c msg s
      else if op = UM_TIMETRAVEL_BROADCAST then handle_broadcast OS K c msg s
      else if op = UM_TIMETRAVEL_RUN \<or> op = UM_TIMETRAVEL_FREE_UNTIL then
        bind_res (remove_client OS K c s) (\<lambda>s. Inr (Some (-1), 0, s))
      else Inr (None, 0, s))"

text \<open>A client's first message after its start tells whether it uses shared memory.\<close>

definition check_shm :: "client_ptr \<Rightarrow> 'w ctl_sched \<Rightarrow> 'w ctl_sched res" where
  "check_shm c s =
     (if cl_state (the_client s c) = USCS_SHM_CHECK then
        bind_res (schedshm_client_has_shm (g_schedshm_mem (env s)) (ucast (cl_id (the_client s c)))) (\<lambda>shm.
        Inr (with_cl c (\<lambda>x. x\<lparr>cl_state := USCS_STARTED, cl_offset := (if shm then 0 else cl_offset x)\<rparr>) s))
      else Inr s)"

text \<open>\<^verbatim>\<open>_handle_message\<close>.\<close>

definition handle_message_raw :: "'w ctl_os \<Rightarrow> 'w ctl_calls \<Rightarrow> client_ptr \<Rightarrow> 'w ctl_sched \<Rightarrow> (u32 \<times> 'w ctl_sched) res" where
  "handle_message_raw OS K c s =
     (let ((ret, msg), s) = ctl_read OS (fd (loop_entry (ctl_loop s) c)) s in
      if ret \<le> 0 then bind_res (remove_client OS K c s) (\<lambda>s. Inr (-1, s))
      else
        usfstl_assert (ret = 16) ''ret == sizeof(msg)'' (
        let s = (if tt_op msg = UM_TIMETRAVEL_START \<and> tt_time msg \<noteq> -1
                 then with_cl c (\<lambda>x. x\<lparr>shm_name := tt_time msg\<rparr>)
                   (with_job c (\<lambda>b. b\<lparr>job_name := ''id:'' @ digits_of 16 16 (unat (tt_time msg))\<rparr>) s)
                 else s)
        in bind_res (check_shm c s) (\<lambda>s.
           bind_res (handle_op OS K c msg s) (\<lambda>(r, val, s).
           case r of
             Some r \<Rightarrow> Inr (r, s)
           | None \<Rightarrow> bind_res (write_message OS K c UM_TIMETRAVEL_ACK (tt_seq msg) val s) (\<lambda>(_, s). Inr (tt_op msg, s))))))"

definition handle_message :: "'w ctl_os \<Rightarrow> 'w ctl_calls \<Rightarrow> client_ptr \<Rightarrow> 'w ctl_sched \<Rightarrow> 'w ctl_sched res" where
  "handle_message OS K c s =
     bind_res (handle_message_raw OS K c s) (\<lambda>(r, s).
     usfstl_assert (r \<noteq> UM_TIMETRAVEL_ACK) ''_handle_message(client) != UM_TIMETRAVEL_ACK'' (Inr s))"

definition handle_message_wait :: "'w ctl_os \<Rightarrow> 'w ctl_calls \<Rightarrow> client_ptr \<Rightarrow> 'w ctl_sched \<Rightarrow> 'w ctl_sched res" where
  "handle_message_wait OS K c s =
     bind_res (handle_message_raw OS K c s) (\<lambda>(r, s).
     Inr (with_cl c (\<lambda>x. x\<lparr>last_message := ucast r\<rparr>) s))"

section \<open>Connections\<close>

definition no_client :: usfstl_schedule_client where
  "no_client = \<lparr>cl_state = USCS_CONNECTED, sync_set = False, cl_sync = 0, n_req = 0, n_wait = 0, n_update = 0,
     last_message = 0, waiting_for = 0, cl_offset = 0, start_seq = 0, nest = 0, shm_name = 0, cl_id = 0, cl_pid = 0\<rparr>"

definition handle_new_connection :: "'w ctl_os \<Rightarrow> int \<Rightarrow> 'w ctl_sched \<Rightarrow> 'w ctl_sched res" where
  "handle_new_connection OS newfd s =
     (case ctl_malloc OS s of
        None \<Rightarrow> Inl (Assertion ''client'')
      | Some c \<Rightarrow>
          let s = with_ctl (\<lambda>k. k\<lparr>ctr := ctr k + 1\<rparr>) s;
              s = with_job c (\<lambda>_. \<lparr>start = 0, priority = 0, group = 1, job_name = ''unnamed-'' @ show_int (ctr (env s)),
                    job_data = 0, callback = RUN_CLIENT, blocked = False, pending = False\<rparr>) s;
              s = with_cl c (\<lambda>_. no_client\<lparr>waiting_for := -1, cl_pid := (case ctl_peer_pid OS newfd (ctl_world s) of None \<Rightarrow> 0 | Some p \<Rightarrow> p)\<rparr>) s
          in Inr (with_loop (register_entry c (new_entry HANDLE_MESSAGE newfd 0) (ctl_loop s)) s))"

text \<open>
  The position of the lowest bit that is set, counted from one, or zero: \<^verbatim>\<open>__builtin_ffsll\<close>.
\<close>

definition builtin_ffsll :: "u64 \<Rightarrow> nat" where
  "builtin_ffsll x = (case find (bit x) [0..<64] of None \<Rightarrow> 0 | Some i \<Rightarrow> Suc i)"

definition process_starting_client :: "'w ctl_os \<Rightarrow> 'w ctl_calls \<Rightarrow> client_ptr \<Rightarrow> 'w ctl_sched \<Rightarrow> 'w ctl_sched res" where
  "process_starting_client OS K c s =
     (let fds = [g_schedshm_fd_mem (env s), ctl_stdout OS];
          i = of_nat (builtin_ffsll (NOT (clients (env s))));
          s = with_cl c (\<lambda>x. x\<lparr>cl_offset := ctl_now K s, cl_state := USCS_SHM_CHECK, cl_id := i\<rparr>) s
      in usfstl_assert (i \<noteq> 0) ''client->id'' (
         bind_res (with_shm_client i (\<lambda>x. x\<lparr>client_name := shm_name (the_client s c)\<rparr>) s) (\<lambda>s.
         bind_res (client_unlink c (with_ctl (\<lambda>k. k\<lparr>clients := clients k OR CTRL_CLIENT_BIT i\<rparr>) s)) (\<lambda>s.
         let s = set_running_client (Some c) (with_ctl (\<lambda>k. k\<lparr>client_list := client_list k @ [c]\<rparr>) s)
         in usfstl_assert (ucast i AND NOT UM_TIMETRAVEL_START_ACK_ID = 0) ''client->id & ~UM_TIMETRAVEL_START_ACK_ID == 0'' (
            bind_res (if disable_shm (env s)
                      then write_message OS K c UM_TIMETRAVEL_ACK (start_seq (the_client s c)) 0 s
                      else write_message_fds OS K c UM_TIMETRAVEL_ACK (start_seq (the_client s c))
                        (ucast i AND UM_TIMETRAVEL_START_ACK_ID) fds s) (\<lambda>(_, s).
            wait_for K c UM_TIMETRAVEL_WAIT s))))))"

fun process_starting_clients :: "nat \<Rightarrow> 'w ctl_os \<Rightarrow> 'w ctl_calls \<Rightarrow> 'w ctl_sched \<Rightarrow> 'w ctl_sched res" where
  "process_starting_clients 0 OS K s = (if new_clients (env s) = [] then Inr s else Inl OutOfFuel)"
| "process_starting_clients (Suc n) OS K s =
     (case first_item (new_clients (env s)) of
        None \<Rightarrow> Inr s
      | Some c \<Rightarrow> bind_res (process_starting_client OS K c s) (process_starting_clients n OS K))"

definition run_client :: "'w ctl_os \<Rightarrow> 'w ctl_calls \<Rightarrow> client_ptr \<Rightarrow> 'w ctl_sched \<Rightarrow> 'w ctl_sched res" where
  "run_client OS K c s =
     bind_res (update_sync OS K (Some c) s) (\<lambda>s.
     bind_res (schedshm_client_has_shm (g_schedshm_mem (env s)) (ucast (cl_id (the_client s c)))) (\<lambda>shm.
     bind_res (if \<not> shm
               then with_shm_client (cl_id (the_client s c))
                 (\<lambda>x. x\<lparr>flags := flags x AND NOT UM_TIMETRAVEL_SCHEDSHM_FLAGS_REQ_RUN\<rparr>) s
               else Inr s) (\<lambda>s.
     bind_res (send_message OS K c UM_TIMETRAVEL_RUN (ctl_now K s - cl_offset (the_client s c)) s) (\<lambda>(ok, s).
     if ok then wait_for K c UM_TIMETRAVEL_WAIT s else Inr s))))"

section \<open>The main loop and nested calls\<close>

definition ctl_entry_handler :: "'w ctl_os \<Rightarrow> 'w ctl_calls \<Rightarrow> entry_ptr \<Rightarrow> 'w ctl_sched \<Rightarrow> 'w ctl_sched res" where
  "ctl_entry_handler OS K e s =
     (let h = handler (loop_entry (ctl_loop s) e) in
      if h = HANDLE_MESSAGE then handle_message OS K e s
      else if h = HANDLE_MESSAGE_WAIT then handle_message_wait OS K e s
      else if h = UDS_ACCEPT_HANDLER \<and> uds_connected (uds_server (ctl_uds (env s)) e) = HANDLE_NEW_CONNECTION then
        let ((_, newfd, _), u) = usfstl_uds_accept_handler (ctl_sys OS) (ctl_uds (env s)) e
        in handle_new_connection OS newfd (with_ctl (\<lambda>k. k\<lparr>ctl_uds := u\<rparr>) s)
      else ctl_other OS (k_next_time_changed K) e s)"

text \<open>The loop lives in the state; the copy that the loop function passes on is not changed by the handlers.\<close>

definition ctl_loop_pass :: "'w ctl_os \<Rightarrow> 'w ctl_calls \<Rightarrow> 'w ctl_sched \<Rightarrow> 'w ctl_sched res" where
  "ctl_loop_pass OS K s =
     bind_res (usfstl_loop_wait_and_handle (ctl_select OS) (\<lambda>_ _. Inr)
       (\<lambda>e (L, s). bind_res (ctl_entry_handler OS K e s) (\<lambda>s. Inr (L, s))) (ctl_loop s) s) (\<lambda>(_, s). Inr s)"

fun ctl_nest :: "nat \<Rightarrow> 'w ctl_os \<Rightarrow> 'w ctl_calls" where
  "ctl_nest 0 OS = \<lparr>k_fuel = 0, k_next_time_changed = (\<lambda>_. Inl OutOfFuel), k_loop_wait_and_handle = (\<lambda>_. Inl OutOfFuel)\<rparr>"
| "ctl_nest (Suc n) OS = \<lparr>k_fuel = n, k_next_time_changed = update_sync OS (ctl_nest n OS) None,
     k_loop_wait_and_handle = ctl_loop_pass OS (ctl_nest n OS)\<rparr>"

definition ctl_job_callback :: "'w ctl_os \<Rightarrow> 'w ctl_calls \<Rightarrow> job_ptr \<Rightarrow> 'w ctl_sched \<Rightarrow> 'w ctl_sched res" where
  "ctl_job_callback OS K j s =
     (if callback (jobs s j) = RUN_CLIENT then run_client OS K j s
      else if callback (jobs s j) = FREE_CLIENT then Inr (free_client j s)
      else ctl_other_job OS (k_next_time_changed K) j s)"

section \<open>The program\<close>

text \<open>\<^verbatim>\<open>_schedshm_create_mem_file\<close>; a fresh file is zero. The header has 4096 bytes and a client's slot 128.\<close>

definition schedshm_create_mem_file :: "'w ctl_os \<Rightarrow> 'w ctl_sched \<Rightarrow> 'w ctl_sched res" where
  "schedshm_create_mem_file OS s =
     (let mem_size = 4096 + 128 * CTRL_SCHEDSHM_MAX_CLIENTS in
      usfstl_assert (g_schedshm_fd_mem (env s) = -1) ''g_schedshm_fd_mem == -1'' (
      let (f, w) = ctl_memfd_create OS (ctl_world s); s = with_world w s in
      usfstl_assert (f \<ge> 0) ''g_schedshm_fd_mem >= 0'' (
      usfstl_assert (ctl_memfd_ok OS f mem_size w) ''ftruncate, fcntl and mmap'' (
      Inr (with_ctl (\<lambda>k. k\<lparr>g_schedshm_fd_mem := f, g_schedshm_mem :=
        \<lparr>version = UM_TIMETRAVEL_SCHEDSHM_VERSION, shm_len = of_nat mem_size, free_until = current_time s,
         shm_time = current_time s, running_id = 0, max_clients = of_nat CTRL_SCHEDSHM_MAX_CLIENTS,
         shm_clients = replicate CTRL_SCHEDSHM_MAX_CLIENTS no_shm_client\<rparr>\<rparr>) s)))))"

fun wait_for_clients :: "nat \<Rightarrow> 'w ctl_calls \<Rightarrow> 'w ctl_sched \<Rightarrow> 'w ctl_sched res" where
  "wait_for_clients 0 K s = Inl OutOfFuel"
| "wait_for_clients (Suc n) K s =
     (if of_nat (length (new_clients (env s))) < expected_clients (env s)
      then bind_res (k_loop_wait_and_handle K s) (wait_for_clients n K) else Inr s)"

text \<open>The calls of \<^verbatim>\<open>_schedshm_client_req_time\<close> for each client.\<close>

fun req_time_loop :: "nat \<Rightarrow> 'w ctl_calls \<Rightarrow> client_ptr option \<Rightarrow> 'w ctl_sched \<Rightarrow> 'w ctl_sched res" where
  "req_time_loop fuel K None s = Inr s"
| "req_time_loop 0 K (Some c) s = Inl OutOfFuel"
| "req_time_loop (Suc n) K (Some c) s =
     bind_res (schedshm_client_req_time K c s) (\<lambda>s.
     case item_after (client_list (env s)) c of
       None \<Rightarrow> Inl NullDeref
     | Some nxt \<Rightarrow> req_time_loop n K nxt s)"

definition start_and_request :: "nat \<Rightarrow> 'w ctl_os \<Rightarrow> 'w ctl_calls \<Rightarrow> 'w ctl_sched \<Rightarrow> 'w ctl_sched res" where
  "start_and_request fuel OS K s =
     bind_res (process_starting_clients fuel OS K s) (\<lambda>s.
     req_time_loop fuel K (first_item (client_list (env s))) s)"

fun schedule_loop :: "nat \<Rightarrow> 'w ctl_os \<Rightarrow> 'w ctl_calls \<Rightarrow> 'w ctl_sched \<Rightarrow> 'w ctl_sched res" where
  "schedule_loop 0 OS K s = Inl OutOfFuel"
| "schedule_loop (Suc n) OS K s =
     (if clients (env s) \<noteq> 0 \<and> usfstl_sched_next_pending s None \<noteq> None then
        bind_res (usfstl_sched_next (k_fuel K) (ctl_hooks K) (ctl_job_callback OS K) s) (\<lambda>(_, s).
        bind_res (start_and_request n OS K s) (schedule_loop n OS K))
      else Inr s)"

text \<open>
  The function \<^verbatim>\<open>main\<close> after the options are read, in the mode with a time socket.
  \<open>mem\<close> and \<open>uninit\<close> are the memory and the priority of the socket's loop entry, and
  \<open>net_init\<close> and \<open>net_exit\<close> the functions of \<^verbatim>\<open>control/net.c\<close>.
\<close>

definition ctl_main :: "nat \<Rightarrow> 'w ctl_os \<Rightarrow> ('w ctl_sched \<Rightarrow> 'w ctl_sched res) \<Rightarrow> ('w ctl_sched \<Rightarrow> 'w ctl_sched res) \<Rightarrow>
    entry_ptr option \<Rightarrow> int \<Rightarrow> string \<Rightarrow> 'w ctl_sched \<Rightarrow> 'w ctl_sched res" where
  "ctl_main fuel OS net_init net_exit mem uninit path s =
     (let K = ctl_nest fuel OS;
          s = (if time_at_start (env s) = 0 then with_ctl (\<lambda>k. k\<lparr>time_at_start := ctl_realtime OS (ctl_world s)\<rparr>) s else s)
      in bind_res (net_init s) (\<lambda>s.
         bind_res (usfstl_uds_create (ctl_sys OS) (ctl_uds (env s)) mem uninit path HANDLE_NEW_CONNECTION 0) (\<lambda>u.
         bind_res (schedshm_create_mem_file OS (with_ctl (\<lambda>k. k\<lparr>ctl_uds := u\<rparr>) s)) (\<lambda>s.
         bind_res (usfstl_sched_start (ctl_hooks K) s) (\<lambda>s.
         bind_res (wait_for_clients fuel K s) (\<lambda>s.
         bind_res (start_and_request fuel OS K s) (\<lambda>s.
         bind_res (schedule_loop fuel OS K (with_ctl (\<lambda>k. k\<lparr>started_scheduling := True\<rparr>) s)) (\<lambda>s.
         bind_res (usfstl_uds_remove (ctl_sys OS) (ctl_uds (env s)) path) (\<lambda>u.
         net_exit (with_ctl (\<lambda>k. k\<lparr>ctl_uds := u\<rparr>) s))))))))))"

end
