(* ===== verification/Controller_Inv.thy ===== *)
theory Controller_Inv
  imports Controller
begin

section \<open>The bookkeeping of clients\<close>

definition id_ok :: "u8 \<Rightarrow> bool" where
  "id_ok i \<longleftrightarrow> 0 < unat i \<and> unat i \<le> 64"

definition lists_inv :: "'w ctl \<Rightarrow> bool" where
  "lists_inv k \<longleftrightarrow> distinct (client_list k @ new_clients k)
     \<and> (\<forall>c \<in> set (client_list k). is_started (client k c))
     \<and> (\<forall>c \<in> set (new_clients k). cl_state (client k c) = USCS_START_REQUESTED)
     \<and> sorted_wrt (\<lambda>a b. shm_name (client k a) \<le> shm_name (client k b)) (new_clients k)"

definition ids_inv :: "'w ctl \<Rightarrow> bool" where
  "ids_inv k \<longleftrightarrow> (\<forall>c \<in> set (client_list k). id_ok (cl_id (client k c)))
     \<and> inj_on (\<lambda>c. cl_id (client k c)) (set (client_list k))
     \<and> (\<forall>i < 64. bit (clients k) i \<longleftrightarrow> (\<exists>c \<in> set (client_list k). unat (cl_id (client k c)) = Suc i))"

definition running_inv :: "'w ctl \<Rightarrow> bool" where
  "running_inv k \<longleftrightarrow> (case running_client k of
       None \<Rightarrow> running_id (g_schedshm_mem k) = CTRL_CLIENT_ID
     | Some c \<Rightarrow> c \<in> set (client_list k) \<and> running_id (g_schedshm_mem k) = ucast (cl_id (client k c)))"

definition jobs_inv :: "'w ctl_sched \<Rightarrow> bool" where
  "jobs_inv s \<longleftrightarrow> (\<forall>c. callback (jobs s c) = RUN_CLIENT \<and> (is_started (the_client s c) \<or> usfstl_job_scheduled s c)
     \<longrightarrow> c \<in> set (client_list (env s)))"

definition ctl_inv :: "'w ctl_sched \<Rightarrow> bool" where
  "ctl_inv s \<longleftrightarrow> lists_inv (env s) \<and> ids_inv (env s) \<and> running_inv (env s) \<and> jobs_inv s"

lemmas ctl_inv_defs = ctl_inv_def lists_inv_def ids_inv_def running_inv_def jobs_inv_def is_started_def

lemma env_with [simp]:
  "env (with_ctl f s) = f (env s)"
  "env (with_cl c g s) = (env s)\<lparr>client := (client (env s))(c := g (client (env s) c))\<rparr>"
  "env (with_mem h s) = (env s)\<lparr>g_schedshm_mem := h (g_schedshm_mem (env s))\<rparr>"
  "env (with_loop L s) = (env s)\<lparr>ctl_uds := (ctl_uds (env s))\<lparr>uds_loop := L\<rparr>\<rparr>"
  "env (with_world w s) = (env s)\<lparr>ctl_uds := (ctl_uds (env s))\<lparr>uds_os := w\<rparr>\<rparr>"
  by (simp_all add: with_ctl_def with_cl_def with_mem_def with_loop_def with_world_def)

lemma jobs_with [simp]:
  "jobs (with_ctl f s) = jobs s" "jobs (with_cl c g s) = jobs s" "jobs (with_mem h s) = jobs s"
  "jobs (with_loop L s) = jobs s" "jobs (with_world w s) = jobs s"
  by (simp_all add: with_ctl_def with_cl_def with_mem_def with_loop_def with_world_def)

lemma joblist_with [simp]:
  "joblist (with_ctl f s) = joblist s" "joblist (with_cl c g s) = joblist s" "joblist (with_mem h s) = joblist s"
  "joblist (with_loop L s) = joblist s" "joblist (with_world w s) = joblist s"
  by (simp_all add: with_ctl_def with_cl_def with_mem_def with_loop_def with_world_def)

lemma pending_with [simp]:
  "pending_jobs (with_ctl f s) = pending_jobs s" "pending_jobs (with_cl c g s) = pending_jobs s"
  "pending_jobs (with_mem h s) = pending_jobs s"
  "pending_jobs (with_loop L s) = pending_jobs s" "pending_jobs (with_world w s) = pending_jobs s"
  by (simp_all add: with_ctl_def with_cl_def with_mem_def with_loop_def with_world_def)

lemma scheduled_with [simp]:
  "usfstl_job_scheduled (with_ctl f s) = usfstl_job_scheduled s" "usfstl_job_scheduled (with_cl c g s) = usfstl_job_scheduled s"
  "usfstl_job_scheduled (with_mem h s) = usfstl_job_scheduled s" "usfstl_job_scheduled (with_loop L s) = usfstl_job_scheduled s"
  "usfstl_job_scheduled (with_world w s) = usfstl_job_scheduled s" "usfstl_job_scheduled (with_job j q s) = usfstl_job_scheduled s"
  by (simp_all add: usfstl_job_scheduled_def fun_eq_iff)

text \<open>Changes that the invariant does not see.\<close>

lemma lists_inv_frame [simp]:
  "lists_inv (k\<lparr>nesting := a\<rparr>) = lists_inv k" "lists_inv (k\<lparr>ctl_seq := b\<rparr>) = lists_inv k"
  "lists_inv (k\<lparr>update_sync_running := d\<rparr>) = lists_inv k" "lists_inv (k\<lparr>ctr := e\<rparr>) = lists_inv k"
  "lists_inv (k\<lparr>ctl_sent := g\<rparr>) = lists_inv k" "lists_inv (k\<lparr>ctl_freed := h\<rparr>) = lists_inv k"
  "lists_inv (k\<lparr>time_at_start := t\<rparr>) = lists_inv k" "lists_inv (k\<lparr>started_scheduling := d\<rparr>) = lists_inv k"
  "lists_inv (k\<lparr>ctl_uds := u\<rparr>) = lists_inv k" "lists_inv (k\<lparr>g_schedshm_mem := m\<rparr>) = lists_inv k"
  "lists_inv (k\<lparr>clients := cs\<rparr>) = lists_inv k" "lists_inv (k\<lparr>running_client := r\<rparr>) = lists_inv k"
  by (simp_all add: lists_inv_def)

lemma ids_inv_frame [simp]:
  "ids_inv (k\<lparr>nesting := a\<rparr>) = ids_inv k" "ids_inv (k\<lparr>ctl_seq := b\<rparr>) = ids_inv k"
  "ids_inv (k\<lparr>update_sync_running := d\<rparr>) = ids_inv k" "ids_inv (k\<lparr>ctr := e\<rparr>) = ids_inv k"
  "ids_inv (k\<lparr>ctl_sent := g\<rparr>) = ids_inv k" "ids_inv (k\<lparr>ctl_freed := h\<rparr>) = ids_inv k"
  "ids_inv (k\<lparr>time_at_start := t\<rparr>) = ids_inv k" "ids_inv (k\<lparr>started_scheduling := d\<rparr>) = ids_inv k"
  "ids_inv (k\<lparr>ctl_uds := u\<rparr>) = ids_inv k" "ids_inv (k\<lparr>g_schedshm_mem := m\<rparr>) = ids_inv k"
  "ids_inv (k\<lparr>running_client := r\<rparr>) = ids_inv k" "ids_inv (k\<lparr>new_clients := n\<rparr>) = ids_inv k"
  by (simp_all add: ids_inv_def)

lemma running_inv_frame [simp]:
  "running_inv (k\<lparr>nesting := a\<rparr>) = running_inv k" "running_inv (k\<lparr>ctl_seq := b\<rparr>) = running_inv k"
  "running_inv (k\<lparr>update_sync_running := d\<rparr>) = running_inv k" "running_inv (k\<lparr>ctr := e\<rparr>) = running_inv k"
  "running_inv (k\<lparr>ctl_sent := g\<rparr>) = running_inv k" "running_inv (k\<lparr>ctl_freed := h\<rparr>) = running_inv k"
  "running_inv (k\<lparr>time_at_start := t\<rparr>) = running_inv k" "running_inv (k\<lparr>started_scheduling := d\<rparr>) = running_inv k"
  "running_inv (k\<lparr>ctl_uds := u\<rparr>) = running_inv k" "running_inv (k\<lparr>clients := cs\<rparr>) = running_inv k"
  "running_inv (k\<lparr>new_clients := n\<rparr>) = running_inv k"
  by (simp_all add: running_inv_def cong: option.case_cong)

lemma inv_with_ctl:
  assumes "lists_inv (f (env s)) = lists_inv (env s)" and "ids_inv (f (env s)) = ids_inv (env s)"
    and "running_inv (f (env s)) = running_inv (env s)" and "client (f (env s)) = client (env s)"
    and "client_list (f (env s)) = client_list (env s)"
  shows "ctl_inv (with_ctl f s) = ctl_inv s"
  using assms by (simp add: ctl_inv_def jobs_inv_def)

lemma inv_with_cl_same:
  assumes "is_started (f (the_client s c)) = is_started (the_client s c)"
    and "cl_state (f (the_client s c)) = USCS_START_REQUESTED \<longleftrightarrow> cl_state (the_client s c) = USCS_START_REQUESTED"
    and "cl_id (f (the_client s c)) = cl_id (the_client s c)" and "shm_name (f (the_client s c)) = shm_name (the_client s c)"
  shows "ctl_inv (with_cl c f s) = ctl_inv s"
proof -
  let ?c = "(client (env s))(c := f (client (env s) c))"
  have "is_started (?c d) = is_started (client (env s) d)" "cl_id (?c d) = cl_id (client (env s) d)"
    "shm_name (?c d) = shm_name (client (env s) d)"
    "cl_state (?c d) = USCS_START_REQUESTED \<longleftrightarrow> cl_state (client (env s) d) = USCS_START_REQUESTED" for d
    using assms by simp_all
  then show ?thesis
    by (simp add: ctl_inv_def lists_inv_def ids_inv_def running_inv_def jobs_inv_def del: fun_upd_apply cong: option.case_cong)
qed

lemma inv_with_cl [simp]:
  assumes "\<And>x. cl_state (f x) = cl_state x" and "\<And>x. cl_id (f x) = cl_id x" and "\<And>x. shm_name (f x) = shm_name x"
  shows "ctl_inv (with_cl c f s) = ctl_inv s"
  using assms by (intro inv_with_cl_same) (simp_all add: is_started_def)

lemma inv_with_mem [simp]:
  assumes "\<And>m. running_id (f m) = running_id m"
  shows "ctl_inv (with_mem f s) = ctl_inv s"
  using assms by (simp add: ctl_inv_defs cong: option.case_cong)

lemma inv_with_loop [simp]: "ctl_inv (with_loop L s) = ctl_inv s" "ctl_inv (with_world w s) = ctl_inv s"
  by (simp_all add: ctl_inv_def jobs_inv_def)

lemma inv_with_job_callback [simp]:
  assumes "\<And>b. callback (f b) = callback b"
  shows "ctl_inv (with_job c f s) = ctl_inv s"
  using assms by (auto simp: ctl_inv_def jobs_inv_def)

lemma inv_ctl_del_job [intro]: "ctl_inv s \<Longrightarrow> ctl_inv (usfstl_sched_del_job s c)"
  by (auto simp: ctl_inv_def jobs_inv_def usfstl_job_scheduled_def del_job_lists dest: set_remove1_subset [THEN subsetD])


text \<open>The controller's clock is the one in shared memory.\<close>

lemma ctl_time [simp]:
  "usfstl_sched_current_time (ctl_hooks K) s = (shm_time (g_schedshm_mem (env s)), s)"
  "ctl_now K s = shm_time (g_schedshm_mem (env s))"
  by (simp_all add: ctl_now_def usfstl_sched_current_time_def ctl_hooks_def schedshm_get_time_def)

lemma ctl_request [simp]: "usfstl_sched_external_request (ctl_hooks K) s t = Inr (USFSTL_SCHED_REQ_STATUS_CAN_RUN, s)"
  by (simp add: usfstl_sched_external_request_def ctl_hooks_def no_hooks_def)

lemma ctl_next_time_changed [simp]: "next_time_changed (ctl_hooks K) = Some (k_next_time_changed K)"
  by (simp add: ctl_hooks_def)

text \<open>The clients that wait for their start are kept in the order of their names.\<close>

interpretation nq: insertion_queue "\<lambda>a b. shm_name (cl a) \<le> shm_name (cl b)" "\<lambda>a b. shm_name (cl b) > shm_name (cl a)"
  "\<lambda>_. True" for cl
  by unfold_locales auto

text \<open>Forgetting a client keeps the books for the others.\<close>

lemma inv_detached:
  assumes inv: "ctl_inv s" and un: "detach_client OS c s = Inr s2"
    and r: "running_client (env s) = Some c \<Longrightarrow> running_client (env s3) = None \<and> running_id (g_schedshm_mem (env s3)) = CTRL_CLIENT_ID"
    and r': "running_client (env s) \<noteq> Some c \<Longrightarrow> running_client (env s3) = running_client (env s)
      \<and> running_id (g_schedshm_mem (env s3)) = running_id (g_schedshm_mem (env s))"
    and s3: "clients (env s3) = clients (env s2)" "client_list (env s3) = client_list (env s2)"
      "new_clients (env s3) = new_clients (env s2)" "client (env s3) = client (env s2)"
    and jb: "callback (jobs s3 c) \<noteq> RUN_CLIENT" "\<And>d. d \<noteq> c \<Longrightarrow> callback (jobs s3 d) = callback (jobs s d)"
      "\<And>d. usfstl_job_scheduled s3 d \<Longrightarrow> usfstl_job_scheduled s d"
  shows "ctl_inv s3"
proof -
  have c: "c \<in> set (client_list (env s)) \<or> c \<in> set (new_clients (env s))"
    and e2: "client_list (env s2) = remove1 c (client_list (env s))" "new_clients (env s2) = remove1 c (new_clients (env s))"
      "client (env s2) = client (env s)"
      "clients (env s2) = (if is_started (the_client s c)
         then clients (env s) AND NOT (CTRL_CLIENT_BIT (cl_id (the_client s c))) else clients (env s))"
    using un by (auto simp: detach_client_def client_unlink_def with_shm_client_def Let_def res_simps split: if_splits)
  have st: "is_started (the_client s c) \<longleftrightarrow> c \<in> set (client_list (env s))"
    using inv c by (auto simp: ctl_inv_def lists_inv_def is_started_def)
  have d: "distinct (client_list (env s))" "distinct (new_clients (env s))"
    "set (client_list (env s)) \<inter> set (new_clients (env s)) = {}"
    using inv by (auto simp: ctl_inv_def lists_inv_def)
  have sets: "set (client_list (env s3)) = set (client_list (env s)) - {c}" "set (new_clients (env s3)) = set (new_clients (env s)) - {c}"
    using d by (simp_all add: s3 e2)
  have "lists_inv (env s3)"
    using inv d sets by (auto simp: ctl_inv_def lists_inv_def s3 e2 distinct_remove1_removeAll removeAll_filter_not_eq
        intro: sorted_wrt_filter)
  moreover have "ids_inv (env s3)"
  proof -
    have i: "\<forall>d \<in> set (client_list (env s)). id_ok (cl_id (client (env s) d))"
      "inj_on (\<lambda>d. cl_id (client (env s) d)) (set (client_list (env s)))"
      "\<forall>i < 64. bit (clients (env s)) i \<longleftrightarrow> (\<exists>d \<in> set (client_list (env s)). unat (cl_id (client (env s) d)) = Suc i)"
      using inv by (simp_all add: ctl_inv_def ids_inv_def)
    have "bit (clients (env s3)) i \<longleftrightarrow> (\<exists>d \<in> set (client_list (env s3)). unat (cl_id (client (env s) d)) = Suc i)"
      if "i < 64" for i
    proof (cases "c \<in> set (client_list (env s))")
      case True
      have "unat (cl_id (client (env s) c)) = Suc i \<longleftrightarrow> i = unat (cl_id (client (env s) c)) - 1"
        using i(1) True by (auto simp: id_ok_def)
      moreover have "unat (cl_id (client (env s) d)) = unat (cl_id (client (env s) c)) \<longleftrightarrow> d = c"
        if "d \<in> set (client_list (env s))" for d
        using i(2) True that by (auto simp: inj_on_def word_unat_eq_iff)
      ultimately show ?thesis
        using i(3) that True st unfolding sets by (auto simp: s3(1) e2(4) CTRL_CLIENT_BIT_def bit_simps)
    next
      case False
      then show ?thesis
        using i(3) that st unfolding sets by (auto simp: s3(1) e2(4))
    qed
    then show ?thesis
      using i(1,2) unfolding ids_inv_def sets by (auto simp: s3(4) e2(3) inj_on_def)
  qed
  moreover have "running_inv (env s3)"
    using inv r r' by (cases "running_client (env s) = Some c")
      (auto simp: ctl_inv_def running_inv_def sets s3(4) e2(3) split: option.splits)
  moreover have "jobs_inv s3"
    using inv jb unfolding ctl_inv_def jobs_inv_def sets s3(4) e2(3) by (metis Diff_iff singletonD)
  ultimately show ?thesis
    by (simp add: ctl_inv_def)
qed

lemma inv_quiet [simp]:
  "ctl_inv (with_ctl (\<lambda>k. k\<lparr>ctl_sent := f k\<rparr>) s) = ctl_inv s"
  "ctl_inv (with_ctl (\<lambda>k. k\<lparr>nesting := g k\<rparr>) s) = ctl_inv s"
  "ctl_inv (with_ctl (\<lambda>k. k\<lparr>ctl_seq := h k\<rparr>) s) = ctl_inv s"
  "ctl_inv (with_ctl (\<lambda>k. k\<lparr>update_sync_running := b k\<rparr>) s) = ctl_inv s"
  "ctl_inv (with_ctl (\<lambda>k. k\<lparr>ctl_freed := fr k\<rparr>) s) = ctl_inv s"
  "ctl_inv (with_ctl (\<lambda>k. k\<lparr>ctr := ct k\<rparr>) s) = ctl_inv s"
  "ctl_inv (with_ctl (\<lambda>k. k\<lparr>started_scheduling := b k\<rparr>) s) = ctl_inv s"
  "ctl_inv (with_ctl (\<lambda>k. k\<lparr>ctl_uds := u k\<rparr>) s) = ctl_inv s"
  by (simp_all add: inv_with_ctl)

lemma client_named:
  assumes "ctl_inv s" and "cl_state (the_client s c) \<noteq> USCS_START_REQUESTED" and "\<And>x. cl_state (f x) = cl_state x"
    and "\<And>x. cl_id (f x) = cl_id x"
  shows "ctl_inv (with_cl c f s)"
proof -
  let ?cl = "(client (env s))(c := f (client (env s) c))"
  have c: "c \<notin> set (new_clients (env s))"
    and srt: "sorted_wrt (\<lambda>a b. shm_name (client (env s) a) \<le> shm_name (client (env s) b)) (new_clients (env s))"
    using assms(1,2) by (auto simp: ctl_inv_def lists_inv_def)
  have "?cl a = client (env s) a" if "a \<in> set (new_clients (env s))" for a
    using c that by auto
  then have "sorted_wrt (\<lambda>a b. shm_name (?cl a) \<le> shm_name (?cl b)) (new_clients (env s))"
    by (intro sorted_wrt_mono_rel [OF _ srt]) simp
  moreover have "cl_state (?cl d) = cl_state (client (env s) d)" "cl_id (?cl d) = cl_id (client (env s) d)" for d
    using assms(3,4) by simp_all
  ultimately show ?thesis
    using assms(1) by (simp add: ctl_inv_defs del: fun_upd_apply cong: option.case_cong)
qed

lemma inv_new_client:
  assumes inv: "ctl_inv s" and "cl_state x = USCS_CONNECTED"
    and fresh: "c \<notin> set (client_list (env s))" "c \<notin> set (new_clients (env s))" "\<not> usfstl_job_scheduled s c"
  shows "ctl_inv (with_cl c (\<lambda>_. x) (with_job c (\<lambda>_. b) s))" (is "ctl_inv ?s")
proof -
  let ?cl = "(client (env s))(c := x)"
  have eq: "?cl d = client (env s) d" if "d \<in> set (client_list (env s)) \<or> d \<in> set (new_clients (env s))" for d
    using fresh that by auto
  have "sorted_wrt (\<lambda>a b. shm_name (client (env s) a) \<le> shm_name (client (env s) b)) (new_clients (env s))"
    using inv by (simp add: ctl_inv_def lists_inv_def)
  then have "sorted_wrt (\<lambda>a b. shm_name (?cl a) \<le> shm_name (?cl b)) (new_clients (env s))"
    by (rule sorted_wrt_mono_rel [rotated]) (simp add: eq del: fun_upd_apply)
  then have "lists_inv (env ?s)"
    using inv by (simp add: ctl_inv_def lists_inv_def eq del: fun_upd_apply)
  moreover have "ids_inv (env ?s)" "running_inv (env ?s)"
    using inv by (simp_all add: ctl_inv_def ids_inv_def running_inv_def inj_on_def eq del: fun_upd_apply
        cong: option.case_cong split: option.splits)
  moreover have "jobs_inv ?s"
    using inv assms(2) fresh by (auto simp: ctl_inv_def jobs_inv_def is_started_def)
  ultimately show ?thesis
    by (simp add: ctl_inv_def)
qed

lemma ffsll_cases:
  obtains "builtin_ffsll x = 0" | j where "builtin_ffsll x = Suc j" "j < 64" "bit x j"
  by (cases "find (bit x) [0..<64]") (auto simp: builtin_ffsll_def find_Some_iff)

lemma inv_client_started:
  assumes inv: "ctl_inv s" and c: "c \<in> set (new_clients (env s))" and j: "j < 64" "\<not> bit (clients (env s)) j"
    and x: "is_started x" "cl_id x = of_nat (Suc j)" "shm_name x = shm_name (the_client s c)"
    and s': "env s' = (env s)\<lparr>client := (client (env s))(c := x), clients := clients (env s) OR CTRL_CLIENT_BIT (of_nat (Suc j)),
      new_clients := remove1 c (new_clients (env s)), client_list := client_list (env s) @ [c], running_client := Some c,
      g_schedshm_mem := m\<rparr>" "running_id m = ucast (cl_id x)" "jobs s' = jobs s"
      "usfstl_job_scheduled s' = usfstl_job_scheduled s"
  shows "ctl_inv s'"
proof -
  let ?k = "env s" let ?cl = "(client ?k)(c := x)"
  have lists: "c \<notin> set (client_list ?k)" "distinct (client_list ?k)" "distinct (new_clients ?k)"
    "set (client_list ?k) \<inter> set (new_clients ?k) = {}"
    using inv c by (auto simp: ctl_inv_def lists_inv_def)
  have uj: "unat (of_nat (Suc j) :: u8) = Suc j"
    using j(1) by (simp add: unat_of_nat del: of_nat_Suc)
  have i: "\<forall>d \<in> set (client_list ?k). id_ok (cl_id (client ?k d))"
    "inj_on (\<lambda>d. cl_id (client ?k d)) (set (client_list ?k))"
    "\<forall>i < 64. bit (clients ?k) i \<longleftrightarrow> (\<exists>d \<in> set (client_list ?k). unat (cl_id (client ?k d)) = Suc i)"
    using inv by (simp_all add: ctl_inv_def ids_inv_def)
  have new: "unat (cl_id (client ?k d)) \<noteq> Suc j" if "d \<in> set (client_list ?k)" for d
    using i(3) j that by auto
  have same: "shm_name (?cl d) = shm_name (client ?k d)" for d
    using x(3) by simp
  have "sorted_wrt (\<lambda>a b. shm_name (?cl a) \<le> shm_name (?cl b)) (remove1 c (new_clients ?k))"
    using inv lists unfolding same
    by (auto simp: ctl_inv_def lists_inv_def distinct_remove1_removeAll removeAll_filter_not_eq intro!: sorted_wrt_filter)
  then have "lists_inv (env s')"
    using inv lists x(1) by (auto simp: ctl_inv_def lists_inv_def s')
  moreover have "ids_inv (env s')"
  proof -
    have cid: "cl_id (?cl c) = of_nat (Suc j)"
      by (simp add: x(2) del: of_nat_Suc)
    have old: "?cl d = client ?k d" if "d \<in> set (client_list ?k)" for d
      using that lists(1) by auto
    have "cl_id (?cl c) \<noteq> cl_id (?cl d)" if "d \<in> set (client_list ?k)" for d
      using new [OF that] uj unfolding cid old [OF that] by metis
    then have "inj_on (\<lambda>d. cl_id (?cl d)) (insert c (set (client_list ?k)))"
      using i(2) old unfolding inj_on_def by (metis insert_iff)
    moreover have "bit (clients ?k OR CTRL_CLIENT_BIT (of_nat (Suc j))) i \<longleftrightarrow>
        (\<exists>d \<in> insert c (set (client_list ?k)). unat (cl_id (?cl d)) = Suc i)" if "i < 64" for i
    proof -
      have "bit (clients ?k OR CTRL_CLIENT_BIT (of_nat (Suc j))) i \<longleftrightarrow> bit (clients ?k) i \<or> i = j"
        using that unfolding CTRL_CLIENT_BIT_def uj by (auto simp: bit_simps)
      moreover have "unat (cl_id (?cl c)) = Suc i \<longleftrightarrow> i = j"
        unfolding cid uj by auto
      moreover have "(\<exists>d \<in> set (client_list ?k). unat (cl_id (?cl d)) = Suc i) \<longleftrightarrow>
          (\<exists>d \<in> set (client_list ?k). unat (cl_id (client ?k d)) = Suc i)"
        using old by metis
      ultimately show ?thesis
        using i(3) that by blast
    qed
    ultimately show ?thesis
      using i(1) uj j(1) by (simp add: ids_inv_def s' id_ok_def cid old Un_insert_right del: of_nat_Suc fun_upd_apply)
  qed
  moreover have "running_inv (env s')"
    using x s' by (simp add: running_inv_def)
  moreover have "jobs_inv s'"
    using inv by (auto simp: ctl_inv_def jobs_inv_def s')
  ultimately show ?thesis
    by (simp add: ctl_inv_def)
qed

lemma item_after_mem: "item_after xs x = Some (Some y) \<Longrightarrow> y \<in> set xs"
  by (induction xs x rule: next_item.induct) (auto simp: item_after_def split: if_splits)

lemma set_running_keeps:
  assumes "ctl_inv s" and "\<And>c. r = Some c \<Longrightarrow> c \<in> set (client_list (env s))"
  shows "ctl_inv (set_running_client r s)"
  using assms by (auto simp: ctl_inv_def jobs_inv_def running_inv_def set_running_client_def split: option.splits)

lemma with_shm_client_keeps: "ctl_inv s \<Longrightarrow> res_all ctl_inv (with_shm_client i f s)"
  by (simp add: with_shm_client_def)

lemma start_accepted:
  assumes inv: "ctl_inv s" and st: "cl_state (the_client s c) = USCS_CONNECTED"
  shows "res_all (\<lambda>(_, _, s). ctl_inv s) (handle_start c msg s)"
proof -
  let ?k = "env s"
  let ?f = "\<lambda>x. x\<lparr>start_seq := tt_seq msg, cl_state := USCS_START_REQUESTED\<rparr>"
  let ?cl = "(client ?k)(c := ?f (client ?k c))"
  define n where "n = insert_before_first (\<lambda>x. shm_name (?cl x) > shm_name (?cl c)) c (new_clients ?k)"
  define s1 where "s1 = with_ctl (\<lambda>k. k\<lparr>client := ?cl, new_clients := n\<rparr>) s"
  have c: "c \<notin> set (client_list ?k)" "c \<notin> set (new_clients ?k)"
    using inv st by (auto simp: ctl_inv_defs)
  have n: "set n = insert c (set (new_clients ?k))" "distinct n = distinct (new_clients ?k)"
    using c by (simp_all add: n_def)
  have same: "shm_name (?cl x) = shm_name (client ?k x)" "cl_id (?cl x) = cl_id (client ?k x)" for x
    by simp_all
  have "sorted_wrt (\<lambda>a b. shm_name (?cl a) \<le> shm_name (?cl b)) n"
    unfolding n_def same using inv by (intro nq.insert_sorted) (auto simp: ctl_inv_def lists_inv_def)
  then have "lists_inv (env s1)"
    using inv n c by (auto simp: s1_def ctl_inv_def lists_inv_def)
  moreover have "ids_inv (env s1)" "running_inv (env s1)"
    using inv by (simp_all add: s1_def ctl_inv_def ids_inv_def running_inv_def same del: fun_upd_apply cong: option.case_cong)
  moreover have "jobs_inv s1"
    using inv by (auto simp: s1_def ctl_inv_def jobs_inv_def is_started_def)
  moreover have "handle_start c msg s = Inr (Some UM_TIMETRAVEL_START, 0, s1)"
    using st by (simp add: handle_start_def Let_def s1_def n_def with_cl_def with_ctl_def)
  ultimately show ?thesis
    by (simp add: ctl_inv_def)
qed

text \<open>
  What the operating system and the other users of the main loop must keep: clients
  may write to the shared memory, except for the identifier of the running client;
  \<^verbatim>\<open>malloc\<close> returns memory that is not in use; other handlers keep the bookkeeping.
\<close>

locale controller_os =
  fixes OS :: "'w ctl_os"
  assumes select_keeps: "ctl_select OS n fds s = (ret, rd, s') \<Longrightarrow>
      \<exists>m w. s' = with_world w (with_mem (\<lambda>_. m) s) \<and> running_id m = running_id (g_schedshm_mem (env s))"
    and read_keeps: "ctl_read OS f s = (r, s') \<Longrightarrow>
      \<exists>m w. s' = with_world w (with_mem (\<lambda>_. m) s) \<and> running_id m = running_id (g_schedshm_mem (env s))"
    and malloc_fresh: "ctl_malloc OS s = Some c \<Longrightarrow>
      c \<notin> set (client_list (env s)) \<and> c \<notin> set (new_clients (env s)) \<and> \<not> usfstl_job_scheduled s c"
    and other_keeps: "(\<And>s. ctl_inv s \<Longrightarrow> res_all ctl_inv (N s)) \<Longrightarrow> ctl_inv s \<Longrightarrow> res_all ctl_inv (ctl_other OS N e s)"
    and other_job_keeps: "(\<And>s. ctl_inv s \<Longrightarrow> res_all ctl_inv (N s)) \<Longrightarrow> ctl_inv s \<Longrightarrow> res_all ctl_inv (ctl_other_job OS N j s)"

locale controller_level = controller_os OS for OS :: "'w ctl_os" +
  fixes K :: "'w ctl_calls"
  assumes next_keeps: "ctl_inv s \<Longrightarrow> res_all ctl_inv (k_next_time_changed K s)"
    and pass_keeps: "ctl_inv s \<Longrightarrow> res_all ctl_inv (k_loop_wait_and_handle K s)"
begin

lemma outside_keeps:
  assumes "ctl_inv s" and "\<exists>m w. s' = with_world w (with_mem (\<lambda>_. m) s) \<and> running_id m = running_id (g_schedshm_mem (env s))"
  shows "ctl_inv s'"
  using assms by (auto simp: ctl_inv_defs cong: option.case_cong)

lemma add_job_keeps:
  assumes "ctl_inv s" and "callback (jobs s c) = RUN_CLIENT \<Longrightarrow> c \<in> set (client_list (env s))"
  shows "res_all ctl_inv (usfstl_sched_add_job (ctl_hooks K) s c)"
proof -
  have "ctl_inv (s\<lparr>joblist := insert_before_first (job_goes_before (jobs s) c) c (joblist s)\<rparr>)"
    "ctl_inv ((with_job c (\<lambda>b. b\<lparr>start := 0\<rparr>) s)\<lparr>pending_jobs := pending_jobs s @ [c]\<rparr>)"
    using assms by (auto simp: ctl_inv_def jobs_inv_def usfstl_job_scheduled_def)
  then show ?thesis
    using assms(1) next_keeps by (auto simp: usfstl_sched_add_job_def Let_def intro!: res_all_assert)
qed

lemma remove_client_keeps:
  assumes "ctl_inv s"
  shows "res_all ctl_inv (remove_client OS K c s)"
proof (cases "detach_client OS c s")
  case (Inr s2)
  let ?t = "case usfstl_sched_next_pending s2 None of Some j \<Rightarrow> start (jobs s2 j) | None \<Rightarrow> ctl_now K s2"
  let ?s4 = "with_job c (\<lambda>b. b\<lparr>start := ?t, callback := FREE_CLIENT\<rparr>) s2"
  define s5 where "s5 = (if running_client (env ?s4) = Some c then set_running_client None ?s4 else ?s4)"
  have e5: "clients (env s5) = clients (env s2)" "client_list (env s5) = client_list (env s2)"
      "new_clients (env s5) = new_clients (env s2)" "client (env s5) = client (env s2)" "callback (jobs s5 c) \<noteq> RUN_CLIENT"
    by (simp_all add: s5_def set_running_client_def RUN_CLIENT_def FREE_CLIENT_def)
  have d: "running_client (env s2) = running_client (env s)"
    "running_id (g_schedshm_mem (env s2)) = running_id (g_schedshm_mem (env s))" "jobs s2 = jobs s"
    "usfstl_job_scheduled s2 d \<Longrightarrow> usfstl_job_scheduled s d" for d
    using Inr by (auto simp: detach_client_def client_unlink_def with_shm_client_def Let_def res_simps usfstl_job_scheduled_def
        del_job_lists split: if_splits dest: set_remove1_subset [THEN subsetD])
  have "ctl_inv s5"
  proof (rule inv_detached [OF assms Inr _ _ e5])
    show "\<And>d. d \<noteq> c \<Longrightarrow> callback (jobs s5 d) = callback (jobs s d)"
      "\<And>d. usfstl_job_scheduled s5 d \<Longrightarrow> usfstl_job_scheduled s d"
      using d by (simp_all add: s5_def set_running_client_def split: if_splits)
  qed (use d in \<open>simp_all add: s5_def set_running_client_def\<close>)
  moreover have "remove_client OS K c s = usfstl_sched_add_job (ctl_hooks K) s5 c"
    using Inr by (simp add: remove_client_def s5_def)
  ultimately show ?thesis
    using e5(5) add_job_keeps [of s5 c] by simp
qed (simp add: remove_client_def)

text \<open>Steps through a function: a state that is passed on satisfies the invariant, other values are arbitrary.\<close>

lemma bind_state:
  "res_all ctl_inv (m :: 'w ctl_sched res) \<Longrightarrow> (\<And>s. ctl_inv s \<Longrightarrow> res_all Q (f s)) \<Longrightarrow> res_all Q (bind_res m f)"
  by (rule res_all_bind)

lemma bind_loop: "(\<And>L :: usfstl_loop. res_all Q (f L)) \<Longrightarrow> res_all Q (bind_res m f)"
  by (cases m) auto

lemma bind_bool: "(\<And>b :: bool. res_all Q (f b)) \<Longrightarrow> res_all Q (bind_res m f)"
  by (cases m) auto

lemma bind_pair:
  "res_all (\<lambda>(_, s). ctl_inv s) (m :: ('b \<times> 'w ctl_sched) res) \<Longrightarrow> (\<And>b s. ctl_inv s \<Longrightarrow> res_all Q (f (b, s))) \<Longrightarrow>
   res_all Q (bind_res m f)"
  by (cases m) auto

lemma bind_triple:
  "res_all (\<lambda>(_, _, s). ctl_inv s) (m :: ('b \<times> 'c \<times> 'w ctl_sched) res) \<Longrightarrow>
   (\<And>b c s. ctl_inv s \<Longrightarrow> res_all Q (f (b, c, s))) \<Longrightarrow> res_all Q (bind_res m f)"
  by (cases m) auto

lemmas keeps_intros = bind_state bind_loop bind_bool res_all_assert

lemma write_message_fds_keeps:
  assumes "ctl_inv s"
  shows "res_all (\<lambda>(_, s). ctl_inv s) (write_message_fds OS K c op seq time fds s)"
  using assms by (auto simp: write_message_fds_def Let_def split: prod.split intro!: keeps_intros remove_client_keeps)

lemma write_message_keeps: "ctl_inv s \<Longrightarrow> res_all (\<lambda>(_, s). ctl_inv s) (write_message OS K c op seq time s)"
  by (simp add: write_message_def write_message_fds_keeps)

lemma req_time_keeps:
  assumes "ctl_inv s" and "c \<in> set (client_list (env s))"
  shows "res_all ctl_inv (schedshm_client_req_time K c s)"
  using assms by (auto simp: schedshm_client_req_time_def Let_def intro!: keeps_intros add_job_keeps)

lemma wait_for_loop_keeps: "ctl_inv s \<Longrightarrow> res_all ctl_inv (wait_for_loop n K c op s)"
proof (induction n arbitrary: s)
  case (Suc n)
  then show ?case
    by (auto simp: Let_def intro!: keeps_intros pass_keeps)
qed simp

lemma wait_for_keeps: "ctl_inv s \<Longrightarrow> res_all ctl_inv (wait_for K c op s)"
  by (auto simp: wait_for_def intro!: keeps_intros wait_for_loop_keeps)

lemma send_message_keeps: "ctl_inv s \<Longrightarrow> res_all (\<lambda>(_, s). ctl_inv s) (send_message OS K c op time s)"
  by (auto simp: send_message_def Let_def intro!: bind_pair keeps_intros write_message_keeps wait_for_keeps)

lemma update_sync_keeps:
  assumes "ctl_inv s" and "\<And>d. c = Some d \<Longrightarrow> d \<in> set (client_list (env s))"
  shows "res_all ctl_inv (update_sync OS K c s)"
proof -
  have "ctl_inv (set_running_client c s)" if "c \<noteq> None"
    using assms that by (intro set_running_keeps) auto
  then show ?thesis
    using assms(1) by (auto simp: update_sync_def Let_def split: option.split prod.split
        intro!: bind_pair keeps_intros send_message_keeps)
qed

lemma handle_request_keeps:
  assumes "ctl_inv s"
  shows "res_all (\<lambda>(_, _, s). ctl_inv s) (handle_request K c msg s)"
proof (cases "with_shm_client (cl_id (the_client s c))
    (\<lambda>x. x\<lparr>flags := flags x OR UM_TIMETRAVEL_SCHEDSHM_FLAGS_REQ_RUN, req_time := cl_offset (the_client s c) + tt_time msg\<rparr>) s")
  case (Inr s1)
  have "ctl_inv s1"
    by (rule res_allD [OF with_shm_client_keeps [OF assms] Inr])
  moreover have "c \<in> set (client_list (env s1))"
    if "callback (jobs s1 c) = RUN_CLIENT" "cl_state (the_client s c) = USCS_STARTED"
    using that assms Inr by (auto simp: with_shm_client_def ctl_inv_def jobs_inv_def is_started_def split: if_splits)
  ultimately show ?thesis
    using Inr by (auto simp: handle_request_def Let_def intro!: keeps_intros add_job_keeps inv_ctl_del_job)
qed (auto simp: handle_request_def Let_def intro!: res_all_assert)

lemma handle_wait_keeps: "ctl_inv s \<Longrightarrow> res_all (\<lambda>(_, _, s). ctl_inv s) (handle_wait c s)"
  by (auto simp: handle_wait_def Let_def intro!: keeps_intros set_running_keeps)

lemma set_time_raw_keeps: "ctl_inv s \<Longrightarrow> res_all ctl_inv (usfstl_sched_set_time_raw (ctl_hooks K) s t)"
proof -
  assume inv: "ctl_inv s"
  have "ctl_inv (s\<lparr>env := k\<rparr>)" if "schedshm_set_time (env s) t = Inr k" for k
  proof -
    have "s\<lparr>env := k\<rparr> = with_mem (\<lambda>m. m\<lparr>shm_time := t\<rparr>) s"
      using that by (auto simp: schedshm_set_time_def with_mem_def with_ctl_def res_simps)
    then show ?thesis
      using inv by simp
  qed
  then show ?thesis
    by (cases "schedshm_set_time (env s) t")
      (auto simp: usfstl_sched_set_time_raw_def ctl_hooks_def no_hooks_def usfstl_sched_current_time_def schedshm_get_time_def
        usfstl_assert_def)
qed

lemma set_time_keeps: "ctl_inv s \<Longrightarrow> res_all ctl_inv (usfstl_sched_set_time (ctl_hooks K) s t)"
  by (auto simp: usfstl_sched_set_time_def intro!: res_all_assert set_time_raw_keeps)

lemma handle_update_keeps: "ctl_inv s \<Longrightarrow> res_all (\<lambda>(_, _, s). ctl_inv s) (handle_update K c msg s)"
  by (auto simp: handle_update_def intro!: keeps_intros set_time_keeps)

lemma broadcast_loop_keeps: "ctl_inv s \<Longrightarrow> res_all ctl_inv (broadcast_loop n OS K c t p q s)"
proof (induction n arbitrary: p q s)
  case 0
  then show ?case by (cases p) auto
next
  case (Suc n)
  then show ?case
    by (cases p) (auto split: option.split intro!: bind_pair keeps_intros send_message_keeps)
qed

lemma handle_broadcast_keeps: "ctl_inv s \<Longrightarrow> res_all (\<lambda>(_, _, s). ctl_inv s) (handle_broadcast OS K c msg s)"
  by (auto simp: handle_broadcast_def Let_def intro!: keeps_intros broadcast_loop_keeps)

lemma check_shm_keeps: "ctl_inv s \<Longrightarrow> res_all ctl_inv (check_shm c s)"
  by (auto simp: check_shm_def is_started_def inv_with_cl_same intro!: keeps_intros)

lemma handle_op_keeps:
  assumes "ctl_inv s" and "tt_op msg \<noteq> UM_TIMETRAVEL_START"
  shows "res_all (\<lambda>(_, _, s). ctl_inv s) (handle_op OS K c msg s)"
  using assms unfolding handle_op_def Let_def
  by (auto intro!: keeps_intros handle_request_keeps handle_wait_keeps handle_update_keeps handle_broadcast_keeps
      remove_client_keeps)

text \<open>A second \<^verbatim>\<open>START\<close> of the same client is refused.\<close>

lemma started_again:
  "cl_state (the_client s c) \<noteq> USCS_CONNECTED \<Longrightarrow>
   res_all P (bind_res (check_shm c s) (\<lambda>s. bind_res (handle_start c msg s) f))"
  by (cases "cl_state (the_client s c)"; cases "schedshm_client_has_shm (g_schedshm_mem (env s)) (ucast (cl_id (the_client s c)))")
    (auto simp: check_shm_def handle_start_def Let_def usfstl_assert_def)

lemma handle_message_raw_keeps:
  assumes "ctl_inv s"
  shows "res_all (\<lambda>(_, s). ctl_inv s) (handle_message_raw OS K c s)"
proof -
  obtain ret msg s1 where rd: "ctl_read OS (fd (loop_entry (ctl_loop s) c)) s = ((ret, msg), s1)"
    by (metis surj_pair)
  have inv: "ctl_inv s1"
    using outside_keeps [OF assms read_keeps [OF rd]] .
  define s2 where "s2 = (if tt_op msg = UM_TIMETRAVEL_START \<and> tt_time msg \<noteq> -1
    then with_cl c (\<lambda>x. x\<lparr>shm_name := tt_time msg\<rparr>)
      (with_job c (\<lambda>b. b\<lparr>job_name := ''id:'' @ digits_of 16 16 (unat (tt_time msg))\<rparr>) s1) else s1)"
  have st: "cl_state (the_client s2 c) = cl_state (the_client s1 c)"
    by (simp add: s2_def)
  have eq: "handle_message_raw OS K c s = (if ret \<le> 0 then bind_res (remove_client OS K c s1) (\<lambda>s. Inr (-1, s))
     else usfstl_assert (ret = 16) ''ret == sizeof(msg)'' (bind_res (check_shm c s2) (\<lambda>s.
          bind_res (handle_op OS K c msg s) (\<lambda>(r, val, s). case r of Some r \<Rightarrow> Inr (r, s)
            | None \<Rightarrow> bind_res (write_message OS K c UM_TIMETRAVEL_ACK (tt_seq msg) val s) (\<lambda>(_, s). Inr (tt_op msg, s))))))"
    (is "_ = (if _ then _ else usfstl_assert _ _ (bind_res _ (\<lambda>s. bind_res _ ?rest)))")
    by (simp add: handle_message_raw_def rd s2_def Let_def)
  have rest: "res_all (\<lambda>(_, s). ctl_inv s) (?rest (r, val, s))" if "ctl_inv s" for r val s
    using that by (auto split: option.split intro!: bind_pair write_message_keeps)
  have "res_all (\<lambda>(_, s). ctl_inv s) (bind_res (check_shm c s2) (\<lambda>s. bind_res (handle_op OS K c msg s) ?rest))"
  proof (cases "tt_op msg = UM_TIMETRAVEL_START")
    case True
    have op: "handle_op OS K c msg = handle_start c msg"
      using True by (simp add: handle_op_def fun_eq_iff timetravel_ops)
    show ?thesis
    proof (cases "cl_state (the_client s1 c) = USCS_CONNECTED")
      case conn: True
      have "ctl_inv s2"
        using inv conn by (auto simp: s2_def intro!: client_named)
      moreover have "check_shm c s2 = Inr s2"
        using conn st by (simp add: check_shm_def)
      ultimately show ?thesis
        using conn st rest by (auto simp: op intro!: bind_triple start_accepted)
    next
      case False
      then show ?thesis
        unfolding op using st by (intro started_again) simp
    qed
  next
    case False
    then have "s2 = s1"
      by (simp add: s2_def)
    then show ?thesis
      using inv False rest by (auto intro!: bind_state check_shm_keeps bind_triple handle_op_keeps)
  qed
  then show ?thesis
    using inv unfolding eq by (auto intro!: keeps_intros remove_client_keeps)
qed

lemma handle_message_keeps: "ctl_inv s \<Longrightarrow> res_all ctl_inv (handle_message OS K c s)"
  by (auto simp: handle_message_def intro!: bind_pair res_all_assert handle_message_raw_keeps)

lemma handle_message_wait_keeps: "ctl_inv s \<Longrightarrow> res_all ctl_inv (handle_message_wait OS K c s)"
  by (auto simp: handle_message_wait_def intro!: bind_pair handle_message_raw_keeps)

lemma new_connection_keeps:
  assumes "ctl_inv s"
  shows "res_all ctl_inv (handle_new_connection OS f s)"
  using assms malloc_fresh [of s]
  by (auto simp: handle_new_connection_def Let_def no_client_def intro!: inv_new_client split: option.split)

lemma process_starting_client_keeps:
  assumes inv: "ctl_inv s" and c: "c \<in> set (new_clients (env s))"
  shows "res_all ctl_inv (process_starting_client OS K c s)"
proof (cases "NOT (clients (env s))" rule: ffsll_cases)
  case 1
  then show ?thesis
    by (simp add: process_starting_client_def usfstl_assert_def)
next
  case (2 j)
  let ?i = "of_nat (Suc j) :: u8"
  define x where "x = (the_client s c)\<lparr>cl_offset := ctl_now K s, cl_state := USCS_SHM_CHECK, cl_id := ?i\<rparr>"
  define s1 where "s1 = with_cl c (\<lambda>_. x) s"
  have s1: "with_cl c (\<lambda>x. x\<lparr>cl_offset := ctl_now K s, cl_state := USCS_SHM_CHECK, cl_id := ?i\<rparr>) s = s1"
    by (simp add: s1_def x_def with_cl_def with_ctl_def)
  have x: "is_started x" "cl_id x = of_nat (Suc j)" "shm_name x = shm_name (the_client s c)"
    by (simp_all add: x_def is_started_def del: of_nat_Suc)
  show ?thesis
  proof (cases "with_shm_client ?i (\<lambda>y. y\<lparr>client_name := shm_name (the_client s1 c)\<rparr>) s1")
    case (Inr s2)
    define s3 where "s3 = with_ctl (\<lambda>k. k\<lparr>clients := clients k OR CTRL_CLIENT_BIT ?i\<rparr>) s2"
    define s4 where "s4 = with_ctl (\<lambda>k. k\<lparr>client_list := remove1 c (client_list k), new_clients := remove1 c (new_clients k)\<rparr>) s3"
    define s5 where "s5 = set_running_client (Some c) (with_ctl (\<lambda>k. k\<lparr>client_list := client_list k @ [c]\<rparr>) s4)"
    have cl: "c \<notin> set (client_list (env s))"
      using inv c by (auto simp: ctl_inv_def lists_inv_def)
    have un: "client_unlink c s3 = Inr s4"
      using Inr c by (auto simp: client_unlink_def s3_def s4_def s1_def with_shm_client_def split: if_splits)
    have s5: "ctl_inv s5"
      using inv c 2(2) _ x
    proof (rule inv_client_started)
      show "\<not> bit (clients (env s)) j"
        using 2(2,3) by (simp add: bit_simps)
      show "env s5 = (env s)\<lparr>client := (client (env s))(c := x), clients := clients (env s) OR CTRL_CLIENT_BIT (of_nat (Suc j)),
          new_clients := remove1 c (new_clients (env s)), client_list := client_list (env s) @ [c], running_client := Some c,
          g_schedshm_mem := g_schedshm_mem (env s5)\<rparr>"
        using Inr cl by (auto simp: s5_def s4_def s3_def s1_def with_shm_client_def set_running_client_def remove1_idem
            simp del: of_nat_Suc split: if_splits)
    qed (use Inr in \<open>auto simp: s5_def s4_def s3_def s1_def x_def with_shm_client_def set_running_client_def
            simp del: of_nat_Suc split: if_splits\<close>)
    have "process_starting_client OS K c s = usfstl_assert (?i \<noteq> 0) ''client->id'' (
       usfstl_assert (ucast ?i AND NOT UM_TIMETRAVEL_START_ACK_ID = 0) ''client->id & ~UM_TIMETRAVEL_START_ACK_ID == 0'' (
       bind_res (if disable_shm (env s5) then write_message OS K c UM_TIMETRAVEL_ACK (start_seq (the_client s5 c)) 0 s5
                 else write_message_fds OS K c UM_TIMETRAVEL_ACK (start_seq (the_client s5 c))
                   (ucast ?i AND UM_TIMETRAVEL_START_ACK_ID) [g_schedshm_fd_mem (env s), ctl_stdout OS] s5) (\<lambda>(_, s).
       wait_for K c UM_TIMETRAVEL_WAIT s)))"
      unfolding process_starting_client_def Let_def 2(1) s1 Inr bind_res_simps s3_def [symmetric] un s5_def [symmetric] ..
    then show ?thesis
      using s5 by (auto intro!: keeps_intros bind_pair write_message_keeps write_message_fds_keeps wait_for_keeps simp del: of_nat_Suc)
  next
    case (Inl e)
    then show ?thesis
      unfolding process_starting_client_def Let_def 2(1) s1 Inl bind_res_simps by (simp add: usfstl_assert_def)
  qed
qed

lemma process_starting_clients_keeps: "ctl_inv s \<Longrightarrow> res_all ctl_inv (process_starting_clients n OS K s)"
proof (induction n arbitrary: s)
  case (Suc n)
  then show ?case
    by (auto simp: first_item_Some_iff split: option.split intro!: bind_state process_starting_client_keeps)
qed simp

lemma run_client_keeps:
  assumes "ctl_inv s" and "c \<in> set (client_list (env s))"
  shows "res_all ctl_inv (run_client OS K c s)"
  using assms by (auto simp: run_client_def intro!: bind_pair keeps_intros update_sync_keeps with_shm_client_keeps
      send_message_keeps wait_for_keeps)

lemma entry_handler_keeps: "ctl_inv s \<Longrightarrow> res_all ctl_inv (ctl_entry_handler OS K e s)"
  by (auto simp: ctl_entry_handler_def Let_def split: prod.split
      intro!: handle_message_keeps handle_message_wait_keeps new_connection_keeps other_keeps next_keeps)

lemma loop_pass_keeps:
  assumes "ctl_inv s"
  shows "res_all ctl_inv (ctl_loop_pass OS K s)"
proof -
  obtain ret rd s1 where sel: "ctl_select OS (loop_max_fd (ctl_loop s) + 1)
      (map (\<lambda>e. fd (loop_entry (ctl_loop s) e)) (g_usfstl_loop_entries (ctl_loop s))) s = (ret, rd, s1)"
    by (metis surj_pair)
  have "ctl_inv s1"
    by (rule outside_keeps [OF assms select_keeps [OF sel]])
  then have "res_all ctl_inv (bind_res (ctl_entry_handler OS K e s1) Inr)" for e
    by (auto intro!: bind_state entry_handler_keeps)
  then show ?thesis
    using \<open>ctl_inv s1\<close> by (auto simp: ctl_loop_pass_def usfstl_loop_wait_and_handle_def sel Let_def usfstl_assert_def bind_res_assoc
        split: option.split)
qed

lemma sched_next_keeps:
  "ctl_inv s \<Longrightarrow> res_all (\<lambda>(_, s). ctl_inv s) (usfstl_sched_next n (ctl_hooks K) (ctl_job_callback OS K) s)"
proof (induction n arbitrary: s)
  case (Suc n)
  show ?case
  proof (cases "usfstl_sched_next_pending s None")
    case None
    then show ?thesis
      by (simp add: ctl_hooks_def no_hooks_def)
  next
    case (Some j)
    have fwd: "res_all ctl_inv (if usfstl_time_cmp (start (jobs s j)) (>) (shm_time (g_schedshm_mem (env s)))
        then usfstl_sched_forward (ctl_hooks K) s (start (jobs s j)) else Inr s)"
      using Suc.prems by (auto simp: usfstl_sched_forward_def intro!: res_all_assert set_time_raw_keeps)
    have run: "res_all ctl_inv (ctl_job_callback OS K j (usfstl_sched_del_job t j))"
      if "ctl_inv t" "usfstl_sched_next_pending t None = Some j" for t
    proof -
      have "usfstl_job_scheduled t j"
        using that(2) by (auto simp: usfstl_sched_next_pending_def first_item_Some_iff usfstl_job_scheduled_def)
      then have "callback (jobs t j) = RUN_CLIENT \<Longrightarrow> j \<in> set (client_list (env t))"
        using that(1) by (simp add: ctl_inv_def jobs_inv_def)
      then show ?thesis
        using that(1) by (auto simp: ctl_job_callback_def free_client_def intro!: run_client_keeps other_job_keeps next_keeps
            inv_ctl_del_job)
    qed
    show ?thesis
      unfolding usfstl_sched_next.simps Some option.case ctl_time Let_def prod.case
      using Suc.IH run by (intro bind_state [OF fwd]) (auto intro!: bind_state [OF run])
  qed
qed simp

lemma req_time_loop_keeps:
  "ctl_inv s \<Longrightarrow> (\<And>d. c = Some d \<Longrightarrow> d \<in> set (client_list (env s))) \<Longrightarrow> res_all ctl_inv (req_time_loop n K c s)"
proof (induction n arbitrary: c s)
  case 0
  then show ?case by (cases c) auto
next
  case (Suc n)
  show ?case
  proof (cases c)
    case (Some d)
    have "res_all ctl_inv (case item_after (client_list (env t)) d of None \<Rightarrow> Inl NullDeref
        | Some nxt \<Rightarrow> req_time_loop n K nxt t)" if "ctl_inv t" for t
      using that item_after_mem [of "client_list (env t)" d] by (auto split: option.split intro!: Suc.IH)
    then show ?thesis
      using Some Suc.prems by (auto intro!: bind_state req_time_keeps)
  qed (use Suc.prems in simp)
qed

lemma start_and_request_keeps: "ctl_inv s \<Longrightarrow> res_all ctl_inv (start_and_request n OS K s)"
  by (auto simp: start_and_request_def first_item_Some_iff
      intro!: bind_state process_starting_clients_keeps req_time_loop_keeps)

lemma schedule_loop_keeps: "ctl_inv s \<Longrightarrow> res_all ctl_inv (schedule_loop n OS K s)"
proof (induction n arbitrary: s)
  case (Suc n)
  then show ?case
    by (auto intro!: bind_pair bind_state sched_next_keeps start_and_request_keeps)
qed simp

end

lemma nest_level:
  assumes "controller_os OS"
  shows "controller_level OS (ctl_nest n OS)"
proof (induction n)
  case 0
  then show ?case
    using assms by (simp add: controller_level_def controller_level_axioms_def)
next
  case (Suc n)
  then show ?case
    using assms controller_level.update_sync_keeps [OF Suc, where c = None] controller_level.loop_pass_keeps [OF Suc]
    by (simp add: controller_level_def controller_level_axioms_def)
qed

text \<open>What the program does once it is set up, with nested calls to any depth.\<close>

inductive ctl_step :: "'w ctl_os \<Rightarrow> 'w ctl_sched \<Rightarrow> 'w ctl_sched \<Rightarrow> bool" for OS where
  step_pass: "ctl_loop_pass OS (ctl_nest n OS) s = Inr s' \<Longrightarrow> ctl_step OS s s'"
| step_next: "usfstl_sched_next m (ctl_hooks (ctl_nest n OS)) (ctl_job_callback OS (ctl_nest n OS)) s = Inr (j, s') \<Longrightarrow>
    ctl_step OS s s'"
| step_start: "process_starting_clients m OS (ctl_nest n OS) s = Inr s' \<Longrightarrow> ctl_step OS s s'"
| step_request: "c \<in> set (client_list (env s)) \<Longrightarrow> schedshm_client_req_time (ctl_nest n OS) c s = Inr s' \<Longrightarrow> ctl_step OS s s'"
| step_begin: "ctl_step OS s (with_ctl (\<lambda>k. k\<lparr>started_scheduling := True\<rparr>) s)"

text \<open>The state before the first client has sent its \<^verbatim>\<open>START\<close>.\<close>

definition ctl_fresh :: "'w ctl_sched \<Rightarrow> bool" where
  "ctl_fresh s \<longleftrightarrow> clients (env s) = 0 \<and> client_list (env s) = [] \<and> new_clients (env s) = []
     \<and> running_client (env s) = None \<and> running_id (g_schedshm_mem (env s)) = CTRL_CLIENT_ID
     \<and> (\<forall>c. callback (jobs s c) = RUN_CLIENT \<longrightarrow> cl_state (the_client s c) = USCS_CONNECTED \<and> \<not> usfstl_job_scheduled s c)"

lemma fresh_inv: "ctl_fresh s \<Longrightarrow> ctl_inv s"
  by (auto simp: ctl_fresh_def ctl_inv_defs)

lemma step_inv:
  assumes "controller_os OS" and "ctl_step OS s s'" and "ctl_inv s"
  shows "ctl_inv s'"
  using assms(2,3)
proof cases
  case (step_pass n)
  then show ?thesis
    using controller_level.loop_pass_keeps [OF nest_level [OF assms(1)] assms(3)] by (metis res_allD)
next
  case (step_next m n j)
  then show ?thesis
    using res_allD [OF controller_level.sched_next_keeps [OF nest_level [OF assms(1)] assms(3)]] by fastforce
next
  case (step_start m n)
  then show ?thesis
    using controller_level.process_starting_clients_keeps [OF nest_level [OF assms(1)] assms(3)] by (metis res_allD)
next
  case (step_request c n)
  then show ?thesis
    using controller_level.req_time_keeps [OF nest_level [OF assms(1)] assms(3)] by (metis res_allD)
qed (use assms(3) in \<open>simp add: inv_quiet\<close>)

text \<open>
  C29: the controller never mixes up its clients. In every state it reaches, whatever
  messages the clients send, in whatever order and however deeply their handling is
  nested, the started clients have different identifiers between 1 and 64, the bit
  mask of used identifiers is exactly the set of these, clients that wait for their
  start are sorted by name and are not started, the running client is a started one
  and announced as such in shared memory, and only started clients are scheduled to run.
\<close>

theorem controller_invariant:
  assumes "controller_os OS" and "ctl_fresh s" and "(ctl_step OS)\<^sup>*\<^sup>* s s'"
  shows "lists_inv (env s') \<and> ids_inv (env s') \<and> running_inv (env s') \<and> jobs_inv s'"
  using assms(3) fresh_inv [OF assms(2)] step_inv [OF assms(1)]
  by (induction rule: rtranclp_induct) (auto simp: ctl_inv_def)

section \<open>Clients as a queue of messages\<close>

text \<open>
  An operating system whose sockets deliver a given sequence of messages, each with
  the descriptor it arrives on, and accept every message that is sent.
\<close>

type_synonym msg_queue = "(int \<times> um_timetravel_msg) list"

definition queue_select :: "u32 \<Rightarrow> int list \<Rightarrow> msg_queue ctl_sched \<Rightarrow> int \<times> int list \<times> msg_queue ctl_sched" where
  "queue_select n fds s = (case ctl_world s of [] \<Rightarrow> (0, [], s) | (f, _) # _ \<Rightarrow> (1, [f], s))"

definition queue_read :: "int \<Rightarrow> msg_queue ctl_sched \<Rightarrow> (int \<times> um_timetravel_msg) \<times> msg_queue ctl_sched" where
  "queue_read f s = (case ctl_world s of
      [] \<Rightarrow> ((0, \<lparr>tt_op = 0, tt_seq = 0, tt_time = 0\<rparr>), s)
    | (g, m) # rest \<Rightarrow> if g = f then ((16, m), with_world rest s) else ((0, m), s))"

definition fresh_ptr :: "'w ctl_sched \<Rightarrow> client_ptr" where
  "fresh_ptr s = Suc (fold max (client_list (env s) @ new_clients (env s) @ joblist s @ pending_jobs s) 0)"

definition queue_os :: "msg_queue ctl_os" where
  "queue_os = \<lparr>
     ctl_sys = \<lparr>sys_stat = \<lambda>_ _. StatNoEntry, sys_unlink = \<lambda>_ w. (0, w), sys_socket = \<lambda>w. (3, w), sys_bind = \<lambda>_ _ w. (0, w),
       sys_listen = \<lambda>_ w. (0, w), sys_accept = \<lambda>_ w. (4, w), sys_connect = \<lambda>_ _ w. (0, w), sys_close = \<lambda>_ w. w\<rparr>,
     ctl_select = queue_select, ctl_read = queue_read, ctl_sendmsg = \<lambda>_ _ _ w. (16, w),
     ctl_malloc = \<lambda>s. Some (fresh_ptr s), ctl_peer_pid = \<lambda>_ _. None, ctl_memfd_create = \<lambda>w. (5, w),
     ctl_memfd_ok = \<lambda>_ _ _. True, ctl_stdout = 1, ctl_realtime = \<lambda>_. 0, ctl_other = \<lambda>_ _. Inr, ctl_other_job = \<lambda>_ _. Inr\<rparr>"

lemma with_own [simp]: "with_world (ctl_world s) (with_mem (\<lambda>_. g_schedshm_mem (env s)) s) = s"
  by (simp add: with_world_def with_mem_def with_ctl_def)

lemma own_world:
  "\<exists>m w. s = with_world w (with_mem (\<lambda>_. m) s) \<and> running_id m = running_id (g_schedshm_mem (env s))"
  "\<exists>m w. with_world w' s = with_world w (with_mem (\<lambda>_. m) s) \<and> running_id m = running_id (g_schedshm_mem (env s))"
proof -
  have "with_world w' s = with_world w' (with_mem (\<lambda>_. g_schedshm_mem (env s)) s)"
    by (simp add: with_world_def with_mem_def with_ctl_def)
  then show "\<exists>m w. with_world w' s = with_world w (with_mem (\<lambda>_. m) s) \<and> running_id m = running_id (g_schedshm_mem (env s))"
    by blast
qed (use with_own [of s, symmetric] in blast)

lemma fold_max_ge: "(x :: nat) \<in> set xs \<or> x \<le> a \<Longrightarrow> x \<le> fold max xs a"
  by (induction xs arbitrary: a) (auto simp: le_max_iff_disj)

interpretation qos: controller_os queue_os
proof unfold_locales
  fix n f fds ret rd r and s s' :: "msg_queue ctl_sched"
  let ?kept = "\<exists>m w. s' = with_world w (with_mem (\<lambda>_. m) s) \<and> running_id m = running_id (g_schedshm_mem (env s))"
  show ?kept if "ctl_select queue_os n fds s = (ret, rd, s')"
  proof -
    have "s' = s"
      using that by (auto simp: queue_os_def queue_select_def split: list.splits)
    then show ?thesis
      using own_world(1) by blast
  qed
  show ?kept if "ctl_read queue_os f s = (r, s')"
  proof -
    have "s' = s \<or> (\<exists>w. s' = with_world w s)"
      using that by (auto simp: queue_os_def queue_read_def split: list.splits if_splits)
    then show ?thesis
      using own_world(1) [of s] own_world(2) [where s = s] by blast
  qed
next
  fix s :: "msg_queue ctl_sched" and c
  assume "ctl_malloc queue_os s = Some c"
  then have "c = fresh_ptr s"
    by (simp add: queue_os_def)
  then have "c \<noteq> x" if "x \<in> set (client_list (env s) @ new_clients (env s) @ joblist s @ pending_jobs s)" for x
    using fold_max_ge [of x "client_list (env s) @ new_clients (env s) @ joblist s @ pending_jobs s" 0] that
    unfolding fresh_ptr_def by linarith
  then show "c \<notin> set (client_list (env s)) \<and> c \<notin> set (new_clients (env s)) \<and> \<not> usfstl_job_scheduled s c"
    by (auto simp: usfstl_job_scheduled_def)
qed (simp_all add: queue_os_def)

interpretation ql: controller_level queue_os "ctl_nest n queue_os" for n
  by (rule nest_level [OF qos.controller_os_axioms])

text \<open>Two clients on the descriptors 7 and 8 that have connected and not yet sent anything.\<close>

definition example_msgs :: msg_queue where
  "example_msgs = [(8, \<lparr>tt_op = UM_TIMETRAVEL_START, tt_seq = 1, tt_time = 0x20\<rparr>),
     (7, \<lparr>tt_op = UM_TIMETRAVEL_START, tt_seq = 1, tt_time = 0x10\<rparr>)]"

definition example_ctl :: "msg_queue \<Rightarrow> msg_queue ctl" where
  "example_ctl w = \<lparr>clients = 0, expected_clients = 2, running_client = None, time_at_start = 0, nesting = 0,
     g_schedshm_mem = \<lparr>version = 2, shm_len = 0, free_until = 0, shm_time = 0, running_id = 0, max_clients = 64,
       shm_clients = replicate 64 no_shm_client\<rparr>,
     g_schedshm_fd_mem = 5, started_scheduling = False, client_list = [], new_clients = [], disable_shm = False,
     client = (\<lambda>_. no_client), ctl_seq = 0, update_sync_running = False, ctr = 2, ctl_sent = [], ctl_freed = [],
     ctl_uds = \<lparr>uds_loop = \<lparr>g_usfstl_loop_entries = [1, 2],
         loop_entry = (\<lambda>e. new_entry HANDLE_MESSAGE (int e + 6) 0), g_usfstl_loop_pre_handler_fn = None,
         g_usfstl_loop_pre_handler_fn_data = 0\<rparr>,
       uds_server = (\<lambda>_. \<lparr>uds_connected = 0, uds_server_data = 0, uds_name = []\<rparr>),
       uds_client = (\<lambda>_. \<lparr>uds_readable = 0, uds_client_data = 0\<rparr>), uds_os = w\<rparr>\<rparr>"

definition example_ctl_job :: usfstl_job where
  "example_ctl_job = \<lparr>start = 0, priority = 0, group = 1, job_name = [], job_data = 0, callback = RUN_CLIENT,
     blocked = False, pending = False\<rparr>"

definition example_ctl_sched :: "msg_queue \<Rightarrow> msg_queue ctl_sched" where
  "example_ctl_sched w = USFSTL_SCHEDULER ''controller'' (\<lambda>_. example_ctl_job) (example_ctl w)"

lemma example_fresh: "ctl_fresh (example_ctl_sched w)"
  by (simp add: ctl_fresh_def example_ctl_sched_def USFSTL_SCHEDULER_def example_ctl_def CTRL_CLIENT_ID_def no_client_def
      usfstl_job_scheduled_def)

theorem controller_invariant_witness:
  "\<exists>s s'. ctl_loop_pass queue_os (ctl_nest 1 queue_os) (example_ctl_sched example_msgs) = Inr s
     \<and> ctl_loop_pass queue_os (ctl_nest 1 queue_os) s = Inr s'
     \<and> new_clients (env s') = [1, 2] \<and> lists_inv (env s') \<and> ids_inv (env s') \<and> running_inv (env s') \<and> jobs_inv s'"
proof -
  let ?p = "ctl_loop_pass queue_os (ctl_nest 1 queue_os)"
  have "\<exists>s s'. ?p (example_ctl_sched example_msgs) = Inr s \<and> ?p s = Inr s' \<and> new_clients (env s') = [1, 2]"
    by (simp add: ctl_loop_pass_def usfstl_loop_wait_and_handle_def queue_os_def queue_select_def queue_read_def
        example_ctl_sched_def USFSTL_SCHEDULER_def example_ctl_def example_msgs_def ctl_entry_handler_def Let_def
        handle_message_def handle_message_raw_def new_entry_def check_shm_def handle_op_def handle_start_def
        with_world_def with_ctl_def with_cl_def with_job_def no_client_def timetravel_ops usfstl_assert_def)
  then obtain s s' where s: "?p (example_ctl_sched example_msgs) = Inr s" "?p s = Inr s'" "new_clients (env s') = [1, 2]"
    by blast
  then have "(ctl_step queue_os)\<^sup>*\<^sup>* (example_ctl_sched example_msgs) s'"
    by (meson ctl_step.step_pass converse_rtranclp_into_rtranclp r_into_rtranclp)
  from controller_invariant [OF qos.controller_os_axioms example_fresh this] s show ?thesis
    by blast
qed

end
