(* ===== verification/Controller_Run.thy ===== *)
theory Controller_Run
  imports Controller_Inv
begin

text \<open>
  The protocol between the controller and a client: a client that asks for run time
  gets it at the requested time, and the controller then waits until the client is
  done. The clients are a queue of messages, as in \<open>Controller_Inv\<close>.
\<close>

section \<open>Reading messages\<close>

definition queue_clients :: "msg_queue ctl_os \<Rightarrow> bool" where
  "queue_clients OS \<longleftrightarrow> ctl_select OS = queue_select \<and> ctl_read OS = queue_read \<and> ctl_sendmsg OS = (\<lambda>_ _ _ w. (16, w))"

text \<open>The client's socket is registered, is not that of any other entry, and messages on it are handled as usual.\<close>

definition client_ready :: "client_ptr \<Rightarrow> usfstl_loop \<Rightarrow> bool" where
  "client_ready c L \<longleftrightarrow> c \<in> set (g_usfstl_loop_entries L) \<and> distinct (g_usfstl_loop_entries L)
     \<and> handler (loop_entry L c) = HANDLE_MESSAGE \<and> g_usfstl_loop_pre_handler_fn L = None
     \<and> (\<forall>e \<in> set (g_usfstl_loop_entries L). fd (loop_entry L e) = fd (loop_entry L c) \<longrightarrow> e = c)"

abbreviation cl_fd :: "'w ctl_sched \<Rightarrow> client_ptr \<Rightarrow> int" where
  "cl_fd s c \<equiv> fd (loop_entry (ctl_loop s) c)"

lemma pass_handles:
  assumes "queue_clients OS" and "ctl_world s = (cl_fd s c, m) # rest" and "c \<in> set (g_usfstl_loop_entries (ctl_loop s))"
    and "\<forall>e \<in> set (g_usfstl_loop_entries (ctl_loop s)). cl_fd s e = cl_fd s c \<longrightarrow> e = c"
    and "g_usfstl_loop_pre_handler_fn (ctl_loop s) = None"
  shows "ctl_loop_pass OS K s = ctl_entry_handler OS K c s"
proof -
  have "find (\<lambda>e. cl_fd s e \<in> set [cl_fd s c]) (g_usfstl_loop_entries (ctl_loop s)) = Some c"
    using assms(3,4) by (intro find_unique) auto
  then show ?thesis
    using assms by (simp add: ctl_loop_pass_def usfstl_loop_wait_and_handle_def queue_clients_def queue_select_def bind_res_assoc)
      (cases "ctl_entry_handler OS K c s"; simp)
qed

lemma raw_handles:
  assumes "queue_clients OS" and "ctl_world s = (cl_fd s c, m) # rest" and "cl_state (the_client s c) = USCS_STARTED"
    and "tt_op m \<noteq> UM_TIMETRAVEL_START"
  shows "handle_message_raw OS K c s =
    bind_res (handle_op OS K c m (with_world rest s)) (\<lambda>(r, val, s). case r of Some r \<Rightarrow> Inr (r, s)
      | None \<Rightarrow> bind_res (write_message OS K c UM_TIMETRAVEL_ACK (tt_seq m) val s) (\<lambda>(_, s). Inr (tt_op m, s)))"
  using assms by (simp add: handle_message_raw_def queue_clients_def queue_read_def check_shm_def)

lemma handle_op_cases:
  "tt_op m = UM_TIMETRAVEL_ACK \<Longrightarrow> handle_op OS K c m s = Inr (Some UM_TIMETRAVEL_ACK, 0, s)"
  "tt_op m = UM_TIMETRAVEL_WAIT \<Longrightarrow> handle_op OS K c m s = handle_wait c s"
  "tt_op m = UM_TIMETRAVEL_REQUEST \<Longrightarrow> handle_op OS K c m s = handle_request K c m s"
  by (simp_all add: handle_op_def Let_def timetravel_ops)

lemma write_succeeds:
  assumes "queue_clients OS" and "callback (jobs s c) \<noteq> FREE_CLIENT"
  shows "write_message OS K c op seq time s
    = Inr (True, with_ctl (\<lambda>k. k\<lparr>ctl_sent := ctl_sent k @ [(c, \<lparr>tt_op = op, tt_seq = seq, tt_time = time\<rparr>, [])]\<rparr>) s)"
  using assms by (simp add: write_message_def write_message_fds_def queue_clients_def with_world_def with_ctl_def)

lemma set_running_sel [simp]:
  "env (set_running_client r s) = (env s)\<lparr>running_client := r, g_schedshm_mem := (g_schedshm_mem (env s))
     \<lparr>running_id := (case r of Some c \<Rightarrow> ucast (cl_id (the_client s c)) | None \<Rightarrow> CTRL_CLIENT_ID)\<rparr>\<rparr>"
  "jobs (set_running_client r s) = jobs s" "joblist (set_running_client r s) = joblist s"
  by (simp_all add: set_running_client_def)

section \<open>Waiting\<close>

abbreviation nested :: "int \<Rightarrow> 'w ctl_sched \<Rightarrow> 'w ctl_sched" where
  "nested d \<equiv> with_ctl (\<lambda>k. k\<lparr>nesting := nesting k + d\<rparr>)"

abbreviation waits_for :: "client_ptr \<Rightarrow> u64 \<Rightarrow> 'w ctl_sched \<Rightarrow> 'w ctl_sched" where
  "waits_for c op \<equiv> with_cl c (\<lambda>x. x\<lparr>last_message := -2, waiting_for := op\<rparr>)"

text \<open>Registering the client's entry again, with another priority or handler.\<close>

lemma reregister:
  assumes "c \<in> set (g_usfstl_loop_entries L)" and "distinct (g_usfstl_loop_entries L)"
    and "\<forall>e \<in> set (g_usfstl_loop_entries L). fd (loop_entry L e) = fd (loop_entry L c) \<longrightarrow> e = c"
    and "g_usfstl_loop_pre_handler_fn L = None"
  obtains L1 L2 where "usfstl_loop_unregister L c = Inr L1"
    and "register_entry c ((loop_entry L1 c)\<lparr>loop_priority := p, handler := h\<rparr>) L1 = L2"
    and "loop_entry L1 = loop_entry L" and "c \<in> set (g_usfstl_loop_entries L2)" and "distinct (g_usfstl_loop_entries L2)"
    and "\<forall>e \<in> set (g_usfstl_loop_entries L2). fd (loop_entry L2 e) = fd (loop_entry L2 c) \<longrightarrow> e = c"
    and "g_usfstl_loop_pre_handler_fn L2 = None" and "fd (loop_entry L2 c) = fd (loop_entry L c)"
    and "handler (loop_entry L2 c) = h" and "loop_priority (loop_entry L2 c) = p"
proof -
  let ?L1 = "L\<lparr>g_usfstl_loop_entries := remove1 c (g_usfstl_loop_entries L)\<rparr>"
  show thesis
    by (rule that [of ?L1, OF _ refl])
      (use assms in \<open>auto simp: usfstl_loop_unregister_def register_entry_def usfstl_loop_register_def\<close>)
qed

text \<open>Waiting for the message that comes next takes one pass of the main loop.\<close>

lemma wait_one:
  assumes q: "queue_clients OS" and w: "ctl_world s = (cl_fd s c, m) # rest" and rdy: "client_ready c (ctl_loop s)"
    and raw: "\<And>L. fd (loop_entry L c) = cl_fd s c \<Longrightarrow>
      handle_message_raw OS (ctl_nest (Suc n) OS) c (with_loop L (waits_for c (ucast op) (nested 1 s))) = Inr (op, F L)"
    and F: "\<And>L. ctl_loop (F L) = L"
  shows "\<exists>L L'. client_ready c L' \<and> fd (loop_entry L' c) = cl_fd s c
    \<and> wait_for (ctl_nest (Suc (Suc n)) OS) c op s = Inr (nested (-1) (waits_for c (-1) (with_loop L' (F L))))"
proof -
  let ?K = "ctl_nest (Suc (Suc n)) OS"
  let ?s = "waits_for c (ucast op) (nested 1 s)"
  from rdy have r: "c \<in> set (g_usfstl_loop_entries (ctl_loop s))" "distinct (g_usfstl_loop_entries (ctl_loop s))"
    "\<forall>e \<in> set (g_usfstl_loop_entries (ctl_loop s)). cl_fd s e = cl_fd s c \<longrightarrow> e = c"
    "g_usfstl_loop_pre_handler_fn (ctl_loop s) = None" "handler (loop_entry (ctl_loop s) c) = HANDLE_MESSAGE"
    by (simp_all add: client_ready_def)
  obtain L1 L2 where L: "usfstl_loop_unregister (ctl_loop s) c = Inr L1"
    "register_entry c ((loop_entry L1 c)\<lparr>loop_priority := 0x7fffffff, handler := HANDLE_MESSAGE_WAIT\<rparr>) L1 = L2"
    "loop_entry L1 = loop_entry (ctl_loop s)" "c \<in> set (g_usfstl_loop_entries L2)" "distinct (g_usfstl_loop_entries L2)"
    "\<forall>e \<in> set (g_usfstl_loop_entries L2). fd (loop_entry L2 e) = fd (loop_entry L2 c) \<longrightarrow> e = c"
    "g_usfstl_loop_pre_handler_fn L2 = None" "fd (loop_entry L2 c) = cl_fd s c" "handler (loop_entry L2 c) = HANDLE_MESSAGE_WAIT"
    by (rule reregister [OF r(1-4)])
  define t where "t = with_cl c (\<lambda>x. x\<lparr>last_message := ucast op\<rparr>) (F L2)"
  have "ctl_loop_pass OS (ctl_nest (Suc n) OS) (with_loop L2 ?s) = Inr t"
  proof -
    have "ctl_loop_pass OS (ctl_nest (Suc n) OS) (with_loop L2 ?s) = ctl_entry_handler OS (ctl_nest (Suc n) OS) c (with_loop L2 ?s)"
      using q w L by (intro pass_handles) simp_all
    also have "\<dots> = Inr t"
      using L(9) raw [OF L(8)]
      by (simp add: ctl_entry_handler_def handle_message_wait_def HANDLE_MESSAGE_def HANDLE_MESSAGE_WAIT_def t_def)
    finally show ?thesis .
  qed
  then have pass: "k_loop_wait_and_handle ?K (with_loop L2 ?s) = Inr t"
    by simp
  obtain L3 L4 where L': "usfstl_loop_unregister L2 c = Inr L3"
    "register_entry c ((loop_entry L3 c)\<lparr>loop_priority := loop_priority (loop_entry L1 c), handler := HANDLE_MESSAGE\<rparr>) L3 = L4"
    "loop_entry L3 = loop_entry L2" "c \<in> set (g_usfstl_loop_entries L4)" "distinct (g_usfstl_loop_entries L4)"
    "\<forall>e \<in> set (g_usfstl_loop_entries L4). fd (loop_entry L4 e) = fd (loop_entry L4 c) \<longrightarrow> e = c"
    "g_usfstl_loop_pre_handler_fn L4 = None" "fd (loop_entry L4 c) = fd (loop_entry L2 c)" "handler (loop_entry L4 c) = HANDLE_MESSAGE"
    by (rule reregister [OF L(4-7)])
  have t: "ctl_loop t = L2" "last_message (the_client t c) = ucast op"
    by (simp_all add: t_def F)
  have "wait_for_loop (Suc n) ?K c op (nested 1 s) = Inr (with_loop L4 t)"
    using r(1,5) L(1-3) pass t L' L(4) by (simp add: Let_def)
  then have "wait_for ?K c op s = Inr (nested (-1) (waits_for c (-1) (with_loop L4 t)))"
    by (simp add: wait_for_def)
  also have "waits_for c (-1) (with_loop L4 t) = waits_for c (-1) (with_loop L4 (F L2))"
    by (simp add: t_def with_cl_def with_loop_def with_ctl_def)
  finally show ?thesis
    using L' L(8) by (intro exI [of _ L2] exI [of _ L4]) (simp add: client_ready_def)
qed

lemma wait_ack:
  assumes q: "queue_clients OS" and w: "ctl_world s = (cl_fd s c, m) # rest" and rdy: "client_ready c (ctl_loop s)"
    and st: "cl_state (the_client s c) = USCS_STARTED" and m: "tt_op m = UM_TIMETRAVEL_ACK"
  shows "\<exists>L. client_ready c L \<and> fd (loop_entry L c) = cl_fd s c
    \<and> wait_for (ctl_nest (Suc (Suc n)) OS) c UM_TIMETRAVEL_ACK s = Inr (waits_for c (-1) (with_loop L (with_world rest s)))"
proof -
  let ?F = "\<lambda>L. with_world rest (with_loop L (waits_for c (ucast UM_TIMETRAVEL_ACK) (nested 1 s)))"
  have "handle_message_raw OS (ctl_nest (Suc n) OS) c (with_loop L (waits_for c (ucast UM_TIMETRAVEL_ACK) (nested 1 s)))
      = Inr (UM_TIMETRAVEL_ACK, ?F L)" if "fd (loop_entry L c) = cl_fd s c" for L
    using w st m that by (subst raw_handles [OF q, where m = m and rest = rest]) (simp_all add: handle_op_cases timetravel_ops)
  from wait_one [OF q w rdy this] obtain L L' where L: "client_ready c L'" "fd (loop_entry L' c) = cl_fd s c"
    "wait_for (ctl_nest (Suc (Suc n)) OS) c UM_TIMETRAVEL_ACK s = Inr (nested (-1) (waits_for c (-1) (with_loop L' (?F L))))"
    by auto
  have "nested (-1) (waits_for c (-1) (with_loop L' (?F L))) = waits_for c (-1) (with_loop L' (with_world rest s))"
    by (simp add: with_cl_def with_loop_def with_ctl_def with_world_def)
  then show ?thesis
    using L by (intro exI [of _ L']) simp
qed

text \<open>A client without shared memory: its slot lies in the shared memory and does not announce the capability.\<close>

abbreviation plain_id :: "'w ctl_sched \<Rightarrow> u16 \<Rightarrow> bool" where
  "plain_id s i \<equiv> schedshm_client_has_shm (g_schedshm_mem (env s)) i = Inr False"

abbreviation sends :: "client_ptr \<Rightarrow> u32 \<Rightarrow> u32 \<Rightarrow> u64 \<Rightarrow> 'w ctl_sched \<Rightarrow> 'w ctl_sched" where
  "sends c op seq t \<equiv> with_ctl (\<lambda>k. k\<lparr>ctl_sent := ctl_sent k @ [(c, \<lparr>tt_op = op, tt_seq = seq, tt_time = t\<rparr>, [])]\<rparr>)"

lemma has_shm_same [simp]:
  "schedshm_client_has_shm (m\<lparr>running_id := r\<rparr>) i = schedshm_client_has_shm m i"
  "schedshm_client_has_shm (m\<lparr>free_until := t\<rparr>) i = schedshm_client_has_shm m i"
  "schedshm_client_has_shm (m\<lparr>shm_time := t\<rparr>) i = schedshm_client_has_shm m i"
  by (simp_all add: schedshm_client_has_shm_def)

lemma wait_wait:
  assumes q: "queue_clients OS" and w: "ctl_world s = (cl_fd s c, m) # rest" and rdy: "client_ready c (ctl_loop s)"
    and st: "cl_state (the_client s c) = USCS_STARTED" and m: "tt_op m = UM_TIMETRAVEL_WAIT"
    and run: "running_client (env s) = Some c" and pl: "plain_id s (ucast (cl_id (the_client s c)))"
    and cb: "callback (jobs s c) = RUN_CLIENT"
  shows "\<exists>L. client_ready c L \<and> fd (loop_entry L c) = cl_fd s c
    \<and> wait_for (ctl_nest (Suc (Suc n)) OS) c UM_TIMETRAVEL_WAIT s
      = Inr (sends c UM_TIMETRAVEL_ACK (tt_seq m) 0 (set_running_client None
          (with_cl c (\<lambda>x. x\<lparr>n_wait := n_wait x + 1, last_message := -2, waiting_for := -1\<rparr>) (with_loop L (with_world rest s)))))"
proof -
  let ?F = "\<lambda>L. sends c UM_TIMETRAVEL_ACK (tt_seq m) 0 (set_running_client None (with_cl c (\<lambda>x. x\<lparr>n_wait := n_wait x + 1\<rparr>)
      (with_world rest (with_loop L (waits_for c (ucast UM_TIMETRAVEL_WAIT) (nested 1 s))))))"
  have "handle_message_raw OS (ctl_nest (Suc n) OS) c (with_loop L (waits_for c (ucast UM_TIMETRAVEL_WAIT) (nested 1 s)))
      = Inr (UM_TIMETRAVEL_WAIT, ?F L)" if "fd (loop_entry L c) = cl_fd s c" for L
  proof -
    let ?t = "with_world rest (with_loop L (waits_for c (ucast UM_TIMETRAVEL_WAIT) (nested 1 s)))"
    have h: "handle_wait c ?t = Inr (None, 0, set_running_client None (with_cl c (\<lambda>x. x\<lparr>n_wait := n_wait x + 1\<rparr>) ?t))"
      using run pl by (simp add: handle_wait_def Let_def set_running_client_def)
    show ?thesis
      using w st m that cb h by (subst raw_handles [OF q, where m = m and rest = rest])
        (simp_all add: handle_op_cases write_succeeds [OF q] set_running_client_def RUN_CLIENT_def FREE_CLIENT_def timetravel_ops)
  qed
  from wait_one [OF q w rdy this] obtain L L' where L: "client_ready c L'" "fd (loop_entry L' c) = cl_fd s c"
    "wait_for (ctl_nest (Suc (Suc n)) OS) c UM_TIMETRAVEL_WAIT s = Inr (nested (-1) (waits_for c (-1) (with_loop L' (?F L))))"
    by (auto simp: set_running_client_def)
  have "nested (-1) (waits_for c (-1) (with_loop L' (?F L))) = sends c UM_TIMETRAVEL_ACK (tt_seq m) 0 (set_running_client None
          (with_cl c (\<lambda>x. x\<lparr>n_wait := n_wait x + 1, last_message := -2, waiting_for := -1\<rparr>) (with_loop L' (with_world rest s))))"
    by (simp add: with_cl_def with_loop_def with_ctl_def with_world_def set_running_client_def with_mem_def)
  then show ?thesis
    using L by (intro exI [of _ L']) simp
qed

lemma send_acked:
  assumes q: "queue_clients OS" and w: "ctl_world s = (cl_fd s c, m) # rest" and rdy: "client_ready c (ctl_loop s)"
    and st: "cl_state (the_client s c) = USCS_STARTED" and m: "tt_op m = UM_TIMETRAVEL_ACK"
    and pl: "plain_id s (ucast (cl_id (the_client s c)))" and cb: "callback (jobs s c) = RUN_CLIENT"
  shows "\<exists>L. client_ready c L \<and> fd (loop_entry L c) = cl_fd s c
    \<and> send_message OS (ctl_nest (Suc (Suc n)) OS) c op t s = Inr (True, with_loop L (with_world rest (waits_for c (-1)
        (sends c op (ucast (ctl_seq (env s) + 1)) t (with_ctl (\<lambda>k. k\<lparr>ctl_seq := ctl_seq k + 1\<rparr>) s)))))"
proof -
  let ?s = "sends c op (ucast (ctl_seq (env s) + 1)) t
      (with_cl c (\<lambda>x. x\<lparr>nest := nest x + 1\<rparr>) (with_ctl (\<lambda>k. k\<lparr>ctl_seq := ctl_seq k + 1\<rparr>) s))"
  obtain L where L: "client_ready c L" "fd (loop_entry L c) = cl_fd s c"
    "wait_for (ctl_nest (Suc (Suc n)) OS) c UM_TIMETRAVEL_ACK ?s = Inr (waits_for c (-1) (with_loop L (with_world rest ?s)))"
    using wait_ack [of OS ?s c m rest n] q w rdy st m by auto
  have "send_message OS (ctl_nest (Suc (Suc n)) OS) c op t s
      = Inr (True, with_cl c (\<lambda>x. x\<lparr>nest := nest x - 1\<rparr>) (waits_for c (-1) (with_loop L (with_world rest ?s))))"
    using L(3) pl cb by (cases "op = UM_TIMETRAVEL_RUN")
      (simp_all add: send_message_def Let_def write_succeeds [OF q] RUN_CLIENT_def FREE_CLIENT_def del: ctl_nest.simps)
  also have "with_cl c (\<lambda>x. x\<lparr>nest := nest x - 1\<rparr>) (waits_for c (-1) (with_loop L (with_world rest ?s)))
      = with_loop L (with_world rest (waits_for c (-1)
        (sends c op (ucast (ctl_seq (env s) + 1)) t (with_ctl (\<lambda>k. k\<lparr>ctl_seq := ctl_seq k + 1\<rparr>) s))))"
    by (simp add: with_cl_def with_loop_def with_ctl_def with_world_def)
  finally show ?thesis
    using L(1,2) by (intro exI [of _ L]) simp
qed

section \<open>Running a client\<close>

lemma unat_ucast_u8: "unat (ucast (i :: u8) :: u16) = unat i"
proof -
  have "unat i < 2 ^ 8"
    using unsigned_less [of i, where 'a = nat] by simp
  then show ?thesis
    by (simp add: unsigned_ucast_eq take_bit_nat_eq_self)
qed

text \<open>Up to when a client may run at time \<open>now\<close>: the next job, but at most a quarter of the clock's period.\<close>

definition free_limit :: "u64 \<Rightarrow> (job_ptr \<Rightarrow> usfstl_job) \<Rightarrow> job_ptr list \<Rightarrow> u64" where
  "free_limit now js others = (case others of
      [] \<Rightarrow> now + 2 ^ 62
    | j # _ \<Rightarrow> if usfstl_time_cmp (start (js j)) (<) (now + 2 ^ 62) then start (js j) else now + 2 ^ 62)"

lemma ctl_sync_time:
  "\<not> next_external_sync_set s \<Longrightarrow> fst (usfstl_sched_get_sync_time (ctl_hooks K) s)
     = free_limit (shm_time (g_schedshm_mem (env s))) (jobs s) (joblist s)"
  by (simp add: usfstl_sched_get_sync_time_def usfstl_sched_next_pending_def first_item_def free_limit_def split: list.split)

lemma update_sync_sends:
  assumes q: "queue_clients OS" and w: "ctl_world s = (cl_fd s c, m) # rest" and rdy: "client_ready c (ctl_loop s)"
    and st: "cl_state (the_client s c) = USCS_STARTED" and m: "tt_op m = UM_TIMETRAVEL_ACK"
    and pl: "plain_id s (ucast (cl_id (the_client s c)))" and cb: "callback (jobs s c) = RUN_CLIENT"
    and go: "started_scheduling (env s)" "\<not> update_sync_running (env s)"
    and sync: "fst (usfstl_sched_get_sync_time (ctl_hooks (ctl_nest (Suc (Suc n)) OS)) s) = sync"
      "\<not> (sync_set (the_client s c) \<and> cl_sync (the_client s c) = sync)"
  shows "\<exists>L. client_ready c L \<and> fd (loop_entry L c) = cl_fd s c
    \<and> update_sync OS (ctl_nest (Suc (Suc n)) OS) (Some c) s = Inr (with_loop L (with_world rest
        (with_cl c (\<lambda>x. x\<lparr>last_message := -2, waiting_for := -1, sync_set := True, cl_sync := sync\<rparr>)
        (sends c UM_TIMETRAVEL_FREE_UNTIL (ucast (ctl_seq (env s) + 1)) (sync - cl_offset (the_client s c))
        (with_ctl (\<lambda>k. k\<lparr>ctl_seq := ctl_seq k + 1\<rparr>) (with_mem (\<lambda>m. m\<lparr>free_until := sync\<rparr>) (set_running_client (Some c) s)))))))"
proof -
  let ?s = "with_ctl (\<lambda>k. k\<lparr>update_sync_running := True\<rparr>)
      (with_mem (\<lambda>m. m\<lparr>free_until := sync\<rparr>) (set_running_client (Some c) s))"
  obtain L where L: "client_ready c L" "fd (loop_entry L c) = cl_fd s c"
    "send_message OS (ctl_nest (Suc (Suc n)) OS) c UM_TIMETRAVEL_FREE_UNTIL (sync - cl_offset (the_client s c)) ?s
      = Inr (True, with_loop L (with_world rest (waits_for c (-1) (sends c UM_TIMETRAVEL_FREE_UNTIL (ucast (ctl_seq (env ?s) + 1))
          (sync - cl_offset (the_client s c)) (with_ctl (\<lambda>k. k\<lparr>ctl_seq := ctl_seq k + 1\<rparr>) ?s)))))"
    using send_acked [of OS ?s c m rest n UM_TIMETRAVEL_FREE_UNTIL "sync - cl_offset (the_client s c)"] q w rdy st m pl cb
    by (auto simp: set_running_client_def)
  have "update_sync OS (ctl_nest (Suc (Suc n)) OS) (Some c) s = Inr (with_ctl (\<lambda>k. k\<lparr>update_sync_running := False\<rparr>)
      (with_cl c (\<lambda>x. x\<lparr>sync_set := True, cl_sync := sync\<rparr>) (with_loop L (with_world rest (waits_for c (-1)
        (sends c UM_TIMETRAVEL_FREE_UNTIL (ucast (ctl_seq (env ?s) + 1)) (sync - cl_offset (the_client s c))
          (with_ctl (\<lambda>k. k\<lparr>ctl_seq := ctl_seq k + 1\<rparr>) ?s)))))))"
    using L(3) go sync pl unfolding update_sync_def Let_def sync(1)
    by (auto simp: set_running_client_def simp del: ctl_nest.simps)
  then show ?thesis
    using L(1,2) go(2) by (intro exI [of _ L])
      (simp add: with_cl_def with_loop_def with_ctl_def with_world_def with_mem_def set_running_client_def)
qed

text \<open>The second half: \<^verbatim>\<open>RUN\<close> is sent and acknowledged, and the client waits again.\<close>

lemma run_and_wait:
  assumes q: "queue_clients OS" and w: "ctl_world s = (cl_fd s c, a) # (cl_fd s c, wt) # rest"
    and ops: "tt_op a = UM_TIMETRAVEL_ACK" "tt_op wt = UM_TIMETRAVEL_WAIT" and rdy: "client_ready c (ctl_loop s)"
    and st: "cl_state (the_client s c) = USCS_STARTED" and run: "running_client (env s) = Some c"
    and pl: "plain_id s (ucast (cl_id (the_client s c)))" and cb: "callback (jobs s c) = RUN_CLIENT"
  shows "\<exists>s'. bind_res (send_message OS (ctl_nest (Suc (Suc n)) OS) c UM_TIMETRAVEL_RUN t s) (\<lambda>(ok, s).
        if ok then wait_for (ctl_nest (Suc (Suc n)) OS) c UM_TIMETRAVEL_WAIT s else Inr s) = Inr s'
    \<and> ctl_sent (env s') = ctl_sent (env s) @
        [(c, \<lparr>tt_op = UM_TIMETRAVEL_RUN, tt_seq = ucast (ctl_seq (env s) + 1), tt_time = t\<rparr>, []),
         (c, \<lparr>tt_op = UM_TIMETRAVEL_ACK, tt_seq = tt_seq wt, tt_time = 0\<rparr>, [])]
    \<and> running_client (env s') = None \<and> g_schedshm_mem (env s') = (g_schedshm_mem (env s))\<lparr>running_id := CTRL_CLIENT_ID\<rparr>
    \<and> ctl_world s' = rest \<and> joblist s' = joblist s \<and> jobs s' = jobs s"
proof -
  let ?K = "ctl_nest (Suc (Suc n)) OS" let ?f = "cl_fd s c"
  obtain L where L: "client_ready c L" "fd (loop_entry L c) = ?f"
    and r: "send_message OS ?K c UM_TIMETRAVEL_RUN t s = Inr (True, with_loop L (with_world ((?f, wt) # rest) (waits_for c (-1)
      (sends c UM_TIMETRAVEL_RUN (ucast (ctl_seq (env s) + 1)) t (with_ctl (\<lambda>k. k\<lparr>ctl_seq := ctl_seq k + 1\<rparr>) s)))))"
    using send_acked [OF q w rdy st ops(1) pl cb, of n UM_TIMETRAVEL_RUN t] by blast
  define s1 where "s1 = with_loop L (with_world ((?f, wt) # rest) (waits_for c (-1)
      (sends c UM_TIMETRAVEL_RUN (ucast (ctl_seq (env s) + 1)) t (with_ctl (\<lambda>k. k\<lparr>ctl_seq := ctl_seq k + 1\<rparr>) s))))"
  have e1: "ctl_world s1 = (cl_fd s1 c, wt) # rest" "client_ready c (ctl_loop s1)" "cl_state (the_client s1 c) = USCS_STARTED"
    "running_client (env s1) = Some c" "plain_id s1 (ucast (cl_id (the_client s1 c)))" "callback (jobs s1 c) = RUN_CLIENT"
    using L st run pl cb by (simp_all add: s1_def)
  obtain L' where r': "wait_for ?K c UM_TIMETRAVEL_WAIT s1 = Inr (sends c UM_TIMETRAVEL_ACK (tt_seq wt) 0 (set_running_client None
      (with_cl c (\<lambda>x. x\<lparr>n_wait := n_wait x + 1, last_message := -2, waiting_for := -1\<rparr>) (with_loop L' (with_world rest s1)))))"
    using wait_wait [OF q e1(1-3) ops(2) e1(4-6), of n] by blast
  have "bind_res (send_message OS ?K c UM_TIMETRAVEL_RUN t s) (\<lambda>(ok, s). if ok then wait_for ?K c UM_TIMETRAVEL_WAIT s else Inr s)
      = Inr (sends c UM_TIMETRAVEL_ACK (tt_seq wt) 0 (set_running_client None
      (with_cl c (\<lambda>x. x\<lparr>n_wait := n_wait x + 1, last_message := -2, waiting_for := -1\<rparr>) (with_loop L' (with_world rest s1)))))"
    using r r' by (simp add: s1_def [symmetric] del: ctl_nest.simps)
  moreover have "ctl_sent (env s1) = ctl_sent (env s) @ [(c, \<lparr>tt_op = UM_TIMETRAVEL_RUN, tt_seq = ucast (ctl_seq (env s) + 1), tt_time = t\<rparr>, [])]"
    "g_schedshm_mem (env s1) = g_schedshm_mem (env s)" "joblist s1 = joblist s" "jobs s1 = jobs s"
    by (simp_all add: s1_def)
  ultimately show ?thesis
    by simp
qed

lemma run_client_protocol:
  assumes q: "queue_clients OS"
    and w: "ctl_world s = (cl_fd s c, a1) # (cl_fd s c, a2) # (cl_fd s c, wt) # rest"
    and ops: "tt_op a1 = UM_TIMETRAVEL_ACK" "tt_op a2 = UM_TIMETRAVEL_ACK" "tt_op wt = UM_TIMETRAVEL_WAIT"
    and rdy: "client_ready c (ctl_loop s)"
    and st: "cl_state (the_client s c) = USCS_STARTED"
    and pl: "plain_id s (ucast (cl_id (the_client s c)))" and cb: "callback (jobs s c) = RUN_CLIENT"
    and go: "started_scheduling (env s)" "\<not> update_sync_running (env s)" "\<not> next_external_sync_set s"
    and sync: "free_limit (shm_time (g_schedshm_mem (env s))) (jobs s) (joblist s) = sync"
      "\<not> (sync_set (the_client s c) \<and> cl_sync (the_client s c) = sync)"
  shows "\<exists>s'. run_client OS (ctl_nest (Suc (Suc n)) OS) c s = Inr s'
    \<and> ctl_sent (env s') = ctl_sent (env s) @
        [(c, \<lparr>tt_op = UM_TIMETRAVEL_FREE_UNTIL, tt_seq = ucast (ctl_seq (env s) + 1), tt_time = sync - cl_offset (the_client s c)\<rparr>, []),
         (c, \<lparr>tt_op = UM_TIMETRAVEL_RUN, tt_seq = ucast (ctl_seq (env s) + 1 + 1),
           tt_time = shm_time (g_schedshm_mem (env s)) - cl_offset (the_client s c)\<rparr>, []),
         (c, \<lparr>tt_op = UM_TIMETRAVEL_ACK, tt_seq = tt_seq wt, tt_time = 0\<rparr>, [])]
    \<and> running_client (env s') = None \<and> running_id (g_schedshm_mem (env s')) = CTRL_CLIENT_ID
    \<and> shm_time (g_schedshm_mem (env s')) = shm_time (g_schedshm_mem (env s)) \<and> free_until (g_schedshm_mem (env s')) = sync
    \<and> ctl_world s' = rest \<and> joblist s' = joblist s \<and> jobs s' = jobs s"
proof -
  let ?K = "ctl_nest (Suc (Suc n)) OS" let ?f = "cl_fd s c" let ?i = "cl_id (the_client s c)"
  let ?now = "shm_time (g_schedshm_mem (env s))" let ?o = "cl_offset (the_client s c)"
  obtain L1 where L1: "client_ready c L1" "fd (loop_entry L1 c) = ?f" and u: "update_sync OS ?K (Some c) s = Inr (with_loop L1
      (with_world ((?f, a2) # (?f, wt) # rest) (with_cl c (\<lambda>x. x\<lparr>last_message := -2, waiting_for := -1, sync_set := True, cl_sync := sync\<rparr>)
        (sends c UM_TIMETRAVEL_FREE_UNTIL (ucast (ctl_seq (env s) + 1)) (sync - ?o)
        (with_ctl (\<lambda>k. k\<lparr>ctl_seq := ctl_seq k + 1\<rparr>) (with_mem (\<lambda>m. m\<lparr>free_until := sync\<rparr>) (set_running_client (Some c) s)))))))"
    (is "_ = Inr ?s1")
    using update_sync_sends [OF q w rdy st ops(1) pl cb go(1,2) _ sync(2), of n] ctl_sync_time [OF go(3)] sync(1) by auto
  have len: "unat ?i < length (shm_clients (g_schedshm_mem (env s)))"
    and cap: "capa (shm_clients (g_schedshm_mem (env s)) ! unat ?i) AND UM_TIMETRAVEL_SCHEDSHM_CAP_TIME_SHARE = 0"
    using pl by (auto simp: schedshm_client_has_shm_def unat_ucast_u8 split: if_splits)
  have pl1: "plain_id ?s1 (ucast (cl_id (the_client ?s1 c)))"
    using pl by (simp add: set_running_client_def)
  define s2 where "s2 = with_mem (\<lambda>m. m\<lparr>shm_clients := (shm_clients m)[unat ?i := (shm_clients m ! unat ?i)
      \<lparr>flags := flags (shm_clients m ! unat ?i) AND NOT UM_TIMETRAVEL_SCHEDSHM_FLAGS_REQ_RUN\<rparr>]\<rparr>) ?s1"
  have s2: "with_shm_client (cl_id (the_client ?s1 c)) (\<lambda>x. x\<lparr>flags := flags x AND NOT UM_TIMETRAVEL_SCHEDSHM_FLAGS_REQ_RUN\<rparr>) ?s1
      = Inr s2"
    using len by (simp add: with_shm_client_def s2_def set_running_client_def)
  have pl2: "plain_id s2 (ucast (cl_id (the_client s2 c)))"
    using len cap by (simp add: schedshm_client_has_shm_def s2_def set_running_client_def unat_ucast_u8)
  have e2: "ctl_world s2 = (?f, a2) # (?f, wt) # rest" "ctl_loop s2 = L1" "cl_state (the_client s2 c) = USCS_STARTED"
    "callback (jobs s2 c) = RUN_CLIENT" "running_client (env s2) = Some c" "ctl_seq (env s2) = ctl_seq (env s) + 1"
    "shm_time (g_schedshm_mem (env s2)) = ?now" "cl_offset (the_client s2 c) = ?o" "cl_fd s2 c = ?f"
    using st cb L1(2) by (simp_all add: s2_def set_running_client_def)
  have e2': "ctl_sent (env s2) = ctl_sent (env s) @ [(c, \<lparr>tt_op = UM_TIMETRAVEL_FREE_UNTIL, tt_seq = ucast (ctl_seq (env s) + 1),
      tt_time = sync - ?o\<rparr>, [])]" "jobs s2 = jobs s" "joblist s2 = joblist s" "free_until (g_schedshm_mem (env s2)) = sync"
    by (simp_all add: s2_def)
  have w2: "ctl_world s2 = (cl_fd s2 c, a2) # (cl_fd s2 c, wt) # rest" "client_ready c (ctl_loop s2)"
    using e2(1,2,9) L1(1) by simp_all
  have run: "run_client OS ?K c s = bind_res (send_message OS ?K c UM_TIMETRAVEL_RUN (?now - ?o) s2) (\<lambda>(ok, s).
      if ok then wait_for ?K c UM_TIMETRAVEL_WAIT s else Inr s)"
    by (simp only: run_client_def u bind_res_simps pl1 not_False_eq_True if_True s2 ctl_time e2(7,8))
  obtain s' where s': "run_client OS ?K c s = Inr s'" "ctl_sent (env s') = ctl_sent (env s2) @
        [(c, \<lparr>tt_op = UM_TIMETRAVEL_RUN, tt_seq = ucast (ctl_seq (env s2) + 1), tt_time = ?now - ?o\<rparr>, []),
         (c, \<lparr>tt_op = UM_TIMETRAVEL_ACK, tt_seq = tt_seq wt, tt_time = 0\<rparr>, [])]"
      "running_client (env s') = None" "g_schedshm_mem (env s') = (g_schedshm_mem (env s2))\<lparr>running_id := CTRL_CLIENT_ID\<rparr>"
      "ctl_world s' = rest" "joblist s' = joblist s2" "jobs s' = jobs s2"
    using run_and_wait [OF q w2(1) ops(2,3) w2(2) e2(3,5) pl2 e2(4), of n "?now - ?o"] unfolding run by blast
  show ?thesis
    by (rule exI [of _ s']) (simp add: s' e2' e2(6,7) del: ctl_nest.simps)
qed

section \<open>Requests\<close>

text \<open>A started client without shared memory, and the controller between two turns of clients.\<close>

definition idle_client :: "client_ptr \<Rightarrow> 'w ctl_sched \<Rightarrow> bool" where
  "idle_client c s \<longleftrightarrow> client_ready c (ctl_loop s) \<and> cl_state (the_client s c) = USCS_STARTED
     \<and> plain_id s (ucast (cl_id (the_client s c))) \<and> callback (jobs s c) = RUN_CLIENT
     \<and> group (jobs s c) < 32 \<and> \<not> blocked (jobs s c)"

definition ctl_idle :: "'w ctl_sched \<Rightarrow> bool" where
  "ctl_idle s \<longleftrightarrow> started_scheduling (env s) \<and> \<not> update_sync_running (env s) \<and> \<not> next_external_sync_set s
     \<and> running_client (env s) = None \<and> running_id (g_schedshm_mem (env s)) = CTRL_CLIENT_ID \<and> plain_id s CTRL_CLIENT_ID
     \<and> blocked_groups s = 0 \<and> distinct (joblist s) \<and> distinct (pending_jobs s)"

lemma has_shm_slot:
  assumes "\<And>x. capa (f x) = capa x"
  shows "schedshm_client_has_shm (m\<lparr>shm_clients := (shm_clients m)[i := f (shm_clients m ! i)]\<rparr>) j = schedshm_client_has_shm m j"
  using assms by (cases "i < length (shm_clients m)"; cases "i = unat j") (auto simp: schedshm_client_has_shm_def)

lemma sched_sel_with [simp]:
  "next_external_sync_set (with_ctl f s) = next_external_sync_set s" "blocked_groups (with_ctl f s) = blocked_groups s"
  "next_external_sync_set (with_cl c g s) = next_external_sync_set s" "blocked_groups (with_cl c g s) = blocked_groups s"
  "next_external_sync_set (with_mem h s) = next_external_sync_set s" "blocked_groups (with_mem h s) = blocked_groups s"
  "next_external_sync_set (with_world w s) = next_external_sync_set s" "blocked_groups (with_world w s) = blocked_groups s"
  "next_external_sync_set (with_job j q s) = next_external_sync_set s"
  "next_external_sync_set (usfstl_sched_del_job s j) = next_external_sync_set s"
  by (simp_all add: with_ctl_def with_cl_def with_mem_def with_world_def with_job_def usfstl_sched_del_job_def)

text \<open>Adding the client's job while nobody runs only updates the limit in shared memory.\<close>

lemma add_job_idle:
  assumes "ctl_idle s" and "\<not> usfstl_job_scheduled s c" and "group (jobs s c) < 32" and "\<not> blocked (jobs s c)"
    and "usfstl_time_cmp (start (jobs s c)) (\<ge>) (shm_time (g_schedshm_mem (env s)))"
  shows "\<exists>u. usfstl_sched_add_job (ctl_hooks (ctl_nest (Suc n) OS)) s c = Inr (with_mem (\<lambda>m. m\<lparr>free_until := u\<rparr>)
     (s\<lparr>joblist := insert_before_first (job_goes_before (jobs s) c) c (joblist s)\<rparr>))"
  using assms by (auto simp: usfstl_sched_add_job_def ctl_idle_def group_blocked_def update_sync_def Let_def)

text \<open>The client's slot after a request, and the state with the client's job queued anew.\<close>

definition note_request :: "u8 \<Rightarrow> u64 \<Rightarrow> um_timetravel_schedshm \<Rightarrow> um_timetravel_schedshm" where
  "note_request i t m = m\<lparr>shm_clients := (shm_clients m)[unat i := (shm_clients m ! unat i)
     \<lparr>flags := flags (shm_clients m ! unat i) OR UM_TIMETRAVEL_SCHEDSHM_FLAGS_REQ_RUN, req_time := t\<rparr>]\<rparr>"

definition requeued :: "client_ptr \<Rightarrow> u64 \<Rightarrow> 'w ctl_sched \<Rightarrow> 'w ctl_sched" where
  "requeued c t s = (let s = with_job c (\<lambda>b. b\<lparr>start := t\<rparr>) (usfstl_sched_del_job s c)
     in s\<lparr>joblist := insert_before_first (job_goes_before (jobs s) c) c (joblist s)\<rparr>)"

lemma note_request_sel [simp]:
  "schedshm_client_has_shm (note_request i t m) j = schedshm_client_has_shm m j"
  "running_id (note_request i t m) = running_id m" "shm_time (note_request i t m) = shm_time m"
proof -
  show "schedshm_client_has_shm (note_request i t m) j = schedshm_client_has_shm m j"
    unfolding note_request_def by (rule has_shm_slot) simp
qed (simp_all add: note_request_def)

lemma requeued_sel [simp]:
  "env (requeued c t s) = env s" "jobs (requeued c t s) = (jobs s)(c := (jobs s c)\<lparr>start := t\<rparr>)"
  "joblist (requeued c t s) = insert_before_first (job_goes_before (jobs (requeued c t s)) c) c (remove1 c (joblist s))"
  "pending_jobs (requeued c t s) = remove1 c (pending_jobs s)" "blocked_groups (requeued c t s) = blocked_groups s"
  "next_external_sync_set (requeued c t s) = next_external_sync_set s"
  by (simp_all add: requeued_def Let_def del_job_lists)

lemma handle_request_idle:
  assumes cl: "idle_client c s" and idle: "ctl_idle s"
    and rt: "cl_offset (the_client s c) + tt_time rq = t" "usfstl_time_cmp t (\<ge>) (shm_time (g_schedshm_mem (env s)))"
  shows "\<exists>u. handle_request (ctl_nest (Suc n) OS) c rq s = Inr (None, 0, with_cl c (\<lambda>x. x\<lparr>n_req := n_req x + 1\<rparr>)
    (with_mem (\<lambda>m. m\<lparr>free_until := u\<rparr>) (requeued c t (with_mem (note_request (cl_id (the_client s c)) t) s))))"
proof -
  let ?K = "ctl_nest (Suc n) OS" let ?i = "cl_id (the_client s c)"
  define s1 where "s1 = with_mem (note_request ?i t) s"
  define s2 where "s2 = with_job c (\<lambda>b. b\<lparr>start := t\<rparr>) (usfstl_sched_del_job s1 c)"
  have "unat ?i < length (shm_clients (g_schedshm_mem (env s)))"
    using cl by (simp add: idle_client_def schedshm_client_has_shm_def unat_ucast_u8 split: if_splits)
  then have s1: "with_shm_client ?i (\<lambda>x. x\<lparr>flags := flags x OR UM_TIMETRAVEL_SCHEDSHM_FLAGS_REQ_RUN, req_time := t\<rparr>) s = Inr s1"
    by (simp add: with_shm_client_def s1_def note_request_def [abs_def])
  have "ctl_idle s2" "\<not> usfstl_job_scheduled s2 c" "group (jobs s2 c) < 32" "\<not> blocked (jobs s2 c)"
    "usfstl_time_cmp (start (jobs s2 c)) (\<ge>) (shm_time (g_schedshm_mem (env s2)))"
    using idle cl rt(2) by (simp_all add: ctl_idle_def idle_client_def s2_def s1_def del_job_lists usfstl_job_scheduled_def)
  from add_job_idle [OF this, of n OS] obtain u where add: "usfstl_sched_add_job (ctl_hooks ?K) s2 c =
      Inr (with_mem (\<lambda>m. m\<lparr>free_until := u\<rparr>) (requeued c t s1))"
    by (auto simp: requeued_def s2_def)
  have "plain_id s1 (running_id (g_schedshm_mem (env s1)))" "cl_state (the_client s c) = USCS_STARTED"
    using idle cl by (simp_all add: ctl_idle_def idle_client_def s1_def)
  then have "handle_request ?K c rq s = Inr (None, 0, with_cl c (\<lambda>x. x\<lparr>n_req := n_req x + 1\<rparr>)
      (with_mem (\<lambda>m. m\<lparr>free_until := u\<rparr>) (requeued c t s1)))"
    unfolding handle_request_def Let_def rt(1)
    by (simp only: s1 bind_res_simps usfstl_assert_True not_False_eq_True if_True simp_thms s2_def [symmetric] add)
  then show ?thesis
    unfolding s1_def by blast
qed

lemma request_handled:
  assumes q: "queue_clients OS" and w: "ctl_world s = (cl_fd s c, rq) # rest" and op: "tt_op rq = UM_TIMETRAVEL_REQUEST"
    and c: "idle_client c s" and idle: "ctl_idle s"
    and rt: "cl_offset (the_client s c) + tt_time rq = t" "usfstl_time_cmp t (\<ge>) (shm_time (g_schedshm_mem (env s)))"
  shows "\<exists>s'. ctl_loop_pass OS (ctl_nest (Suc n) OS) s = Inr s' \<and> idle_client c s' \<and> ctl_idle s'
    \<and> jobs s' = (jobs s)(c := (jobs s c)\<lparr>start := t\<rparr>)
    \<and> joblist s' = insert_before_first (job_goes_before (jobs s') c) c (remove1 c (joblist s))
    \<and> ctl_sent (env s') = ctl_sent (env s) @ [(c, \<lparr>tt_op = UM_TIMETRAVEL_ACK, tt_seq = tt_seq rq, tt_time = 0\<rparr>, [])]
    \<and> ctl_world s' = rest \<and> ctl_loop s' = ctl_loop s \<and> ctl_seq (env s') = ctl_seq (env s)
    \<and> shm_time (g_schedshm_mem (env s')) = shm_time (g_schedshm_mem (env s))
    \<and> cl_offset (the_client s' c) = cl_offset (the_client s c)
    \<and> sync_set (the_client s' c) = sync_set (the_client s c) \<and> cl_sync (the_client s' c) = cl_sync (the_client s c)"
proof -
  let ?K = "ctl_nest (Suc n) OS" let ?i = "cl_id (the_client s c)" let ?s = "with_world rest s"
  from c have cl: "client_ready c (ctl_loop s)" "cl_state (the_client s c) = USCS_STARTED" "callback (jobs s c) = RUN_CLIENT"
    by (simp_all add: idle_client_def)
  have "idle_client c ?s" "ctl_idle ?s"
    using c idle by (simp_all add: idle_client_def ctl_idle_def)
  from handle_request_idle [OF this, of rq t n OS] rt obtain u where req: "handle_request ?K c rq ?s = Inr (None, 0,
      with_cl c (\<lambda>x. x\<lparr>n_req := n_req x + 1\<rparr>) (with_mem (\<lambda>m. m\<lparr>free_until := u\<rparr>) (requeued c t (with_mem (note_request ?i t) ?s))))"
    by auto
  define s3 where "s3 = with_cl c (\<lambda>x. x\<lparr>n_req := n_req x + 1\<rparr>) (with_mem (\<lambda>m. m\<lparr>free_until := u\<rparr>)
      (requeued c t (with_mem (note_request ?i t) ?s)))"
  define s4 where "s4 = sends c UM_TIMETRAVEL_ACK (tt_seq rq) 0 s3"
  have "callback (jobs s3 c) \<noteq> FREE_CLIENT"
    using cl(3) by (simp add: s3_def RUN_CLIENT_def FREE_CLIENT_def)
  then have "handle_message_raw OS ?K c s = Inr (UM_TIMETRAVEL_REQUEST, s4)"
    using raw_handles [OF q w cl(2), of ?K] op
    by (simp add: handle_op_cases req s3_def [symmetric] write_succeeds [OF q] s4_def timetravel_ops del: ctl_nest.simps)
  moreover have "ctl_loop_pass OS ?K s = ctl_entry_handler OS ?K c s"
    using q w cl(1) by (intro pass_handles) (simp_all add: client_ready_def)
  ultimately have pass: "ctl_loop_pass OS ?K s = Inr s4"
    using cl(1) by (simp add: ctl_entry_handler_def client_ready_def handle_message_def timetravel_ops del: ctl_nest.simps)
  have "ctl_idle s4" "idle_client c s4"
    using idle c by (simp_all add: ctl_idle_def idle_client_def s4_def s3_def)
  then show ?thesis
    using pass by (intro exI [of _ s4] conjI) (simp_all add: s4_def s3_def del: ctl_nest.simps)
qed

lemma ctl_forward:
  assumes "ctl_idle s" and "usfstl_time_cmp t (\<ge>) (shm_time (g_schedshm_mem (env s)))"
  shows "usfstl_sched_forward (ctl_hooks K) s t = Inr (with_mem (\<lambda>m. m\<lparr>shm_time := t\<rparr>) s)"
proof -
  have "schedshm_set_time (env s) t = Inr ((env s)\<lparr>g_schedshm_mem := (g_schedshm_mem (env s))\<lparr>shm_time := t\<rparr>\<rparr>)"
    using assms(1) by (simp add: schedshm_set_time_def ctl_idle_def)
  then have "usfstl_sched_set_time_raw (ctl_hooks K) s t = Inr (with_mem (\<lambda>m. m\<lparr>shm_time := t\<rparr>) s)"
    by (simp add: usfstl_sched_set_time_raw_def ctl_hooks_def no_hooks_def usfstl_sched_current_time_def schedshm_get_time_def
        with_mem_def with_ctl_def)
  then show ?thesis
    using assms(2) by (simp add: usfstl_sched_forward_def)
qed

text \<open>The job of an idle controller that is first on the list runs at its start time.\<close>

lemma ctl_next:
  assumes idle: "ctl_idle s" and j: "joblist s = j # js"
    and t: "usfstl_time_cmp (start (jobs s j)) (\<ge>) (shm_time (g_schedshm_mem (env s)))"
    and run: "run j (usfstl_sched_del_job (with_mem (\<lambda>m. m\<lparr>shm_time := start (jobs s j)\<rparr>) s) j) = Inr s'"
  shows "usfstl_sched_next (Suc n) (ctl_hooks K) run s = Inr (j, s')"
proof -
  let ?s = "with_mem (\<lambda>m. m\<lparr>shm_time := start (jobs s j)\<rparr>) s"
  have first: "usfstl_sched_next_pending s None = Some j" "usfstl_sched_next_pending ?s None = Some j"
    using j by (simp_all add: usfstl_sched_next_pending_def)
  have "?s = s" if "\<not> usfstl_time_cmp (start (jobs s j)) (>) (shm_time (g_schedshm_mem (env s)))"
  proof -
    have "usfstl_time_cmp (start (jobs s j)) (=) (shm_time (g_schedshm_mem (env s)))"
      using that t unfolding usfstl_time_cmp_def by linarith
    then have "start (jobs s j) = shm_time (g_schedshm_mem (env s))"
      by simp
    then show ?thesis
      by (simp add: with_mem_def with_ctl_def)
  qed
  then have "(if usfstl_time_cmp (start (jobs s j)) (>) (shm_time (g_schedshm_mem (env s)))
      then usfstl_sched_forward (ctl_hooks K) s (start (jobs s j)) else Inr s) = Inr ?s"
    using ctl_forward [OF idle t] by simp
  then show ?thesis
    unfolding usfstl_sched_next.simps first(1) option.case ctl_time Let_def prod.case using run first(2) by simp
qed

text \<open>
  C30: a client without shared memory gets exactly what it asks for. When it requests
  to run at its time \<open>r\<close>, and no other job is due until then, the controller
  acknowledges the request, moves its clock to the corresponding time, tells the client
  how long it may run (until the next job is due) and that it is now \<open>r\<close> on the
  client's own clock, and goes on only after the client has said that it waits again;
  after that no client is running and the other jobs are queued as before.
\<close>

theorem controller_grants_request:
  assumes q: "queue_clients OS"
    and w: "ctl_world s = (cl_fd s c, rq) # (cl_fd s c, a1) # (cl_fd s c, a2) # (cl_fd s c, wt) # rest"
    and ops: "tt_op rq = UM_TIMETRAVEL_REQUEST" "tt_op a1 = UM_TIMETRAVEL_ACK" "tt_op a2 = UM_TIMETRAVEL_ACK"
      "tt_op wt = UM_TIMETRAVEL_WAIT"
    and c: "idle_client c s" and idle: "ctl_idle s"
    and t: "cl_offset (the_client s c) + tt_time rq = t" "usfstl_time_cmp t (\<ge>) (shm_time (g_schedshm_mem (env s)))"
    and others: "\<forall>j \<in> set (joblist s) - {c}. usfstl_time_cmp (start (jobs s j)) (>) t"
    and limit: "free_limit t (jobs s) (remove1 c (joblist s)) = u"
      "\<not> (sync_set (the_client s c) \<and> cl_sync (the_client s c) = u)"
  shows "\<exists>s1 s2. ctl_loop_pass OS (ctl_nest (Suc (Suc n)) OS) s = Inr s1
    \<and> usfstl_sched_next (Suc m) (ctl_hooks (ctl_nest (Suc (Suc n)) OS)) (ctl_job_callback OS (ctl_nest (Suc (Suc n)) OS)) s1 = Inr (c, s2)
    \<and> shm_time (g_schedshm_mem (env s2)) = t \<and> free_until (g_schedshm_mem (env s2)) = u
    \<and> map (\<lambda>(c, m, _). (c, tt_op m, tt_time m)) (ctl_sent (env s2)) = map (\<lambda>(c, m, _). (c, tt_op m, tt_time m)) (ctl_sent (env s)) @
        [(c, UM_TIMETRAVEL_ACK, 0), (c, UM_TIMETRAVEL_FREE_UNTIL, u - cl_offset (the_client s c)),
         (c, UM_TIMETRAVEL_RUN, tt_time rq), (c, UM_TIMETRAVEL_ACK, 0)]
    \<and> running_client (env s2) = None \<and> joblist s2 = remove1 c (joblist s) \<and> ctl_world s2 = rest"
proof -
  let ?K = "ctl_nest (Suc (Suc n)) OS"
  obtain s1 where s1: "ctl_loop_pass OS ?K s = Inr s1" "idle_client c s1" "ctl_idle s1"
    "jobs s1 = (jobs s)(c := (jobs s c)\<lparr>start := t\<rparr>)"
    "joblist s1 = insert_before_first (job_goes_before (jobs s1) c) c (remove1 c (joblist s))"
    "ctl_sent (env s1) = ctl_sent (env s) @ [(c, \<lparr>tt_op = UM_TIMETRAVEL_ACK, tt_seq = tt_seq rq, tt_time = 0\<rparr>, [])]"
    "ctl_world s1 = (cl_fd s1 c, a1) # (cl_fd s1 c, a2) # (cl_fd s1 c, wt) # rest"
    "shm_time (g_schedshm_mem (env s1)) = shm_time (g_schedshm_mem (env s))" "cl_offset (the_client s1 c) = cl_offset (the_client s c)"
    "sync_set (the_client s1 c) = sync_set (the_client s c)" "cl_sync (the_client s1 c) = cl_sync (the_client s c)"
    using request_handled [OF q w ops(1) c idle t, of "Suc n"] by metis
  have d: "distinct (joblist s)"
    using idle by (simp add: ctl_idle_def)
  have later: "\<forall>j \<in> set (remove1 c (joblist s)). j \<noteq> c \<and> usfstl_time_cmp (start (jobs s j)) (>) t"
    using others d by simp
  then have jl: "joblist s1 = c # remove1 c (joblist s)"
    unfolding s1(5) by (cases "remove1 c (joblist s)") (auto simp: job_goes_before_def s1(4))
  define s3 where "s3 = usfstl_sched_del_job (with_mem (\<lambda>m. m\<lparr>shm_time := t\<rparr>) s1) c"
  have e3: "env s3 = (env s1)\<lparr>g_schedshm_mem := (g_schedshm_mem (env s1))\<lparr>shm_time := t\<rparr>\<rparr>" "jobs s3 = jobs s1"
    "joblist s3 = remove1 c (joblist s)" "next_external_sync_set s3 = next_external_sync_set s1"
    by (simp_all add: s3_def del_job_lists jl)
  have lim: "free_limit (shm_time (g_schedshm_mem (env s3))) (jobs s3) (joblist s3) = u"
    using limit(1) later by (cases "remove1 c (joblist s)") (auto simp: free_limit_def e3 s1(4))
  obtain s2 where s2: "run_client OS ?K c s3 = Inr s2" "ctl_sent (env s2) = ctl_sent (env s3) @
        [(c, \<lparr>tt_op = UM_TIMETRAVEL_FREE_UNTIL, tt_seq = ucast (ctl_seq (env s3) + 1), tt_time = u - cl_offset (the_client s3 c)\<rparr>, []),
         (c, \<lparr>tt_op = UM_TIMETRAVEL_RUN, tt_seq = ucast (ctl_seq (env s3) + 1 + 1),
           tt_time = shm_time (g_schedshm_mem (env s3)) - cl_offset (the_client s3 c)\<rparr>, []),
         (c, \<lparr>tt_op = UM_TIMETRAVEL_ACK, tt_seq = tt_seq wt, tt_time = 0\<rparr>, [])]"
    "running_client (env s2) = None" "shm_time (g_schedshm_mem (env s2)) = shm_time (g_schedshm_mem (env s3))"
    "free_until (g_schedshm_mem (env s2)) = u" "ctl_world s2 = rest" "joblist s2 = joblist s3"
    using run_client_protocol [OF q _ ops(2-4) _ _ _ _ _ _ _ lim, of c rest n] s1(2,3,7,10,11) limit(2)
    by (auto simp: e3 idle_client_def ctl_idle_def simp del: ctl_nest.simps)
  have "usfstl_sched_next (Suc m) (ctl_hooks ?K) (ctl_job_callback OS ?K) s1 = Inr (c, s2)"
  proof (rule ctl_next [OF s1(3) jl])
    show "usfstl_time_cmp (start (jobs s1 c)) (\<ge>) (shm_time (g_schedshm_mem (env s1)))"
      using t(2) by (simp add: s1(4,8))
    show "ctl_job_callback OS ?K c (usfstl_sched_del_job (with_mem (\<lambda>m. m\<lparr>shm_time := start (jobs s1 c)\<rparr>) s1) c) = Inr s2"
      using s2(1) s1(2) by (simp add: s1(4) s3_def [symmetric] ctl_job_callback_def e3 idle_client_def del: ctl_nest.simps)
  qed
  then show ?thesis
    using s1(1) t(1) by (intro exI [of _ s1] exI [of _ s2]) (simp add: s2 e3 s1(6,9) del: ctl_nest.simps, simp add: t(1) [symmetric])
qed

text \<open>A controller with one started client, whose clock is 16 behind, and another job at 5000.\<close>

definition example_turn :: "msg_queue ctl_sched" where
  "example_turn = (USFSTL_SCHEDULER ''controller'' (\<lambda>j. if j = 9 then example_ctl_job\<lparr>start := 5000\<rparr> else example_ctl_job)
     ((example_ctl [(7, \<lparr>tt_op = UM_TIMETRAVEL_REQUEST, tt_seq = 3, tt_time = 100\<rparr>),
         (7, \<lparr>tt_op = UM_TIMETRAVEL_ACK, tt_seq = 1, tt_time = 0\<rparr>), (7, \<lparr>tt_op = UM_TIMETRAVEL_ACK, tt_seq = 2, tt_time = 0\<rparr>),
         (7, \<lparr>tt_op = UM_TIMETRAVEL_WAIT, tt_seq = 4, tt_time = 0\<rparr>)])
       \<lparr>clients := 1, client_list := [1], client := (\<lambda>_. no_client\<lparr>cl_state := USCS_STARTED, cl_id := 1, cl_offset := 16\<rparr>),
        started_scheduling := True\<rparr>))\<lparr>joblist := [9]\<rparr>"

theorem controller_grants_request_witness:
  "\<exists>s1 s2. ctl_loop_pass queue_os (ctl_nest 2 queue_os) example_turn = Inr s1
    \<and> usfstl_sched_next 1 (ctl_hooks (ctl_nest 2 queue_os)) (ctl_job_callback queue_os (ctl_nest 2 queue_os)) s1 = Inr (1, s2)
    \<and> shm_time (g_schedshm_mem (env s2)) = 116 \<and> free_until (g_schedshm_mem (env s2)) = 5000
    \<and> map (\<lambda>(c, m, _). (c, tt_op m, tt_time m)) (ctl_sent (env s2)) =
        [(1, UM_TIMETRAVEL_ACK, 0), (1, UM_TIMETRAVEL_FREE_UNTIL, 4984), (1, UM_TIMETRAVEL_RUN, 100), (1, UM_TIMETRAVEL_ACK, 0)]
    \<and> joblist s2 = [9]"
proof -
  let ?m = "\<lambda>op seq t. \<lparr>tt_op = op, tt_seq = seq, tt_time = t\<rparr>"
  have w: "ctl_world example_turn = (cl_fd example_turn 1, ?m UM_TIMETRAVEL_REQUEST 3 100) # (cl_fd example_turn 1, ?m UM_TIMETRAVEL_ACK 1 0)
      # (cl_fd example_turn 1, ?m UM_TIMETRAVEL_ACK 2 0) # (cl_fd example_turn 1, ?m UM_TIMETRAVEL_WAIT 4 0) # []"
    by (simp add: example_turn_def USFSTL_SCHEDULER_def example_ctl_def new_entry_def)
  have q: "queue_clients queue_os"
    by (simp add: queue_clients_def queue_os_def)
  have c: "idle_client 1 example_turn"
    by (simp add: idle_client_def client_ready_def example_turn_def USFSTL_SCHEDULER_def example_ctl_def new_entry_def
        example_ctl_job_def schedshm_client_has_shm_def no_shm_client_def UM_TIMETRAVEL_SCHEDSHM_CAP_TIME_SHARE_def)
  have i: "ctl_idle example_turn"
    by (simp add: ctl_idle_def example_turn_def USFSTL_SCHEDULER_def example_ctl_def CTRL_CLIENT_ID_def
        schedshm_client_has_shm_def no_shm_client_def UM_TIMETRAVEL_SCHEDSHM_CAP_TIME_SHARE_def)
  have t: "cl_offset (the_client example_turn 1) + tt_time (?m UM_TIMETRAVEL_REQUEST 3 100) = 116"
    "usfstl_time_cmp 116 (\<ge>) (shm_time (g_schedshm_mem (env example_turn)))"
    "\<forall>j \<in> set (joblist example_turn) - {1}. usfstl_time_cmp (start (jobs example_turn j)) (>) 116"
    "free_limit 116 (jobs example_turn) (remove1 1 (joblist example_turn)) = 5000"
    "\<not> (sync_set (the_client example_turn 1) \<and> cl_sync (the_client example_turn 1) = 5000)"
    by (simp_all add: example_turn_def USFSTL_SCHEDULER_def example_ctl_def usfstl_time_cmp_def free_limit_def no_client_def)
  have e: "ctl_sent (env example_turn) = []" "cl_offset (the_client example_turn 1) = 16" "remove1 1 (joblist example_turn) = [9]"
    by (simp_all add: example_turn_def USFSTL_SCHEDULER_def example_ctl_def)
  have n: "Suc 0 = 1" "Suc 1 = 2"
    by simp_all
  obtain s1 s2 where "ctl_loop_pass queue_os (ctl_nest 2 queue_os) example_turn = Inr s1"
    "usfstl_sched_next 1 (ctl_hooks (ctl_nest 2 queue_os)) (ctl_job_callback queue_os (ctl_nest 2 queue_os)) s1 = Inr (1, s2)"
    "shm_time (g_schedshm_mem (env s2)) = 116" "free_until (g_schedshm_mem (env s2)) = 5000"
    "map (\<lambda>(c, m, _). (c, tt_op m, tt_time m)) (ctl_sent (env s2)) =
       [(1, UM_TIMETRAVEL_ACK, 0), (1, UM_TIMETRAVEL_FREE_UNTIL, 5000 - 16), (1, UM_TIMETRAVEL_RUN, 100), (1, UM_TIMETRAVEL_ACK, 0)]"
    "joblist s2 = [9]"
    using controller_grants_request [OF q w _ _ _ _ c i t, of 0 0, unfolded e n list.map append_Nil um_timetravel_msg.simps,
        OF refl refl refl refl] by (elim exE conjE) (rule that)
  then show ?thesis
    by (intro exI [of _ s1] exI [of _ s2]) simp
qed

section \<open>Clients that the controller does not survive\<close>

text \<open>
  C31: a client that closes its connection before it has sent its \<^verbatim>\<open>START\<close> brings the
  controller down: \<^verbatim>\<open>remove_client\<close> takes the client off a list that it is not on yet,
  through null pointers.
\<close>

theorem disconnect_before_start:
  assumes "ctl_inv s" and "cl_state (the_client s c) = USCS_CONNECTED" and "c \<in> set (g_usfstl_loop_entries (ctl_loop s))"
    and "ctl_read OS (cl_fd s c) s = ((ret, msg), s)" and "ret \<le> 0"
  shows "handle_message OS K c s = Inl NullDeref"
proof -
  have "c \<notin> set (client_list (env s))" "c \<notin> set (new_clients (env s))"
    using assms(1,2) by (auto simp: ctl_inv_defs)
  then show ?thesis
    using assms(2-5) by (simp add: handle_message_def handle_message_raw_def remove_client_def detach_client_def Let_def
        usfstl_loop_unregister_def is_started_def client_unlink_def)
qed

theorem disconnect_before_start_witness:
  "handle_message queue_os (ctl_nest 1 queue_os) 1 (example_ctl_sched []) = Inl NullDeref"
  by (rule disconnect_before_start [OF fresh_inv [OF example_fresh], where ret = 0])
    (simp_all add: example_ctl_sched_def USFSTL_SCHEDULER_def example_ctl_def no_client_def queue_os_def queue_read_def)

end
