(* ===== verification/Backtrace_Sort.thy ===== *)
theory Backtrace_Sort
  imports Prelude "HOL-Library.Multiset"
begin

text \<open>
  The sorting routine of the backtrace library, \<^verbatim>\<open>src/dwarf/sort.c\<close>. The array is a list,
  and a pointer into it is an index; the comparison is an argument, as in the code. The
  exchange of two elements is a loop over their bytes, which is modelled on its own.
\<close>

section \<open>The routines\<close>

fun swap :: "'b list \<Rightarrow> nat \<Rightarrow> nat \<Rightarrow> nat \<Rightarrow> 'b list" where
  "swap m a b 0 = m"
| "swap m a b (Suc k) =
     (let t = m ! a;
          m = m[a := m ! b];
          m = m[b := t]
      in swap m (Suc a) (Suc b) k)"

definition swap_elems :: "'a list \<Rightarrow> nat \<Rightarrow> nat \<Rightarrow> 'a list" where
  "swap_elems xs i j = xs[i := xs ! j, j := xs ! i]"

text \<open>The loop that collects the elements below the pivot, which is the first element, right behind it.\<close>

function qsort_partition :: "('a \<Rightarrow> 'a \<Rightarrow> int) \<Rightarrow> nat \<Rightarrow> nat \<Rightarrow> nat \<Rightarrow> nat \<Rightarrow> 'a list \<Rightarrow> nat \<times> 'a list" where
  "qsort_partition compar base n i mid xs =
     (if i < n then
        if compar (xs ! base) (xs ! (base + i)) > 0 then
          let mid = Suc mid;
              xs = (if i \<noteq> mid then swap_elems xs (base + mid) (base + i) else xs)
          in qsort_partition compar base n (Suc i) mid xs
        else qsort_partition compar base n (Suc i) mid xs
      else (mid, xs))"
  by pat_completeness auto
termination
  by (relation "measure (\<lambda>(compar, base, n, i, mid, xs). n - i)") auto

declare qsort_partition.simps [simp del]

lemma partition_mid_bound: "mid < i \<Longrightarrow> i \<le> n \<Longrightarrow> fst (qsort_partition compar base n i mid xs) < n"
proof (induction compar base n i mid xs rule: qsort_partition.induct)
  case (1 compar base n i mid xs)
  then show ?case
    by (subst qsort_partition.simps) (auto simp: Let_def)
qed

text \<open>One round of the sort: choose the pivot, partition, and put the pivot in its place.\<close>

definition qsort_split :: "('a \<Rightarrow> 'a \<Rightarrow> int) \<Rightarrow> nat \<Rightarrow> nat \<Rightarrow> 'a list \<Rightarrow> nat \<times> 'a list" where
  "qsort_split compar base n xs =
     (let xs = swap_elems xs base (base + n div 2);
          (mid, xs) = qsort_partition compar base n 1 0 xs
      in (mid, if mid > 0 then swap_elems xs base (base + mid) else xs))"

lemma split_mid_bound: "2 \<le> n \<Longrightarrow> fst (qsort_split compar base n xs) < n"
  using partition_mid_bound [of 0 1 n] by (simp add: qsort_split_def Let_def split_beta)

function backtrace_qsort :: "('a \<Rightarrow> 'a \<Rightarrow> int) \<Rightarrow> 'a list \<Rightarrow> nat \<Rightarrow> nat \<Rightarrow> 'a list" where
  "backtrace_qsort compar xs base n =
     (if n < 2 then xs
      else
        let (mid, xs) = qsort_split compar base n xs
        in if 2 * mid < n then
             let xs = backtrace_qsort compar xs base mid
             in backtrace_qsort compar xs (base + (mid + 1)) (n - (mid + 1))
           else
             let xs = backtrace_qsort compar xs (base + (mid + 1)) (n - (mid + 1))
             in backtrace_qsort compar xs base mid)"
  by pat_completeness auto
termination
  by (relation "measure (\<lambda>(compar, xs, base, n). n)")
    (auto simp: not_less dest!: split_mid_bound dest: arg_cong [where f = fst] sym)

declare backtrace_qsort.simps [simp del]

text \<open>
  How deep the calls nest: the second call of each round is a jump to the beginning, so only
  the first one takes stack.
\<close>

function qsort_depth :: "('a \<Rightarrow> 'a \<Rightarrow> int) \<Rightarrow> 'a list \<Rightarrow> nat \<Rightarrow> nat \<Rightarrow> nat" where
  "qsort_depth compar xs base n =
     (if n < 2 then 0
      else
        let (mid, xs) = qsort_split compar base n xs
        in if 2 * mid < n then
             max (Suc (qsort_depth compar xs base mid))
               (qsort_depth compar (backtrace_qsort compar xs base mid) (base + (mid + 1)) (n - (mid + 1)))
           else
             max (Suc (qsort_depth compar xs (base + (mid + 1)) (n - (mid + 1))))
               (qsort_depth compar (backtrace_qsort compar xs (base + (mid + 1)) (n - (mid + 1))) base mid))"
  by pat_completeness auto
termination
  by (relation "measure (\<lambda>(compar, xs, base, n). n)")
    (auto simp: not_less dest!: split_mid_bound dest: arg_cong [where f = fst] sym)

declare qsort_depth.simps [simp del]

section \<open>Exchanging elements\<close>

lemma length_swap_elems [simp]: "length (swap_elems xs i j) = length xs"
  by (simp add: swap_elems_def)

lemma swap_elems_nth:
  "i < length xs \<Longrightarrow> j < length xs \<Longrightarrow> k < length xs \<Longrightarrow>
    swap_elems xs i j ! k = (if k = j then xs ! i else if k = i then xs ! j else xs ! k)"
  by (simp add: swap_elems_def nth_list_update)

lemma mset_swap_elems [simp]: "i < length xs \<Longrightarrow> j < length xs \<Longrightarrow> mset (swap_elems xs i j) = mset xs"
  by (simp add: swap_elems_def mset_swap)

lemma length_swap [simp]: "length (swap m a b n) = length m"
  by (induction n arbitrary: m a b) (simp_all add: Let_def)

lemma swap_same: "swap m a a n = m"
  by (induction n arbitrary: m a) (simp_all add: Let_def)

lemma swap_nth:
  assumes "a + n \<le> length m" and "b + n \<le> length m" and "a + n \<le> b \<or> b + n \<le> a" and "k < length m"
  shows "swap m a b n ! k =
    (if a \<le> k \<and> k < a + n then m ! (b + (k - a)) else if b \<le> k \<and> k < b + n then m ! (a + (k - b)) else m ! k)"
  using assms
proof (induction n arbitrary: m a b)
  case (Suc n)
  let ?m = "m[a := m ! b, b := m ! a]"
  have "swap m a b (Suc n) ! k = swap ?m (Suc a) (Suc b) n ! k"
    by (simp add: Let_def)
  also have "\<dots> = (if Suc a \<le> k \<and> k < Suc a + n then ?m ! (Suc b + (k - Suc a))
      else if Suc b \<le> k \<and> k < Suc b + n then ?m ! (Suc a + (k - Suc b)) else ?m ! k)"
    using Suc.prems by (intro Suc.IH) auto
  also have "\<dots> = (if a \<le> k \<and> k < a + Suc n then m ! (b + (k - a)) else if b \<le> k \<and> k < b + Suc n then m ! (a + (k - b)) else m ! k)"
  proof -
    consider "k = a" | "k = b" | "a < k" "k < a + Suc n" | "b < k" "k < b + Suc n" "\<not> (a \<le> k \<and> k < a + Suc n)"
      | "\<not> (a \<le> k \<and> k < a + Suc n)" "\<not> (b \<le> k \<and> k < b + Suc n)"
      by linarith
    then show ?thesis
    proof cases
      case 3
      then have "Suc b + (k - Suc a) = b + (k - a)" "b + (k - a) \<noteq> a" "a \<noteq> b \<or> b + (k - a) \<noteq> b" "b + (k - a) \<noteq> b"
        using Suc.prems(3) by auto
      then show ?thesis
        using 3 by simp
    next
      case 4
      then have "Suc a + (k - Suc b) = a + (k - b)" "a + (k - b) \<noteq> b" "a + (k - b) \<noteq> a" "\<not> (Suc a \<le> k \<and> k < Suc a + n)" "k \<noteq> a"
        using Suc.prems(3) by auto
      then show ?thesis
        using 4 by auto
    next
      case 5
      then show ?thesis
        by auto
    next
      case 2
      have n: "\<not> (a \<le> k \<and> k < a + Suc n)" "\<not> (Suc a \<le> k \<and> k < Suc a + n)" "\<not> (Suc b \<le> k \<and> k < Suc b + n)"
        and p: "b \<le> k \<and> k < b + Suc n"
        using 2 Suc.prems(3) by auto
      show ?thesis
        unfolding n [THEN if_not_P] p [THEN if_P] using 2 Suc.prems by simp
    next
      case 1
      have n: "\<not> (Suc b \<le> k \<and> k < Suc b + n)" "\<not> (Suc a \<le> k \<and> k < Suc a + n)" and p: "a \<le> k \<and> k < a + Suc n" "a \<noteq> b"
        using 1 Suc.prems(3) by auto
      show ?thesis
        unfolding n [THEN if_not_P] p(1) [THEN if_P] using 1 p(2) Suc.prems by simp
    qed
  qed
  finally show ?case .
qed auto

section \<open>Permuting a part of an array\<close>

definition permutes_range :: "'a list \<Rightarrow> 'a list \<Rightarrow> nat \<Rightarrow> nat \<Rightarrow> bool" where
  "permutes_range xs ys base n \<longleftrightarrow> mset ys = mset xs \<and> (\<forall>k < length xs. k < base \<or> base + n \<le> k \<longrightarrow> ys ! k = xs ! k)"

lemma permutes_refl [simp]: "permutes_range xs xs base n"
  by (simp add: permutes_range_def)

lemma permutes_length: "permutes_range xs ys base n \<Longrightarrow> length ys = length xs"
  by (metis mset_eq_length permutes_range_def)

lemma permutes_trans: "permutes_range xs ys base n \<Longrightarrow> permutes_range ys zs base n \<Longrightarrow> permutes_range xs zs base n"
  by (simp add: permutes_range_def) (metis size_mset)

lemma permutes_mono:
  "permutes_range xs ys b k \<Longrightarrow> base \<le> b \<Longrightarrow> b + k \<le> base + n \<Longrightarrow> permutes_range xs ys base n"
  by (auto simp: permutes_range_def)

lemma permutes_swap:
  "i < n \<Longrightarrow> j < n \<Longrightarrow> base + n \<le> length xs \<Longrightarrow> permutes_range xs (swap_elems xs (base + i) (base + j)) base n"
  by (auto simp: permutes_range_def swap_elems_nth)

lemma permutes_outside: "permutes_range xs ys base n \<Longrightarrow> k < length xs \<Longrightarrow> k < base \<or> base + n \<le> k \<Longrightarrow> ys ! k = xs ! k"
  by (auto simp: permutes_range_def)

lemma permutes_slice:
  assumes "permutes_range xs ys base n" and "base + n \<le> length xs"
  shows "take base ys = take base xs" and "drop (base + n) ys = drop (base + n) xs"
    and "mset (take n (drop base ys)) = mset (take n (drop base xs))"
proof -
  have l: "length ys = length xs"
    by (rule permutes_length [OF assms(1)])
  show t: "take base ys = take base xs"
    using assms l by (intro nth_equalityI) (auto simp: permutes_range_def)
  show d: "drop (base + n) ys = drop (base + n) xs"
    using assms l by (intro nth_equalityI) (auto simp: permutes_range_def)
  have split: "zs = take base zs @ take n (drop base zs) @ drop (base + n) zs" for zs :: "'a list"
    by (metis append_take_drop_id drop_drop add.commute)
  have "mset (take base ys @ take n (drop base ys) @ drop (base + n) ys)
      = mset (take base xs @ take n (drop base xs) @ drop (base + n) xs)"
    using assms(1) split [of xs] split [of ys] by (simp add: permutes_range_def)
  then show "mset (take n (drop base ys)) = mset (take n (drop base xs))"
    using t d by simp
qed

text \<open>Whatever holds of every element of the range still holds after the permutation.\<close>

lemma permutes_all:
  assumes "permutes_range xs ys base n" and "base + n \<le> length xs" and "\<And>k. base \<le> k \<Longrightarrow> k < base + n \<Longrightarrow> P (xs ! k)"
    and "base \<le> k" and "k < base + n"
  shows "P (ys ! k)"
proof -
  have "set (take n (drop base ys)) = set (take n (drop base xs))"
    using permutes_slice(3) [OF assms(1,2)] by (metis set_mset_mset)
  moreover have "ys ! k \<in> set (take n (drop base ys))"
    using assms(2,4,5) permutes_length [OF assms(1)] by (auto simp: in_set_conv_nth intro!: exI [of _ "k - base"])
  ultimately obtain i where "i < n" "ys ! k = xs ! (base + i)"
    using assms(2) by (auto simp: in_set_conv_nth)
  then show ?thesis
    using assms(3) by simp
qed

section \<open>Partitioning\<close>

lemma partition_loop:
  assumes "mid < i" and "i \<le> n" and "base + n \<le> length xs"
    and "\<And>k. 0 < k \<Longrightarrow> k \<le> mid \<Longrightarrow> compar (xs ! base) (xs ! (base + k)) > 0"
    and "\<And>k. mid < k \<Longrightarrow> k < i \<Longrightarrow> compar (xs ! base) (xs ! (base + k)) \<le> 0"
    and "qsort_partition compar base n i mid xs = (mid', ys)"
  shows "permutes_range xs ys (Suc base) (n - 1) \<and> mid' < n
    \<and> (\<forall>k. 0 < k \<longrightarrow> k \<le> mid' \<longrightarrow> compar (xs ! base) (ys ! (base + k)) > 0)
    \<and> (\<forall>k. mid' < k \<longrightarrow> k < n \<longrightarrow> compar (xs ! base) (ys ! (base + k)) \<le> 0)"
  using assms
proof (induction compar base n i mid xs rule: qsort_partition.induct)
  case (1 compar base n i mid xs)
  note run = 1(8)
  let ?p = "xs ! base"
  show ?case
  proof (cases "i < n")
    case False
    then show ?thesis
      using 1(3-7) run by (subst (asm) qsort_partition.simps) auto
  next
    case i: True
    show ?thesis
    proof (cases "compar ?p (xs ! (base + i)) > 0")
      case False
      then have "qsort_partition compar base n (Suc i) mid xs = (mid', ys)"
        using run i by (subst (asm) qsort_partition.simps) simp
      moreover have "compar ?p (xs ! (base + k)) \<le> 0" if "mid < k" "k < Suc i" for k
        using that 1(7) False by (cases "k = i") auto
      ultimately show ?thesis
        using 1(2) [OF i False] 1(3-6) i by auto
    next
      case True
      let ?xs = "if i \<noteq> Suc mid then swap_elems xs (base + Suc mid) (base + i) else xs"
      have eq: "qsort_partition compar base n (Suc i) (Suc mid) ?xs = (mid', ys)"
        using run i True by (subst (asm) qsort_partition.simps) (simp add: Let_def)
      have nth: "?xs ! (base + k) = (if k = i then xs ! (base + Suc mid) else if k = Suc mid then xs ! (base + i) else xs ! (base + k))"
        if "k < n" for k
        using that 1(3-5) i by (auto simp: swap_elems_nth)
      have piv: "?xs ! base = ?p"
        using nth [of 0] 1(3) i by simp
      have "compar ?p (?xs ! (base + k)) > 0" if "0 < k" "k \<le> Suc mid" for k
        using that nth [of k] 1(3,6) i True by (auto simp: le_Suc_eq)
      moreover have "compar ?p (?xs ! (base + k)) \<le> 0" if "Suc mid < k" "k < Suc i" for k
        using that nth [of k] 1(3) 1(7) [of k] 1(7) [of "Suc mid"] i True by (auto simp: less_Suc_eq)
      ultimately have IH: "permutes_range ?xs ys (Suc base) (n - 1) \<and> mid' < n
          \<and> (\<forall>k. 0 < k \<longrightarrow> k \<le> mid' \<longrightarrow> compar ?p (ys ! (base + k)) > 0)
          \<and> (\<forall>k. mid' < k \<longrightarrow> k < n \<longrightarrow> compar ?p (ys ! (base + k)) \<le> 0)"
        using 1(1) [OF i True refl refl _ _ _ _ _ eq] 1(3-5) i piv by auto
      have "permutes_range xs ?xs (Suc base) (n - 1)"
        using permutes_swap [of mid "n - 1" "i - 1" "Suc base" xs] 1(3-5) i by auto
      then show ?thesis
        using IH permutes_trans by blast
    qed
  qed
qed

text \<open>
  The contract of a comparison: it is antisymmetric and transitive in the sense that a sort
  needs, so \<open>compar x y \<le> 0\<close> is a total preorder.
\<close>

locale comparator =
  fixes compar :: "'a \<Rightarrow> 'a \<Rightarrow> int"
  assumes compar_asym: "compar x y > 0 \<Longrightarrow> compar y x \<le> 0"
    and compar_trans: "compar x y \<le> 0 \<Longrightarrow> compar y z \<le> 0 \<Longrightarrow> compar x z \<le> 0"
begin

lemma split_around_pivot:
  assumes "2 \<le> n" and "base + n \<le> length xs" and "qsort_split compar base n xs = (mid, ys)"
  shows "permutes_range xs ys base n" and "mid < n"
    and "\<And>k. base \<le> k \<Longrightarrow> k < base + mid \<Longrightarrow> compar (ys ! k) (ys ! (base + mid)) \<le> 0"
    and "\<And>k. base + (mid + 1) \<le> k \<Longrightarrow> k < base + n \<Longrightarrow> compar (ys ! (base + mid)) (ys ! k) \<le> 0"
proof -
  define xs0 where "xs0 = swap_elems xs base (base + n div 2)"
  define zs where "zs = snd (qsort_partition compar base n 1 0 xs0)"
  have part: "qsort_partition compar base n 1 0 xs0 = (mid, zs)" and ys: "ys = (if mid > 0 then swap_elems zs base (base + mid) else zs)"
    using assms(3) by (auto simp: qsort_split_def Let_def xs0_def zs_def split: prod.splits)
  have p0: "permutes_range xs xs0 base n"
    using permutes_swap [of 0 n "n div 2" base xs] assms(1,2) by (simp add: xs0_def)
  have l0: "length xs0 = length xs"
    by (rule permutes_length [OF p0])
  have loop: "permutes_range xs0 zs (Suc base) (n - 1)" "mid < n"
    "\<And>k. 0 < k \<Longrightarrow> k \<le> mid \<Longrightarrow> compar (xs0 ! base) (zs ! (base + k)) > 0"
    "\<And>k. mid < k \<Longrightarrow> k < n \<Longrightarrow> compar (xs0 ! base) (zs ! (base + k)) \<le> 0"
    using partition_loop [of 0 1 n base xs0 compar mid zs] assms(1,2) l0 part by auto
  have lz: "length zs = length xs"
    using permutes_length [OF loop(1)] l0 by simp
  have piv: "zs ! base = xs0 ! base"
    using permutes_outside [OF loop(1)] assms(1,2) l0 by auto
  have nth: "ys ! (base + k) = (if k = mid then zs ! base else if k = 0 then zs ! (base + mid) else zs ! (base + k))" if "k < n" for k
    using that loop(2) assms(1,2) lz by (auto simp: ys swap_elems_nth)
  show "mid < n"
    by (rule loop(2))
  have "permutes_range xs0 zs base n"
    using loop(1) assms(1) by (auto intro: permutes_mono)
  moreover have "permutes_range zs ys base n"
    using permutes_swap [of 0 n mid base zs] loop(2) assms(2) lz by (auto simp: ys)
  ultimately show "permutes_range xs ys base n"
    using p0 permutes_trans by blast
  show "compar (ys ! k) (ys ! (base + mid)) \<le> 0" if "base \<le> k" "k < base + mid" for k
    using that nth [of "k - base"] nth [of mid] loop(2) loop(3) [of "k - base"] loop(3) [of mid] piv by (auto intro: compar_asym)
  show "compar (ys ! (base + mid)) (ys ! k) \<le> 0" if "base + (mid + 1) \<le> k" "k < base + n" for k
    using that nth [of "k - base"] nth [of mid] loop(2) loop(4) [of "k - base"] piv by auto
qed

definition sorted_range :: "'a list \<Rightarrow> nat \<Rightarrow> nat \<Rightarrow> bool" where
  "sorted_range xs base n \<longleftrightarrow> (\<forall>i j. base \<le> i \<longrightarrow> i < j \<longrightarrow> j < base + n \<longrightarrow> compar (xs ! i) (xs ! j) \<le> 0)"

text \<open>The two sides of the pivot are sorted one after the other, in either order.\<close>

lemma sides_sorted:
  assumes m: "mid < n" and len: "base + n \<le> length xs"
    and left: "\<And>k. base \<le> k \<Longrightarrow> k < base + mid \<Longrightarrow> compar (xs ! k) (xs ! (base + mid)) \<le> 0"
    and right: "\<And>k. base + (mid + 1) \<le> k \<Longrightarrow> k < base + n \<Longrightarrow> compar (xs ! (base + mid)) (xs ! k) \<le> 0"
    and p1: "permutes_range xs ys b1 n1" and p2: "permutes_range ys zs b2 n2"
    and sides: "(b1, n1, b2, n2) = (base, mid, base + (mid + 1), n - (mid + 1)) \<or> (b1, n1, b2, n2) = (base + (mid + 1), n - (mid + 1), base, mid)"
    and s1: "sorted_range ys b1 n1" and s2: "sorted_range zs b2 n2"
  shows "permutes_range xs zs base n \<and> sorted_range zs base n"
proof -
  let ?p = "xs ! (base + mid)"
  have ly: "length ys = length xs"
    by (rule permutes_length [OF p1])
  have keep1: "ys ! k = xs ! k" if "k < length xs" "k < b1 \<or> b1 + n1 \<le> k" for k
    using permutes_outside [OF p1] that by simp
  have keep2: "zs ! k = ys ! k" if "k < length xs" "k < b2 \<or> b2 + n2 \<le> k" for k
    using permutes_outside [OF p2] that ly by simp
  have mid: "zs ! (base + mid) = ?p"
    using keep1 keep2 sides m len by auto
  have left': "compar (zs ! k) ?p \<le> 0" if "base \<le> k" "k < base + mid" for k
    using sides
  proof
    assume c: "(b1, n1, b2, n2) = (base, mid, base + (mid + 1), n - (mid + 1))"
    have "compar (ys ! k) ?p \<le> 0"
      using c that left len m by (intro permutes_all [OF p1, where P = "\<lambda>x. compar x ?p \<le> 0"]) auto
    then show ?thesis
      using keep2 [of k] c that len m by simp
  next
    assume c: "(b1, n1, b2, n2) = (base + (mid + 1), n - (mid + 1), base, mid)"
    then show ?thesis
      using that left len m ly keep1 by (intro permutes_all [OF p2, where P = "\<lambda>x. compar x ?p \<le> 0"]) auto
  qed
  have right': "compar ?p (zs ! k) \<le> 0" if "base + (mid + 1) \<le> k" "k < base + n" for k
    using sides
  proof
    assume c: "(b1, n1, b2, n2) = (base, mid, base + (mid + 1), n - (mid + 1))"
    then show ?thesis
      using that right len m ly keep1 by (intro permutes_all [OF p2, where P = "\<lambda>x. compar ?p x \<le> 0"]) auto
  next
    assume c: "(b1, n1, b2, n2) = (base + (mid + 1), n - (mid + 1), base, mid)"
    have "compar ?p (ys ! k) \<le> 0"
      using c that right len m by (intro permutes_all [OF p1, where P = "\<lambda>x. compar ?p x \<le> 0"]) auto
    then show ?thesis
      using keep2 [of k] c that len m by simp
  qed
  have inner: "compar (zs ! i) (zs ! j) \<le> 0" if "i < j" "base \<le> i \<and> j < base + mid \<or> base + (mid + 1) \<le> i \<and> j < base + n" for i j
    using sides that s1 s2 keep2 [of i] keep2 [of j] len m by (auto simp: sorted_range_def)
  have "compar (zs ! i) (zs ! j) \<le> 0" if ij: "base \<le> i" "i < j" "j < base + n" for i j
  proof -
    consider "j < base + mid" | "base + mid < i" | "i \<le> base + mid" "base + mid \<le> j"
      by linarith
    then show ?thesis
    proof cases
      case 3
      then show ?thesis
        using ij left' [of i] right' [of j] mid compar_trans [of "zs ! i" ?p "zs ! j"] by (cases "i = base + mid"; cases "j = base + mid") auto
    qed (use ij inner in auto)
  qed
  moreover have "permutes_range xs zs base n"
    using sides m permutes_mono [OF p1, of base n] permutes_mono [OF p2, of base n] permutes_trans by auto
  ultimately show ?thesis
    by (simp add: sorted_range_def)
qed

lemma qsort_sorts:
  "base + n \<le> length xs \<Longrightarrow> permutes_range xs (backtrace_qsort compar xs base n) base n
     \<and> sorted_range (backtrace_qsort compar xs base n) base n"
proof (induction n arbitrary: xs base rule: less_induct)
  case (less n)
  obtain mid ys where split: "qsort_split compar base n xs = (mid, ys)"
    by fastforce
  show ?case
  proof (cases "n < 2")
    case True
    then show ?thesis
      by (simp add: backtrace_qsort.simps [of _ _ _ n] sorted_range_def)
  next
    case False
    note s = split_around_pivot [OF _ less.prems split]
    have ly: "length ys = length xs"
      using permutes_length s(1) False by auto
    define sort where "sort = (\<lambda>zs b k. backtrace_qsort compar zs b k)"
    have IH: "permutes_range zs (sort zs b k) b k \<and> sorted_range (sort zs b k) b k" if "k < n" "b + k \<le> length zs" for zs b k
      using less.IH [OF that] by (simp add: sort_def)
    have len: "length (sort zs b k) = length zs" if "k < n" "b + k \<le> length zs" for zs b k
      using IH [OF that] permutes_length by blast
    have eq: "backtrace_qsort compar xs base n =
        (if 2 * mid < n then sort (sort ys base mid) (base + (mid + 1)) (n - (mid + 1))
         else sort (sort ys (base + (mid + 1)) (n - (mid + 1))) base mid)"
      using False split by (subst backtrace_qsort.simps) (simp add: sort_def)
    have m: "mid < n"
      using s(2) False by simp
    have r: "n - (mid + 1) < n" "base + mid \<le> length ys" "base + (mid + 1) + (n - (mid + 1)) \<le> length ys"
      using m less.prems ly by auto
    have "permutes_range ys (backtrace_qsort compar xs base n) base n \<and> sorted_range (backtrace_qsort compar xs base n) base n"
    proof (cases "2 * mid < n")
      case True
      show ?thesis
        unfolding eq if_P [OF True] using False less.prems ly m r
        by (intro sides_sorted [OF m _ s(3,4) conjunct1 [OF IH] conjunct1 [OF IH] disjI1 [OF refl] conjunct2 [OF IH] conjunct2 [OF IH]])
          (auto simp: len)
    next
      case F: False
      show ?thesis
        unfolding eq if_not_P [OF F] using False less.prems ly m r
        by (intro sides_sorted [OF m _ s(3,4) conjunct1 [OF IH] conjunct1 [OF IH] disjI2 [OF refl] conjunct2 [OF IH] conjunct2 [OF IH]])
          (auto simp: len)
    qed
    then show ?thesis
      using s(1) False permutes_trans by auto
  qed
qed

end

section \<open>Elements as blocks of bytes\<close>

lemma concat_blocks:
  assumes "\<forall>x \<in> set xs. length (enc x) = sz"
  shows "length (concat (map enc xs)) = length xs * sz"
    and "k < length xs * sz \<Longrightarrow> concat (map enc xs) ! k = enc (xs ! (k div sz)) ! (k mod sz)"
  using assms
proof (induction xs arbitrary: k)
  case (Cons x xs)
  {
    case 2
    show ?case
    proof (cases "k < sz")
      case False
      then have "k = sz + (k - sz)" "0 < sz \<or> sz = 0"
        by auto
      then have "k div sz = Suc ((k - sz) div sz)" "k mod sz = (k - sz) mod sz"
        using 2(1) False by (auto simp: le_div_geq le_mod_geq)
      then show ?thesis
        using 2 False Cons.IH(2) [of "k - sz"] by (simp add: nth_append)
    qed (use 2 in \<open>simp add: nth_append\<close>)
  }
qed simp_all

lemma swap_blocks:
  assumes "\<forall>x \<in> set xs. length (enc x) = sz" and "i < length xs" and "j < length xs"
  shows "swap (concat (map enc xs)) (i * sz) (j * sz) sz = concat (map enc (swap_elems xs i j))"
proof (cases "i = j")
  case True
  then show ?thesis
    by (simp add: swap_same swap_elems_def)
next
  case False
  let ?m = "concat (map enc xs)"
  have enc': "\<forall>x \<in> set (swap_elems xs i j). length (enc x) = sz"
    using assms by (metis mset_swap_elems set_mset_mset)
  have b: "k * sz + sz \<le> length xs * sz" if "k < length xs" for k
    using mult_le_mono1 [of "Suc k" "length xs" sz] that by simp
  have l: "length ?m = length xs * sz" "length (concat (map enc (swap_elems xs i j))) = length xs * sz"
    using concat_blocks(1) [OF assms(1)] concat_blocks(1) [OF enc'] by simp_all
  have d: "i * sz + sz \<le> j * sz \<or> j * sz + sz \<le> i * sz"
    using False mult_le_mono1 [of "Suc i" j sz] mult_le_mono1 [of "Suc j" i sz] by (cases "i < j") auto
  have block: "(p * sz \<le> k \<and> k < p * sz + sz) = (k div sz = p)" if "0 < sz" for p k
    using that by (metis add.commute div_nat_eqI dividend_less_times_div le_add1 mult.commute mult_Suc times_div_less_eq_dividend)
  have move: "(p * sz + (k - q * sz)) div sz = p" "(p * sz + (k - q * sz)) mod sz = k mod sz" if "k div sz = q" "0 < sz" for p q k
  proof -
    have "k - q * sz = k mod sz"
      using that(1) by (metis minus_div_mult_eq_mod)
    then show "(p * sz + (k - q * sz)) div sz = p" "(p * sz + (k - q * sz)) mod sz = k mod sz"
      using that(2) by simp_all
  qed
  show ?thesis
  proof (rule nth_equalityI)
    fix k
    assume "k < length (swap ?m (i * sz) (j * sz) sz)"
    then have k: "k < length xs * sz" "0 < sz"
      using l by (auto intro: Nat.gr0I)
    then have q: "k div sz < length xs"
      by (simp add: less_mult_imp_div_less)
    have rng: "p * sz + (k - q * sz) < length xs * sz" if "k div sz = q" "p < length xs" for p q
      using that b [of p] k(2) by (metis add.commute le_add1 less_le_trans minus_div_mult_eq_mod mod_less_divisor nat_add_left_cancel_less)
    show "swap ?m (i * sz) (j * sz) sz ! k = concat (map enc (swap_elems xs i j)) ! k"
      using concat_blocks(2) [OF enc', of k] concat_blocks(2) [OF assms(1)] k q rng move assms(2,3) False
      by (auto simp: swap_nth [OF _ _ d] b l block swap_elems_nth)
  qed (simp add: l)
qed

section \<open>What the sort promises\<close>

text \<open>
  C32: the sort puts the range it is given in order and leaves the rest of the array alone.
  With a comparison by a key, the keys come out as the library's sort of the keys, and the
  elements are a permutation of the old ones.
\<close>

theorem backtrace_qsort_is_sort:
  fixes key :: "'a \<Rightarrow> 'k :: linorder"
  assumes compar: "\<And>x y. compar x y > 0 \<longleftrightarrow> key y < key x"
  shows "\<exists>ys. backtrace_qsort compar (pre @ xs @ post) (length pre) (length xs) = pre @ ys @ post
    \<and> mset ys = mset xs \<and> map key ys = sort (map key xs)"
proof -
  have "comparator compar"
    using compar by unfold_locales (force simp: not_less [symmetric])+
  note sorted = comparator.qsort_sorts [OF this, of "length pre" "length xs" "pre @ xs @ post"]
  let ?r = "backtrace_qsort compar (pre @ xs @ post) (length pre) (length xs)"
  define ys where "ys = take (length xs) (drop (length pre) ?r)"
  have p: "permutes_range (pre @ xs @ post) ?r (length pre) (length xs)"
    using sorted by simp
  have "?r = take (length pre) ?r @ ys @ drop (length pre + length xs) ?r"
    unfolding ys_def by (metis append_take_drop_id drop_drop add.commute)
  then have r: "?r = pre @ ys @ post"
    using permutes_slice(1,2) [OF p] by simp
  have m: "mset ys = mset xs"
    using permutes_slice(3) [OF p] by (simp add: ys_def)
  have l: "length ys = length xs"
    using m mset_eq_length by blast
  have "key (ys ! i) \<le> key (ys ! j)" if "i < j" "j < length xs" for i j
  proof -
    have "compar (?r ! (length pre + i)) (?r ! (length pre + j)) \<le> 0"
      using sorted that by (simp add: comparator.sorted_range_def [OF \<open>comparator compar\<close>])
    moreover have "?r ! (length pre + i) = ys ! i" "?r ! (length pre + j) = ys ! j"
      unfolding r using that l by (simp_all add: nth_append)
    ultimately show ?thesis
      using compar [of "ys ! i" "ys ! j"] by simp
  qed
  then have "sorted (map key ys)"
    using l by (simp add: sorted_wrt_iff_nth_less)
  then have "map key ys = sort (map key xs)"
    using m by (metis mset_map mset_sort properties_for_sort sort_key_id_if_sorted sorted_sort)
  then show ?thesis
    using r m by blast
qed

theorem backtrace_qsort_is_sort_witness:
  "\<exists>ys. backtrace_qsort (\<lambda>x y :: int. x - y) ([9] @ [5, 3, 8] @ [1]) (length [9 :: int]) (length [5, 3, 8 :: int]) = [9] @ ys @ [1]
    \<and> mset ys = mset [5, 3, 8] \<and> ys = [3, 5, 8]"
  using backtrace_qsort_is_sort [of "\<lambda>x y :: int. x - y" id "[9]" "[5, 3, 8]" "[1]"] by simp

text \<open>
  C40: the nesting of the calls is logarithmic, whatever the comparison does and however the
  array is ordered.
\<close>

theorem qsort_depth_logarithmic:
  "2 ^ qsort_depth compar xs base n \<le> max 1 n"
proof (induction n arbitrary: xs base rule: less_induct)
  case (less n)
  obtain mid ys where split: "qsort_split compar base n xs = (mid, ys)"
    by fastforce
  show ?case
  proof (cases "n < 2")
    case True
    then show ?thesis
      by (simp add: qsort_depth.simps [of _ _ _ n])
  next
    case False
    then have m: "mid < n"
      using split_mid_bound [of n compar base xs] split by simp
    have IH: "2 ^ qsort_depth compar zs b k \<le> max 1 k" if "k < n" for zs b k
      by (rule less.IH [OF that])
    have deeper: "2 ^ Suc (qsort_depth compar zs b k) \<le> max 1 n" if "2 * k \<le> n" for zs b k
      using IH [of k zs b] that False by (cases "k = 0") auto
    have same: "2 ^ qsort_depth compar zs b k \<le> max 1 n" if "k < n" for zs b k
      using IH [OF that, of zs b] that by simp
    have both: "2 ^ max (Suc d) e \<le> max 1 n" if "2 ^ Suc d \<le> max 1 n" "2 ^ e \<le> max 1 n" for d e
      using that by (auto simp: max_def)
    have eq: "qsort_depth compar xs base n =
        (if 2 * mid < n then max (Suc (qsort_depth compar ys base mid))
            (qsort_depth compar (backtrace_qsort compar ys base mid) (base + (mid + 1)) (n - (mid + 1)))
         else max (Suc (qsort_depth compar ys (base + (mid + 1)) (n - (mid + 1))))
            (qsort_depth compar (backtrace_qsort compar ys (base + (mid + 1)) (n - (mid + 1))) base mid))"
      using False split by (subst qsort_depth.simps) simp
    show ?thesis
    proof (cases "2 * mid < n")
      case True
      show ?thesis
        unfolding eq if_P [OF True] by (rule both [OF deeper same]) (use True in auto)
    next
      case F: False
      show ?thesis
        unfolding eq if_not_P [OF F] by (rule both [OF deeper same]) (use F m in auto)
    qed
  qed
qed

end
