(* ===== verification/Backtrace_Syms.thy ===== *)
theory Backtrace_Syms
  imports Backtrace_Sort
begin

text \<open>
  The symbol tables of the backtrace library: the function and object symbols of an ELF file
  (\<^verbatim>\<open>src/dwarf/elf.c\<close>) and the function symbols of a PE/COFF file (\<^verbatim>\<open>src/dwarf/pecoff.c\<close>).
  Both are collected from the file's symbol table, sorted by address with
  \<^verbatim>\<open>backtrace_qsort\<close>, appended to the list of modules, and searched with \<^verbatim>\<open>bsearch\<close>.
  A name is kept as the pointer that the code keeps, an offset into a buffer.
\<close>

section \<open>Binary search\<close>

text \<open>
  \<^verbatim>\<open>bsearch\<close> of the C library, on an array of \<open>n\<close> entries; the comparison of the key with an
  entry is given the index, because some of the comparisons look at the next entry, too.
\<close>

function bsearch_loop :: "(nat \<Rightarrow> int) \<Rightarrow> nat \<Rightarrow> nat \<Rightarrow> nat option" where
  "bsearch_loop cmp l u =
     (if l < u then
        let idx = (l + u) div 2
        in if cmp idx < 0 then bsearch_loop cmp l idx
           else if cmp idx > 0 then bsearch_loop cmp (idx + 1) u
           else Some idx
      else None)"
  by pat_completeness auto
termination
  by (relation "measure (\<lambda>(cmp, l, u). u - l)") auto

declare bsearch_loop.simps [simp del]

definition bsearch :: "(nat \<Rightarrow> int) \<Rightarrow> nat \<Rightarrow> nat option" where
  "bsearch cmp n = bsearch_loop cmp 0 n"

lemma bsearch_loop_found: "bsearch_loop cmp l u = Some i \<Longrightarrow> l \<le> i \<and> i < u \<and> cmp i = 0"
proof (induction cmp l u rule: bsearch_loop.induct)
  case (1 cmp l u)
  then show ?case
    by (subst (asm) (3) bsearch_loop.simps) (fastforce simp: Let_def split: if_splits)
qed

lemma bsearch_found: "bsearch cmp n = Some i \<Longrightarrow> i < n \<and> cmp i = 0"
  using bsearch_loop_found by (auto simp: bsearch_def)

text \<open>The contract of the search: the entries that are too small come first and those that are too large last.\<close>

locale ordered_search =
  fixes cmp :: "nat \<Rightarrow> int" and n :: nat
  assumes above: "i < j \<Longrightarrow> j < n \<Longrightarrow> cmp i < 0 \<Longrightarrow> cmp j < 0"
    and below: "i < j \<Longrightarrow> j < n \<Longrightarrow> cmp j > 0 \<Longrightarrow> cmp i > 0"
begin

lemma loop_complete:
  assumes "u \<le> n" and "l \<le> i" and "i < u" and "cmp i = 0"
  shows "bsearch_loop cmp l u \<noteq> None"
  using assms
proof (induction "u - l" arbitrary: l u rule: less_induct)
  case less
  let ?k = "(l + u) div 2"
  have k: "l \<le> ?k" "?k < u"
    using less.prems by auto
  consider "cmp ?k = 0" | "cmp ?k < 0" "i < ?k" | "cmp ?k > 0" "?k < i"
    using above [of ?k i] below [of i ?k] less.prems k 
    by (cases "cmp ?k" "0 :: int" rule: linorder_cases; cases i ?k rule: linorder_cases) auto
  then show ?case
  proof cases
    case 2
    then show ?thesis
      using less.hyps [of ?k l] less.prems k by (subst bsearch_loop.simps) simp
  next
    case 3
    then show ?thesis
      using less.hyps [of u "?k + 1"] less.prems k by (subst bsearch_loop.simps) simp
  qed (use less.prems in \<open>subst bsearch_loop.simps, simp\<close>)
qed

lemma complete: "i < n \<Longrightarrow> cmp i = 0 \<Longrightarrow> \<exists>j. bsearch cmp n = Some j \<and> j < n \<and> cmp j = 0"
  using loop_complete [of n 0 i] bsearch_found [of cmp n] by (auto simp: bsearch_def)

end

section \<open>ELF symbols\<close>

record b_elf_sym =
  st_name :: u32
  st_info :: u8
  st_other :: u8
  st_shndx :: u16
  st_value :: u64
  st_size :: u64

definition STT_OBJECT :: u8 where "STT_OBJECT = 1"
definition STT_FUNC :: u8 where "STT_FUNC = 2"
definition SHN_UNDEF :: u16 where "SHN_UNDEF = 0"

text \<open>What is kept of a symbol; the name is an offset into the string table.\<close>

record elf_symbol =
  esym_name :: nat
  esym_address :: u64
  esym_size :: u64

record elf_syminfo_data =
  edata_symbols :: "elf_symbol list"
  edata_count :: nat

record elf_ppc64_opd_data =
  opd_addr :: u64
  opd_data :: "u8 list"
  opd_size :: u64

text \<open>A call of the error callback: the message and the error number.\<close>

type_synonym bt_error = "string \<times> int"

definition elf_symbol_compare :: "elf_symbol \<Rightarrow> elf_symbol \<Rightarrow> int" where
  "elf_symbol_compare e1 e2 =
     (if esym_address e1 < esym_address e2 then - 1
      else if esym_address e1 > esym_address e2 then 1 else 0)"

definition elf_symbol_search :: "u64 \<Rightarrow> elf_symbol \<Rightarrow> int" where
  "elf_symbol_search addr entry =
     (if addr < esym_address entry then - 1
      else if addr \<ge> esym_address entry + esym_size entry then 1 else 0)"

definition elf_wanted :: "b_elf_sym \<Rightarrow> bool" where
  "elf_wanted y \<longleftrightarrow>
     (let info = st_info y AND 0xf
      in (info = STT_FUNC \<or> info = STT_OBJECT) \<and> st_shndx y \<noteq> SHN_UNDEF)"

fun elf_count_symbols :: "b_elf_sym list \<Rightarrow> nat" where
  "elf_count_symbols [] = 0"
| "elf_count_symbols (y # ys) = (if elf_wanted y then 1 else 0) + elf_count_symbols ys"

text \<open>The address of a symbol: a function descriptor of PowerPC64 is followed to the code (on a little-endian host).\<close>

definition elf_symbol_address :: "elf_ppc64_opd_data option \<Rightarrow> b_elf_sym \<Rightarrow> u64 res" where
  "elf_symbol_address opd y =
     (case opd of
        Some d \<Rightarrow>
          if st_value y \<ge> opd_addr d \<and> st_value y < opd_addr d + opd_size d then
            let off = unat (st_value y - opd_addr d)
            in if off + 8 \<le> length (opd_data d) then Inr (of_nat (of_le_bytes (take 8 (drop off (opd_data d)))))
               else Inl OutOfBounds
          else Inr (st_value y)
      | None \<Rightarrow> Inr (st_value y))"

text \<open>The second loop, which fills the array of \<open>n\<close> entries; \<open>acc\<close> is the part filled so far.\<close>

fun elf_fill_symbols :: "u64 \<Rightarrow> nat \<Rightarrow> elf_ppc64_opd_data option \<Rightarrow> nat \<Rightarrow> b_elf_sym list \<Rightarrow> elf_symbol list \<Rightarrow>
    (bt_error + elf_symbol list) res" where
  "elf_fill_symbols base_address strtab_size opd n [] acc = Inr (Inr acc)"
| "elf_fill_symbols base_address strtab_size opd n (y # ys) acc =
     (let info = st_info y AND 0xf
      in if info \<noteq> STT_FUNC \<and> info \<noteq> STT_OBJECT then elf_fill_symbols base_address strtab_size opd n ys acc
         else if st_shndx y = SHN_UNDEF then elf_fill_symbols base_address strtab_size opd n ys acc
         else if unat (st_name y) \<ge> strtab_size then Inr (Inl (''symbol string index out of range'', 0))
         else if length acc \<ge> n then Inl OutOfBounds
         else
           bind_res (elf_symbol_address opd y) (\<lambda>a.
           elf_fill_symbols base_address strtab_size opd n ys
             (acc @ [\<lparr>esym_name = unat (st_name y), esym_address = a + base_address, esym_size = st_size y\<rparr>])))"

text \<open>\<open>alloc\<close> is \<^verbatim>\<open>backtrace_alloc\<close>: the error with which it fails for a given size, if it does.\<close>

definition elf_initialize_syminfo :: "(nat \<Rightarrow> bt_error option) \<Rightarrow> u64 \<Rightarrow> b_elf_sym list \<Rightarrow> nat \<Rightarrow> elf_ppc64_opd_data option \<Rightarrow>
    (bt_error + elf_syminfo_data) res" where
  "elf_initialize_syminfo alloc base_address ys strtab_size opd =
     (let elf_symbol_count = elf_count_symbols ys
      in case alloc (elf_symbol_count * 24) of
           Some e \<Rightarrow> Inr (Inl e)
         | None \<Rightarrow>
             bind_res (elf_fill_symbols base_address strtab_size opd elf_symbol_count ys []) (\<lambda>r.
             case r of
               Inl e \<Rightarrow> Inr (Inl e)
             | Inr elf_symbols \<Rightarrow>
                 Inr (Inr \<lparr>edata_symbols = backtrace_qsort elf_symbol_compare elf_symbols 0 elf_symbol_count,
                   edata_count = elf_symbol_count\<rparr>)))"

text \<open>The list of modules (\<^verbatim>\<open>state->syminfo_data\<close>): a new one is linked in at the end.\<close>

fun elf_add_syminfo_data :: "'d list \<Rightarrow> 'd \<Rightarrow> 'd list" where
  "elf_add_syminfo_data [] edata = [edata]"
| "elf_add_syminfo_data (p # ps) edata = p # elf_add_syminfo_data ps edata"

text \<open>The arguments of the symbol callback: the address asked for, and the name, address and size of the symbol.\<close>

type_synonym 'n syminfo_call = "u64 \<times> 'n option \<times> u64 \<times> u64"

fun elf_find_symbol :: "elf_syminfo_data list \<Rightarrow> u64 \<Rightarrow> elf_symbol option" where
  "elf_find_symbol [] addr = None"
| "elf_find_symbol (edata # next) addr =
     (case bsearch (\<lambda>i. elf_symbol_search addr (edata_symbols edata ! i)) (edata_count edata) of
        Some i \<Rightarrow> Some (edata_symbols edata ! i)
      | None \<Rightarrow> elf_find_symbol next addr)"

definition elf_syminfo :: "elf_syminfo_data list \<Rightarrow> u64 \<Rightarrow> nat syminfo_call" where
  "elf_syminfo syminfo_data addr =
     (case elf_find_symbol syminfo_data addr of
        None \<Rightarrow> (addr, None, 0, 0)
      | Some y \<Rightarrow> (addr, Some (esym_name y), esym_address y, esym_size y))"

section \<open>The ELF table\<close>

interpretation es: comparator elf_symbol_compare
  by unfold_locales (auto simp: elf_symbol_compare_def split: if_splits)

text \<open>The entry that the table has for a symbol of the file.\<close>

definition elf_entry :: "u64 \<Rightarrow> b_elf_sym \<Rightarrow> elf_symbol" where
  "elf_entry base_address y = \<lparr>esym_name = unat (st_name y), esym_address = st_value y + base_address, esym_size = st_size y\<rparr>"

lemma elf_count_filter: "elf_count_symbols ys = length (filter elf_wanted ys)"
  by (induction ys) auto

lemma elf_fill_spec:
  "length acc + elf_count_symbols ys \<le> n \<Longrightarrow> elf_fill_symbols base strtab_size None n ys acc =
    (if \<exists>y \<in> set ys. elf_wanted y \<and> strtab_size \<le> unat (st_name y) then Inr (Inl (''symbol string index out of range'', 0))
     else Inr (Inr (acc @ map (elf_entry base) (filter elf_wanted ys))))"
  by (induction ys arbitrary: acc) (auto simp: elf_wanted_def Let_def elf_symbol_address_def elf_entry_def)

lemma sorted_wrt_permute:
  "mset xs = mset ys \<Longrightarrow> (\<And>x y. R x y \<Longrightarrow> R y x) \<Longrightarrow> sorted_wrt R xs \<Longrightarrow> sorted_wrt R ys"
proof (induction ys arbitrary: xs)
  case (Cons y ys)
  obtain us vs where xs: "xs = us @ y # vs"
    using Cons.prems(1) by (metis list.set_intros(1) set_mset_mset split_list)
  have m: "mset (us @ vs) = mset ys"
    using Cons.prems(1) by (simp add: xs)
  then have "set ys = set us \<union> set vs"
    by (metis set_append set_mset_mset)
  moreover have "\<forall>x \<in> set us \<union> set vs. R y x"
    using Cons.prems(2,3) by (auto simp: xs sorted_wrt_append)
  moreover have "sorted_wrt R (us @ vs)"
    using Cons.prems(3) by (auto simp: xs sorted_wrt_append)
  ultimately show ?case
    using Cons.IH [OF m Cons.prems(2)] by auto
qed simp

definition sym_contains :: "u64 \<Rightarrow> elf_symbol \<Rightarrow> bool" where
  "sym_contains addr e \<longleftrightarrow> unat (esym_address e) \<le> unat addr \<and> unat addr < unat (esym_address e) + unat (esym_size e)"

definition sym_apart :: "elf_symbol \<Rightarrow> elf_symbol \<Rightarrow> bool" where
  "sym_apart e f \<longleftrightarrow> unat (esym_address e) + unat (esym_size e) \<le> unat (esym_address f)
     \<or> unat (esym_address f) + unat (esym_size f) \<le> unat (esym_address e)"

definition sym_proper :: "elf_symbol \<Rightarrow> bool" where
  "sym_proper e \<longleftrightarrow> 0 < esym_size e \<and> unat (esym_address e) + unat (esym_size e) < 2 ^ 64"

lemma apart_unique: "sorted_wrt sym_apart es \<Longrightarrow> e \<in> set es \<Longrightarrow> f \<in> set es \<Longrightarrow> sym_contains addr e \<Longrightarrow> sym_contains addr f \<Longrightarrow> e = f"
  by (induction es) (auto simp: sym_apart_def sym_contains_def)

lemma unat_no_wrap: "unat (a :: u64) + unat b < 2 ^ 64 \<Longrightarrow> unat (a + b) = unat a + unat b"
  by (simp add: unat_word_ariths)

lemma search_sign:
  assumes "sym_proper e"
  shows "elf_symbol_search addr e < 0 \<longleftrightarrow> unat addr < unat (esym_address e)"
    and "elf_symbol_search addr e > 0 \<longleftrightarrow> unat (esym_address e) + unat (esym_size e) \<le> unat addr"
    and "elf_symbol_search addr e = 0 \<longleftrightarrow> sym_contains addr e"
  using assms unat_no_wrap [of "esym_address e" "esym_size e"]
  by (auto simp: elf_symbol_search_def sym_proper_def sym_contains_def word_less_nat_alt word_le_nat_alt)

text \<open>A sorted table of symbols that do not overlap can be searched.\<close>

lemma table_searchable:
  assumes "\<forall>e \<in> set tab. sym_proper e" and "sorted_wrt sym_apart tab"
    and "\<And>i j. i < j \<Longrightarrow> j < length tab \<Longrightarrow> elf_symbol_compare (tab ! i) (tab ! j) \<le> 0"
  shows "ordered_search (\<lambda>i. elf_symbol_search addr (tab ! i)) (length tab)"
proof -
  have order: "unat (esym_address (tab ! i)) + unat (esym_size (tab ! i)) \<le> unat (esym_address (tab ! j))" if "i < j" "j < length tab" for i j
  proof -
    have "sym_apart (tab ! i) (tab ! j)" "sym_proper (tab ! i)" "sym_proper (tab ! j)"
      using assms(1,2) that by (auto simp: sorted_wrt_iff_nth_less)
    then show ?thesis
      using assms(3) [OF that]
      by (auto simp: sym_apart_def sym_proper_def elf_symbol_compare_def word_less_nat_alt split: if_splits)
  qed
  show ?thesis
  proof
    fix i j
    assume ij: "i < j" "j < length tab"
    then have p: "sym_proper (tab ! i)" "sym_proper (tab ! j)"
      using assms(1) by auto
    show "elf_symbol_search addr (tab ! j) < 0" if "elf_symbol_search addr (tab ! i) < 0"
      using that order [OF ij] by (simp add: search_sign [OF p(1)] search_sign [OF p(2)])
    show "elf_symbol_search addr (tab ! i) > 0" if "elf_symbol_search addr (tab ! j) > 0"
      using that order [OF ij] by (simp add: search_sign [OF p(1)] search_sign [OF p(2)])
  qed
qed

lemma find_in_table:
  assumes "\<forall>e \<in> set tab. sym_proper e" and "sorted_wrt sym_apart tab"
    and "\<And>i j. i < j \<Longrightarrow> j < length tab \<Longrightarrow> elf_symbol_compare (tab ! i) (tab ! j) \<le> 0"
  shows "e \<in> set tab \<Longrightarrow> sym_contains addr e \<Longrightarrow> elf_find_symbol [\<lparr>edata_symbols = tab, edata_count = length tab\<rparr>] addr = Some e"
    and "\<forall>e \<in> set tab. \<not> sym_contains addr e \<Longrightarrow> elf_find_symbol [\<lparr>edata_symbols = tab, edata_count = length tab\<rparr>] addr = None"
proof -
  let ?cmp = "\<lambda>i. elf_symbol_search addr (tab ! i)"
  have zero: "?cmp i = 0 \<longleftrightarrow> sym_contains addr (tab ! i)" if "i < length tab" for i
    using search_sign(3) assms(1) that by simp
  {
    assume "e \<in> set tab" "sym_contains addr e"
    then obtain i where i: "i < length tab" "tab ! i = e"
      by (auto simp: in_set_conv_nth)
    then obtain j where "bsearch ?cmp (length tab) = Some j" "j < length tab" "?cmp j = 0"
      using ordered_search.complete [OF table_searchable [OF assms], of i addr] zero \<open>sym_contains addr e\<close> by auto
    moreover have "tab ! j = e"
      using apart_unique [OF assms(2) nth_mem [OF \<open>j < length tab\<close>] \<open>e \<in> set tab\<close> _ \<open>sym_contains addr e\<close>] zero calculation by simp
    ultimately show "elf_find_symbol [\<lparr>edata_symbols = tab, edata_count = length tab\<rparr>] addr = Some e"
      by simp
  }
  assume "\<forall>e \<in> set tab. \<not> sym_contains addr e"
  then have "bsearch ?cmp (length tab) = None"
    using bsearch_found [of ?cmp "length tab"] zero by (cases "bsearch ?cmp (length tab)") auto
  then show "elf_find_symbol [\<lparr>edata_symbols = tab, edata_count = length tab\<rparr>] addr = None"
    by simp
qed

lemma elf_table:
  assumes "elf_initialize_syminfo alloc base ys strtab_size None = Inr (Inr edata)"
  shows "\<exists>tab. edata = \<lparr>edata_symbols = tab, edata_count = length tab\<rparr> \<and> mset tab = mset (map (elf_entry base) (filter elf_wanted ys))
    \<and> (\<forall>i j. i < j \<longrightarrow> j < length tab \<longrightarrow> elf_symbol_compare (tab ! i) (tab ! j) \<le> 0)"
proof -
  let ?es = "map (elf_entry base) (filter elf_wanted ys)"
  let ?tab = "backtrace_qsort elf_symbol_compare ?es 0 (length ?es)"
  have e: "edata = \<lparr>edata_symbols = ?tab, edata_count = length ?es\<rparr>"
    using assms by (auto simp: elf_initialize_syminfo_def elf_fill_spec elf_count_filter Let_def split: option.splits if_splits)
  have s: "permutes_range ?es ?tab 0 (length ?es)" "es.sorted_range ?tab 0 (length ?es)"
    using es.qsort_sorts [of 0 "length ?es" ?es] by auto
  have "length ?tab = length ?es"
    by (rule permutes_length [OF s(1)])
  then show ?thesis
    using e s by (intro exI [of _ ?tab]) (simp add: permutes_range_def es.sorted_range_def)
qed

text \<open>
  C33: looking up an address in the table that was built from a file finds what a search
  through all symbols of the file finds, provided the function and object symbols do not
  overlap, are not empty and end before the end of the address space. The binary search on
  the sorted table is thus equivalent to the linear search on the file.
\<close>

theorem elf_syminfo_finds:
  assumes init: "elf_initialize_syminfo alloc base ys strtab_size None = Inr (Inr edata)"
    and proper: "\<forall>y \<in> set ys. elf_wanted y \<longrightarrow> sym_proper (elf_entry base y)"
    and apart: "sorted_wrt sym_apart (map (elf_entry base) (filter elf_wanted ys))"
  shows "elf_syminfo [edata] addr =
    (case find (\<lambda>y. elf_wanted y \<and> sym_contains addr (elf_entry base y)) ys of
       None \<Rightarrow> (addr, None, 0, 0)
     | Some y \<Rightarrow> (addr, Some (unat (st_name y)), st_value y + base, st_size y))"
proof -
  let ?es = "map (elf_entry base) (filter elf_wanted ys)"
  obtain tab where tab: "edata = \<lparr>edata_symbols = tab, edata_count = length tab\<rparr>" "mset tab = mset ?es"
    "\<And>i j. i < j \<Longrightarrow> j < length tab \<Longrightarrow> elf_symbol_compare (tab ! i) (tab ! j) \<le> 0"
    using elf_table [OF init] by auto
  have set_tab: "set tab = set ?es"
    using tab(2) by (metis set_mset_mset)
  have p: "\<forall>e \<in> set tab. sym_proper e"
    using proper set_tab by auto
  have a: "sorted_wrt sym_apart tab"
    by (rule sorted_wrt_permute [OF tab(2) [symmetric] _ apart]) (auto simp: sym_apart_def)
  show ?thesis
  proof (cases "find (\<lambda>y. elf_wanted y \<and> sym_contains addr (elf_entry base y)) ys")
    case None
    then have "\<forall>e \<in> set tab. \<not> sym_contains addr e"
      using set_tab by (auto simp: find_None_iff)
    then show ?thesis
      using find_in_table(2) [OF p a tab(3), of addr] None by (simp add: elf_syminfo_def tab(1))
  next
    case (Some y)
    then have "elf_entry base y \<in> set tab" "sym_contains addr (elf_entry base y)"
      using set_tab by (auto simp: find_Some_iff)
    then show ?thesis
      using find_in_table(1) [OF p a tab(3)] Some by (simp add: elf_syminfo_def tab(1) elf_entry_def)
  qed
qed

definition example_elf_syms :: "b_elf_sym list" where
  "example_elf_syms =
     [\<lparr>st_name = 5, st_info = 0x12, st_other = 0, st_shndx = 1, st_value = 0x2000, st_size = 0x40\<rparr>,
      \<lparr>st_name = 9, st_info = 0x10, st_other = 0, st_shndx = 1, st_value = 0x1000, st_size = 0\<rparr>,
      \<lparr>st_name = 1, st_info = 0x11, st_other = 0, st_shndx = 2, st_value = 0x1000, st_size = 0x10\<rparr>]"

lemma example_elf_wanted: "filter elf_wanted example_elf_syms = [example_elf_syms ! 0, example_elf_syms ! 2]"
  by (simp add: example_elf_syms_def elf_wanted_def STT_FUNC_def STT_OBJECT_def SHN_UNDEF_def)

theorem elf_syminfo_finds_witness:
  "\<exists>edata. elf_initialize_syminfo (\<lambda>_. None) 0x100 example_elf_syms 20 None = Inr (Inr edata)
    \<and> elf_syminfo [edata] 0x2120 = (0x2120, Some 5, 0x2100, 0x40) \<and> elf_syminfo [edata] 0x1110 = (0x1110, None, 0, 0)"
proof -
  have "\<not> (\<exists>y \<in> set example_elf_syms. elf_wanted y \<and> 20 \<le> unat (st_name y))"
    by (simp add: example_elf_syms_def)
  then obtain edata where e: "elf_initialize_syminfo (\<lambda>_. None) 0x100 example_elf_syms 20 None = Inr (Inr edata)"
    by (simp add: elf_initialize_syminfo_def elf_fill_spec Let_def)
  have p: "\<forall>y \<in> set example_elf_syms. elf_wanted y \<longrightarrow> sym_proper (elf_entry 0x100 y)"
    by (simp add: example_elf_syms_def sym_proper_def elf_entry_def elf_wanted_def STT_FUNC_def STT_OBJECT_def)
  have a: "sorted_wrt sym_apart (map (elf_entry 0x100) (filter elf_wanted example_elf_syms))"
    by (simp add: example_elf_wanted) (simp add: example_elf_syms_def sym_apart_def elf_entry_def)
  show ?thesis
    using e elf_syminfo_finds [OF e p a, where addr = "0x2120"] elf_syminfo_finds [OF e p a, where addr = "0x1110"]
    by (simp add: example_elf_syms_def elf_wanted_def STT_FUNC_def STT_OBJECT_def SHN_UNDEF_def elf_entry_def sym_contains_def)
qed

section \<open>PE/COFF symbols\<close>

text \<open>A symbol as it lies in the file; the fields are arrays of bytes.\<close>

record b_coff_external_symbol =
  ext_name :: "u8 list"
  ext_value :: "u8 list"
  ext_section_number :: "u8 list"
  ext_type :: "u8 list"
  ext_storage_class :: u8
  ext_number_of_aux_symbols :: u8

record b_coff_section_header =
  virtual_address :: u32

text \<open>A name is a pointer into the symbol itself, into the string table, or into the buffer of copied short names.\<close>

datatype coff_name = In_Symbol "u8 list" | In_Strtab nat | In_Symstr nat

record b_coff_internal_symbol =
  isym_name :: coff_name
  isym_sec :: "16 word"
  isym_type :: u16
  isym_sc :: u16

record coff_symbol =
  csym_name :: "coff_name option"
  csym_address :: u64

record coff_syminfo_data =
  sdata_symbols :: "coff_symbol list"
  sdata_count :: nat
  sdata_symstr :: "u8 list"

definition N_TBSHFT :: nat where "N_TBSHFT = 4"
definition IMAGE_SYM_DTYPE_FUNCTION :: u16 where "IMAGE_SYM_DTYPE_FUNCTION = 2"

text \<open>Unaligned reads, on a little-endian host.\<close>

definition coff_read4 :: "u8 list \<Rightarrow> u32" where
  "coff_read4 p = of_nat (of_le_bytes (take 4 p))"

definition coff_read2 :: "u8 list \<Rightarrow> u16" where
  "coff_read2 p = of_nat (of_le_bytes (take 2 p))"

fun short_name_len_loop :: "nat \<Rightarrow> u8 list \<Rightarrow> nat" where
  "short_name_len_loop i [] = 8"
| "short_name_len_loop i (c # cs) = (if i \<ge> 8 then 8 else if c = 0 then i else short_name_len_loop (Suc i) cs)"

definition coff_short_name_len :: "u8 list \<Rightarrow> nat" where
  "coff_short_name_len name = short_name_len_loop 0 name"

definition coff_symbol_compare :: "coff_symbol \<Rightarrow> coff_symbol \<Rightarrow> int" where
  "coff_symbol_compare e1 e2 =
     (if csym_address e1 < csym_address e2 then - 1
      else if csym_address e1 > csym_address e2 then 1 else 0)"

text \<open>\<open>None\<close> is the result -1. The section number is signed.\<close>

definition coff_expand_symbol :: "b_coff_external_symbol \<Rightarrow> u16 \<Rightarrow> nat \<Rightarrow> b_coff_internal_symbol option" where
  "coff_expand_symbol y sects_num strtab_size =
     (let sec = coff_read2 (ext_section_number y);
          isym = (\<lambda>name. \<lparr>isym_name = name, isym_sec = sec, isym_type = coff_read2 (ext_type y), isym_sc = ucast (ext_storage_class y)\<rparr>)
      in if sint sec > 0 \<and> sec > sects_num then None
         else if ext_name y ! 0 \<noteq> 0 then Some (isym (In_Symbol (ext_name y)))
         else
           let off = unat (coff_read4 (drop 4 (ext_name y)))
           in if off \<ge> strtab_size then None else Some (isym (In_Strtab off)))"

definition coff_is_function_symbol :: "b_coff_internal_symbol \<Rightarrow> bool" where
  "coff_is_function_symbol isym \<longleftrightarrow> drop_bit N_TBSHFT (isym_type isym) = IMAGE_SYM_DTYPE_FUNCTION \<and> sint (isym_sec isym) > 0"

text \<open>The first loop: how many function symbols there are and how many bytes their short names take; \<open>None\<close> is an invalid symbol.\<close>

fun coff_count_symbols :: "u16 \<Rightarrow> nat \<Rightarrow> b_coff_external_symbol list \<Rightarrow> nat \<times> nat \<Rightarrow> (nat \<times> nat) option" where
  "coff_count_symbols sects_num strtab_size [] (n, len) = Some (n, len)"
| "coff_count_symbols sects_num strtab_size (ext # ys) (n, len) =
     (case coff_expand_symbol ext sects_num strtab_size of
        None \<Rightarrow> None
      | Some isym \<Rightarrow>
          let (n, len) =
            (if coff_is_function_symbol isym
             then (n + 1, if ext_name ext ! 0 \<noteq> 0 then len + (coff_short_name_len (ext_name ext) + 1) else len)
             else (n, len))
          in coff_count_symbols sects_num strtab_size (drop (unat (ext_number_of_aux_symbols ext)) ys) (n, len))"

text \<open>The name of a function symbol: a short name is copied to the end of the buffer, whose size is \<open>len\<close>.\<close>

definition coff_copy_name :: "nat \<Rightarrow> coff_name \<Rightarrow> u8 list \<Rightarrow> (coff_name \<times> u8 list) res" where
  "coff_copy_name symstr_len name symstr =
     (case name of
        In_Symbol bytes \<Rightarrow>
          let len = coff_short_name_len bytes
          in if length symstr + len + 1 \<le> symstr_len then Inr (In_Symstr (length symstr), symstr @ take len bytes @ [0])
             else Inl OutOfBounds
      | _ \<Rightarrow> Inr (name, symstr))"

text \<open>On 32-bit targets a leading underscore (character 95) is stripped.\<close>

definition coff_strip_name :: "bool \<Rightarrow> u8 list \<Rightarrow> u8 list \<Rightarrow> coff_name \<Rightarrow> coff_name" where
  "coff_strip_name is_64 strtab symstr name =
     (if is_64 then name
      else
        case name of
          In_Strtab off \<Rightarrow> if strtab ! off = 95 then In_Strtab (Suc off) else name
        | In_Symstr p \<Rightarrow> if symstr ! p = 95 then In_Symstr (Suc p) else name
        | In_Symbol bytes \<Rightarrow> name)"

definition coff_address :: "u64 \<Rightarrow> b_coff_section_header list \<Rightarrow> b_coff_external_symbol \<Rightarrow> u64 res" where
  "coff_address base_address sects ext =
     (let secnum = sint (coff_read2 (ext_section_number ext))
      in if 1 \<le> secnum \<and> nat secnum \<le> length sects
         then Inr (ucast (coff_read4 (ext_value ext) + virtual_address (sects ! (nat secnum - 1))) + base_address)
         else Inl OutOfBounds)"

text \<open>The second loop, which fills the array of \<open>n\<close> symbols and the buffer of \<open>len\<close> bytes.\<close>

fun coff_copy_symbols :: "u64 \<Rightarrow> bool \<Rightarrow> b_coff_section_header list \<Rightarrow> u16 \<Rightarrow> u8 list \<Rightarrow> nat \<Rightarrow> nat \<Rightarrow> b_coff_external_symbol list \<Rightarrow>
    coff_symbol list \<Rightarrow> u8 list \<Rightarrow> (coff_symbol list \<times> u8 list) res" where
  "coff_copy_symbols base is_64 sects sects_num strtab n len [] acc symstr = Inr (acc, symstr)"
| "coff_copy_symbols base is_64 sects sects_num strtab n len (ext # ys) acc symstr =
     (case coff_expand_symbol ext sects_num (length strtab) of
        None \<Rightarrow> Inl (Assertion ''abort'')
      | Some isym \<Rightarrow>
          bind_res
            (if coff_is_function_symbol isym then
               bind_res (coff_copy_name len (isym_name isym) symstr) (\<lambda>(name, symstr).
               bind_res (coff_address base sects ext) (\<lambda>a.
               if length acc \<ge> n then Inl OutOfBounds
               else Inr (acc @ [\<lparr>csym_name = Some (coff_strip_name is_64 strtab symstr name), csym_address = a\<rparr>], symstr)))
             else Inr (acc, symstr))
            (\<lambda>(acc, symstr).
             coff_copy_symbols base is_64 sects sects_num strtab n len (drop (unat (ext_number_of_aux_symbols ext)) ys) acc symstr))"

definition coff_initialize_syminfo :: "(nat \<Rightarrow> bt_error option) \<Rightarrow> u64 \<Rightarrow> bool \<Rightarrow> b_coff_section_header list \<Rightarrow>
    b_coff_external_symbol list \<Rightarrow> u8 list \<Rightarrow> (bt_error + coff_syminfo_data) res" where
  "coff_initialize_syminfo alloc base_address is_64 sects ys strtab =
     (case coff_count_symbols (of_nat (length sects)) (length strtab) ys (0, 0) of
        None \<Rightarrow> Inr (Inl (''invalid section or offset in coff symbol'', 0))
      | Some (n, len) \<Rightarrow>
          (case alloc ((n + 1) * 16) of
             Some e \<Rightarrow> Inr (Inl e)
           | None \<Rightarrow>
               (case (if len > 0 then alloc len else None) of
                  Some e \<Rightarrow> Inr (Inl e)
                | None \<Rightarrow>
                    bind_res (coff_copy_symbols base_address is_64 sects (of_nat (length sects)) strtab n len ys [] []) (\<lambda>(coff_symbols, symstr).
                    let coff_symbols = coff_symbols @ [\<lparr>csym_name = None, csym_address = - 1\<rparr>]
                    in Inr (Inr \<lparr>sdata_symbols = backtrace_qsort coff_symbol_compare coff_symbols 0 n, sdata_count = n,
                          sdata_symstr = symstr\<rparr>)))))"

definition coff_add_syminfo_data :: "coff_syminfo_data list \<Rightarrow> coff_syminfo_data \<Rightarrow> coff_syminfo_data list" where
  "coff_add_syminfo_data syminfo_data sdata = elf_add_syminfo_data syminfo_data sdata"

definition coff_symbol_search :: "u64 \<Rightarrow> coff_symbol list \<Rightarrow> nat \<Rightarrow> int" where
  "coff_symbol_search addr entries i =
     (if addr < csym_address (entries ! i) then - 1
      else if addr \<ge> csym_address (entries ! (i + 1)) then 1 else 0)"

fun coff_find_symbol :: "coff_syminfo_data list \<Rightarrow> u64 \<Rightarrow> coff_symbol option" where
  "coff_find_symbol [] addr = None"
| "coff_find_symbol (sdata # next) addr =
     (case bsearch (coff_symbol_search addr (sdata_symbols sdata)) (sdata_count sdata) of
        Some i \<Rightarrow> Some (sdata_symbols sdata ! i)
      | None \<Rightarrow> coff_find_symbol next addr)"

definition coff_syminfo :: "coff_syminfo_data list \<Rightarrow> u64 \<Rightarrow> coff_name syminfo_call" where
  "coff_syminfo syminfo_data addr =
     (case coff_find_symbol syminfo_data addr of
        None \<Rightarrow> (addr, None, 0, 0)
      | Some y \<Rightarrow> (addr, csym_name y, csym_address y, 0))"

section \<open>The PE/COFF table\<close>

interpretation cs: comparator coff_symbol_compare
  by unfold_locales (auto simp: coff_symbol_compare_def split: if_splits)

text \<open>The function symbols of a file, without the auxiliary entries that follow a symbol, and the address of one.\<close>

definition coff_function :: "b_coff_external_symbol \<Rightarrow> bool" where
  "coff_function ext \<longleftrightarrow> drop_bit N_TBSHFT (coff_read2 (ext_type ext)) = IMAGE_SYM_DTYPE_FUNCTION
     \<and> sint (coff_read2 (ext_section_number ext)) > 0"

fun coff_functions :: "b_coff_external_symbol list \<Rightarrow> b_coff_external_symbol list" where
  "coff_functions [] = []"
| "coff_functions (ext # ys) =
     (if coff_function ext then [ext] else []) @ coff_functions (drop (unat (ext_number_of_aux_symbols ext)) ys)"

definition coff_function_address :: "u64 \<Rightarrow> b_coff_section_header list \<Rightarrow> b_coff_external_symbol \<Rightarrow> u64" where
  "coff_function_address base sects ext =
     ucast (coff_read4 (ext_value ext) + virtual_address (sects ! (unat (coff_read2 (ext_section_number ext)) - 1))) + base"

lemma expand_function: "coff_expand_symbol ext sn k = Some isym \<Longrightarrow> coff_is_function_symbol isym \<longleftrightarrow> coff_function ext"
  by (auto simp: coff_expand_symbol_def coff_is_function_symbol_def coff_function_def Let_def split: if_splits)

lemma expand_name:
  "coff_expand_symbol ext sn k = Some isym \<Longrightarrow> isym_name isym =
     (if ext_name ext ! 0 \<noteq> 0 then In_Symbol (ext_name ext) else In_Strtab (unat (coff_read4 (drop 4 (ext_name ext)))))"
  by (auto simp: coff_expand_symbol_def Let_def split: if_splits)

lemma sint_positive:
  assumes "sint (w :: u16) > 0"
  shows "sint w = uint w"
proof -
  have e: "sint w = (uint w + 2 ^ 15) mod 2 ^ 16 - 2 ^ 15"
    by (simp add: sint_uint signed_take_bit_eq_take_bit_shift take_bit_eq_mod)
  have "uint w < 2 ^ 15"
  proof (rule ccontr)
    assume "\<not> uint w < 2 ^ 15"
    then have "(uint w + 2 ^ 15) mod 2 ^ 16 = uint w - 2 ^ 15"
      using uint_lt2p [of w] by (subst mod_pos_geq) auto
    then show False
      using assms e uint_lt2p [of w] by simp
  qed
  then show ?thesis
    using e by simp
qed

lemma expand_section:
  assumes "coff_expand_symbol ext (of_nat (length sects)) k = Some isym" and "coff_function ext" and "length sects < 2 ^ 16"
  shows "coff_address base sects ext = Inr (coff_function_address base sects ext)"
proof -
  let ?sec = "coff_read2 (ext_section_number ext)"
  have p: "sint ?sec > 0"
    using assms(2) by (simp add: coff_function_def)
  have "\<not> ?sec > of_nat (length sects)"
    using assms(1) p by (auto simp: coff_expand_symbol_def Let_def split: if_splits)
  then have "unat ?sec \<le> length sects"
    using assms(3) by (simp add: word_less_nat_alt unat_of_nat not_less)
  then show ?thesis
    using p sint_positive [OF p] by (simp add: coff_address_def coff_function_address_def Let_def)
qed

lemma short_name_bound: "i + length cs = 8 \<Longrightarrow> i \<le> short_name_len_loop i cs \<and> short_name_len_loop i cs \<le> 8"
  by (induction i cs rule: short_name_len_loop.induct) auto

lemma coff_short_name_len_le: "length name = 8 \<Longrightarrow> coff_short_name_len name \<le> 8"
  using short_name_bound [of 0 name] by (simp add: coff_short_name_len_def)

lemma count_grows: "coff_count_symbols sn k ys (n0, l0) = Some (n, len) \<Longrightarrow> n0 \<le> n \<and> l0 \<le> len"
proof (induction sn k ys "(n0, l0)" arbitrary: n0 l0 rule: coff_count_symbols.induct)
  case (2 sn k ext ys n0 l0)
  then show ?case
    by (fastforce simp: Let_def split: option.splits if_splits)
qed simp

text \<open>The second loop stays within what the first one counted, and never reaches the \<^verbatim>\<open>abort()\<close>.\<close>

lemma coff_copy_ok:
  assumes "coff_count_symbols sn (length strtab) ys (length acc, length symstr) = Some (n, len)"
    and "sn = of_nat (length sects)" and "length sects < 2 ^ 16" and "\<forall>y \<in> set ys. length (ext_name y) = 8"
  shows "\<exists>acc' symstr'. coff_copy_symbols base is_64 sects sn strtab n len ys acc symstr = Inr (acc', symstr')
    \<and> length acc' = n \<and> length symstr' = len
    \<and> map csym_address acc' = map csym_address acc @ map (coff_function_address base sects) (coff_functions ys)"
  using assms
proof (induction ys arbitrary: acc symstr rule: coff_functions.induct)
  case (2 ext ys)
  obtain isym where isym: "coff_expand_symbol ext sn (length strtab) = Some isym"
    using 2(2) by (auto split: option.splits)
  let ?rest = "drop (unat (ext_number_of_aux_symbols ext)) ys"
  have names: "\<forall>y \<in> set ?rest. length (ext_name y) = 8" "length (ext_name ext) = 8"
    using 2(5) by (auto dest: in_set_dropD)
  show ?case
  proof (cases "coff_function ext")
    case False
    then have "coff_count_symbols sn (length strtab) ?rest (length acc, length symstr) = Some (n, len)"
      using 2(2) isym by (simp add: expand_function)
    from 2(1) [OF this 2(3,4) names(1)] show ?thesis
      using False isym by (simp add: expand_function)
  next
    case True
    define step where "step = (if ext_name ext ! 0 \<noteq> 0 then coff_short_name_len (ext_name ext) + 1 else 0)"
    have cnt: "coff_count_symbols sn (length strtab) ?rest (length acc + 1, length symstr + step) = Some (n, len)"
      using 2(2) isym True by (simp add: expand_function step_def split: if_splits)
    note grow = count_grows [OF cnt]
    have sec: "coff_address base sects ext = Inr (coff_function_address base sects ext)"
      using expand_section [OF _ True 2(4)] isym 2(3) by simp
    obtain name symstr1 where copy: "coff_copy_name len (isym_name isym) symstr = Inr (name, symstr1)" "length symstr1 = length symstr + step"
      using grow coff_short_name_len_le [OF names(2)] names(2)
      by (cases "ext_name ext ! 0 = 0") (simp_all add: coff_copy_name_def expand_name [OF isym] step_def Let_def)
    let ?e = "\<lparr>csym_name = Some (coff_strip_name is_64 strtab symstr1 name), csym_address = coff_function_address base sects ext\<rparr>"
    have "coff_count_symbols sn (length strtab) ?rest (length (acc @ [?e]), length symstr1) = Some (n, len)"
      using cnt copy(2) by simp
    from 2(1) [OF this 2(3,4) names(1)] show ?thesis
      using isym True copy sec grow by (simp add: expand_function)
  qed
qed simp

lemma coff_search_ordered:
  assumes "\<And>i j. i < j \<Longrightarrow> j \<le> n \<Longrightarrow> csym_address (tab ! i) \<le> csym_address (tab ! j)"
  shows "ordered_search (coff_symbol_search addr tab) n"
proof
  fix i j
  assume ij: "i < j" "j < n"
  have le: "csym_address (tab ! i) \<le> csym_address (tab ! j)" "csym_address (tab ! (i + 1)) \<le> csym_address (tab ! j)"
    using assms [of i j] assms [of "i + 1" j] ij by (simp, cases "i + 1 = j", simp, simp)
  show "coff_symbol_search addr tab j < 0" if "coff_symbol_search addr tab i < 0"
    using that le(1) by (auto simp: coff_symbol_search_def split: if_splits)
  show "coff_symbol_search addr tab i > 0" if "coff_symbol_search addr tab j > 0"
    using that le by (auto simp: coff_symbol_search_def split: if_splits)
qed

text \<open>So a table sorted by address, with its last entry as the guard, can be searched.\<close>

interpretation cse: ordered_search "coff_symbol_search addr (sort_key csym_address syms)" "length syms - 1" for addr syms
proof (rule coff_search_ordered)
  fix i j
  assume "i < j" "j \<le> length syms - 1"
  then show "csym_address (sort_key csym_address syms ! i) \<le> csym_address (sort_key csym_address syms ! j)"
    using sorted_nth_mono [OF sorted_sort_key [of csym_address syms], of i j] by simp
qed

text \<open>The search finds the last entry that is not above the address, if there is one.\<close>

lemma coff_search_nearest:
  assumes sorted: "\<And>i j. i < j \<Longrightarrow> j \<le> n \<Longrightarrow> csym_address (tab ! i) \<le> csym_address (tab ! j)"
    and marker: "addr < csym_address (tab ! n)" and k: "k < n" "csym_address (tab ! k) \<le> addr"
  shows "\<exists>i < n. bsearch (coff_symbol_search addr tab) n = Some i \<and> csym_address (tab ! i) \<le> addr
    \<and> (\<forall>j < n. csym_address (tab ! j) \<le> addr \<longrightarrow> csym_address (tab ! j) \<le> csym_address (tab ! i))"
proof -
  define m where "m = (GREATEST i. i < n \<and> csym_address (tab ! i) \<le> addr)"
  have m: "m < n" "csym_address (tab ! m) \<le> addr"
    using GreatestI_nat [of "\<lambda>i. i < n \<and> csym_address (tab ! i) \<le> addr" k n] k by (auto simp: m_def)
  have "\<not> csym_address (tab ! (m + 1)) \<le> addr"
  proof (cases "m + 1 < n")
    case True
    then show ?thesis
      using Greatest_le_nat [of "\<lambda>i. i < n \<and> csym_address (tab ! i) \<le> addr" "m + 1" n] by (auto simp: m_def)
  next
    case False
    then have "m + 1 = n"
      using m by simp
    then show ?thesis
      using marker by (simp add: not_le)
  qed
  then have "coff_symbol_search addr tab m = 0"
    using m by (simp add: coff_symbol_search_def)
  from ordered_search.complete [OF coff_search_ordered [OF sorted] m(1) this]
  obtain i where i: "bsearch (coff_symbol_search addr tab) n = Some i" "i < n" "coff_symbol_search addr tab i = 0"
    by auto
  have a: "csym_address (tab ! i) \<le> addr" "addr < csym_address (tab ! (i + 1))"
    using i(3) by (auto simp: coff_symbol_search_def split: if_splits)
  have "csym_address (tab ! j) \<le> csym_address (tab ! i)" if j: "j < n" "csym_address (tab ! j) \<le> addr" for j
  proof -
    have "\<not> i + 1 \<le> j"
    proof
      assume "i + 1 \<le> j"
      then have "csym_address (tab ! (i + 1)) \<le> csym_address (tab ! j)"
        using sorted [of "i + 1" j] j(1) by (cases "i + 1 = j") simp_all
      then show False
        using j(2) a(2) by simp
    qed
    then show ?thesis
      using sorted [of j i] i(2) by (cases "i = j") simp_all
  qed
  then show ?thesis
    using i a by blast
qed

lemma coff_search_none:
  assumes "\<And>i. i < n \<Longrightarrow> addr < csym_address (tab ! i)"
  shows "bsearch (coff_symbol_search addr tab) n = None"
  using bsearch_found [of "coff_symbol_search addr tab" n] assms
  by (cases "bsearch (coff_symbol_search addr tab) n") (auto simp: coff_symbol_search_def)

text \<open>What a file in memory looks like to C: names are eight bytes, and sections are counted in 16 bits.\<close>

definition coff_file :: "b_coff_section_header list \<Rightarrow> b_coff_external_symbol list \<Rightarrow> bool" where
  "coff_file sects ys \<longleftrightarrow> length sects < 2 ^ 16 \<and> (\<forall>y \<in> set ys. length (ext_name y) = 8)"

lemma coff_initialize_cases:
  assumes "coff_file sects ys"
  shows "(\<exists>e. coff_initialize_syminfo alloc base is_64 sects ys strtab = Inr (Inl e))
    \<or> (\<exists>sdata. coff_initialize_syminfo alloc base is_64 sects ys strtab = Inr (Inr sdata)
        \<and> length (sdata_symbols sdata) = sdata_count sdata + 1 \<and> csym_address (sdata_symbols sdata ! sdata_count sdata) = - 1
        \<and> mset (map csym_address (take (sdata_count sdata) (sdata_symbols sdata))) = mset (map (coff_function_address base sects) (coff_functions ys))
        \<and> (\<forall>i j. i < j \<longrightarrow> j \<le> sdata_count sdata \<longrightarrow> csym_address (sdata_symbols sdata ! i) \<le> csym_address (sdata_symbols sdata ! j)))"
proof (cases "\<exists>e. coff_initialize_syminfo alloc base is_64 sects ys strtab = Inr (Inl e)")
  case False
  let ?sn = "of_nat (length sects) :: u16"
  obtain n len where cnt: "coff_count_symbols ?sn (length strtab) ys (0, 0) = Some (n, len)"
    using False by (auto simp: coff_initialize_syminfo_def split: option.splits)
  obtain acc symstr where copy: "coff_copy_symbols base is_64 sects ?sn strtab n len ys [] [] = Inr (acc, symstr)"
    "length acc = n" "map csym_address acc = map (coff_function_address base sects) (coff_functions ys)"
    using coff_copy_ok [of ?sn strtab ys "[]" "[]" n len sects base is_64] cnt assms by (auto simp: coff_file_def)
  define all where "all = acc @ [\<lparr>csym_name = None, csym_address = - 1\<rparr>]"
  define tab where "tab = backtrace_qsort coff_symbol_compare all 0 n"
  have init: "coff_initialize_syminfo alloc base is_64 sects ys strtab = Inr (Inr \<lparr>sdata_symbols = tab, sdata_count = n, sdata_symstr = symstr\<rparr>)"
    using False cnt copy(1) by (auto simp: coff_initialize_syminfo_def tab_def all_def Let_def split: option.splits if_splits)
  have s: "permutes_range all tab 0 n" "cs.sorted_range tab 0 n"
    using cs.qsort_sorts [of 0 n all] copy(2) by (auto simp: tab_def all_def)
  have len: "length tab = n + 1"
    using permutes_length [OF s(1)] copy(2) by (simp add: all_def)
  have marker: "csym_address (tab ! n) = - 1"
    using permutes_outside [OF s(1), of n] copy(2) by (simp add: all_def nth_append)
  have "mset (take n tab) = mset acc"
    using permutes_slice(3) [OF s(1)] copy(2) by (simp add: all_def)
  then have "mset (map csym_address (take n tab)) = mset (map csym_address acc)"
    by simp
  moreover have "csym_address (tab ! i) \<le> csym_address (tab ! j)" if "i < j" "j \<le> n" for i j
  proof (cases "j = n")
    case True
    then show ?thesis
      using marker by simp
  next
    case False
    then have "coff_symbol_compare (tab ! i) (tab ! j) \<le> 0"
      using that s(2) by (simp add: cs.sorted_range_def)
    then show ?thesis
      by (auto simp: coff_symbol_compare_def split: if_splits)
  qed
  ultimately show ?thesis
    using init len marker copy(3) by auto
qed simp


definition example_coff_syms :: "b_coff_external_symbol list" where
  "example_coff_syms =
     [\<lparr>ext_name = [102, 0, 0, 0, 0, 0, 0, 0], ext_value = [0, 2, 0, 0], ext_section_number = [1, 0], ext_type = [0x20, 0],
       ext_storage_class = 2, ext_number_of_aux_symbols = 1\<rparr>,
      \<lparr>ext_name = [0, 0, 0, 0, 0, 0, 0, 0], ext_value = [0, 0, 0, 0], ext_section_number = [9, 0], ext_type = [0, 0],
       ext_storage_class = 0, ext_number_of_aux_symbols = 0\<rparr>,
      \<lparr>ext_name = [0, 0, 0, 0, 4, 0, 0, 0], ext_value = [0, 1, 0, 0], ext_section_number = [1, 0], ext_type = [0x20, 0],
       ext_storage_class = 2, ext_number_of_aux_symbols = 0\<rparr>]"


section \<open>Adding modules from several threads\<close>

text \<open>
  With \<^verbatim>\<open>state->threaded\<close>, \<^verbatim>\<open>elf_add_syminfo_data\<close> and \<^verbatim>\<open>coff_add_syminfo_data\<close> walk to the end of
  the list with atomic loads and link the new module in with a compare-and-swap, and start again
  from the head when that fails. Each call is known by the module that it adds, and its loads and
  compare-and-swaps interleave with those of the other calls in any order.
\<close>

record syminfo_list =
  si_head :: "nat option"
  si_next :: "nat \<Rightarrow> nat option"

text \<open>What \<open>pp\<close> points to: the head of the list or the next pointer of a module.\<close>

datatype syminfo_link = Head | Next nat

fun load_link :: "syminfo_list \<Rightarrow> syminfo_link \<Rightarrow> nat option" where
  "load_link l Head = si_head l"
| "load_link l (Next p) = si_next l p"

fun store_link :: "syminfo_list \<Rightarrow> syminfo_link \<Rightarrow> nat \<Rightarrow> syminfo_list" where
  "store_link l Head e = l\<lparr>si_head := Some e\<rparr>"
| "store_link l (Next p) e = l\<lparr>si_next := (si_next l)(p := Some e)\<rparr>"

datatype add_call = Not_Called | Walking syminfo_link | At_End syminfo_link | Returned

inductive add_step :: "syminfo_list \<times> (nat \<Rightarrow> add_call) \<Rightarrow> syminfo_list \<times> (nat \<Rightarrow> add_call) \<Rightarrow> bool" where
  add_begin: "c e = Not_Called \<Longrightarrow> add_step (l, c) (l, c(e := Walking Head))"
| add_walk: "c e = Walking pp \<Longrightarrow> load_link l pp = Some p \<Longrightarrow> add_step (l, c) (l, c(e := Walking (Next p)))"
| add_null: "c e = Walking pp \<Longrightarrow> load_link l pp = None \<Longrightarrow> add_step (l, c) (l, c(e := At_End pp))"
| add_swap: "c e = At_End pp \<Longrightarrow> load_link l pp = None \<Longrightarrow> add_step (l, c) (store_link l pp e, c(e := Returned))"
| add_retry: "c e = At_End pp \<Longrightarrow> load_link l pp \<noteq> None \<Longrightarrow> add_step (l, c) (l, c(e := Walking Head))"

inductive_cases add_stepE: "add_step s s'"

fun chain :: "syminfo_list \<Rightarrow> syminfo_link \<Rightarrow> nat list \<Rightarrow> bool" where
  "chain l pp [] \<longleftrightarrow> load_link l pp = None"
| "chain l pp (x # xs) \<longleftrightarrow> load_link l pp = Some x \<and> chain l (Next x) xs"

text \<open>The list holds the modules whose calls have returned, each once, and every call that is under way looks at a link of it.\<close>

definition add_inv :: "nat list \<Rightarrow> syminfo_list \<times> (nat \<Rightarrow> add_call) \<Rightarrow> bool" where
  "add_inv xs s \<longleftrightarrow> chain (fst s) Head xs \<and> distinct xs
     \<and> (\<forall>e. snd s e = Returned \<longleftrightarrow> e \<in> set xs) \<and> (\<forall>e. e \<notin> set xs \<longrightarrow> si_next (fst s) e = None)
     \<and> (\<forall>e x. snd s e = Walking (Next x) \<or> snd s e = At_End (Next x) \<longrightarrow> x \<in> set xs)"

lemma load_store [simp]: "load_link (store_link l q e) pp = (if pp = q then Some e else load_link l pp)"
  by (cases pp; cases q) auto

lemma chain_append:
  "chain l pp xs \<Longrightarrow> load_link l q = None \<Longrightarrow> q = pp \<or> q \<in> Next ` set xs \<Longrightarrow> load_link l (Next e) = None \<Longrightarrow> e \<notin> set xs \<Longrightarrow>
    q \<noteq> Next e \<Longrightarrow> chain (store_link l q e) pp (xs @ [e])"
  by (induction xs arbitrary: pp) (auto simp del: load_link.simps store_link.simps)

lemma add_inv_idle: "add_inv xs (l, c) \<Longrightarrow> c e \<noteq> Returned \<Longrightarrow> e \<notin> set xs"
  by (simp add: add_inv_def)

lemma add_inv_link: "add_inv xs (l, c) \<Longrightarrow> c e = Walking (Next x) \<Longrightarrow> x \<in> set xs"
  by (simp add: add_inv_def)

lemma add_inv_call:
  assumes "add_inv xs (l, c)" and "c e \<noteq> Returned" and "st \<noteq> Returned"
    and "\<And>x. st = Walking (Next x) \<or> st = At_End (Next x) \<Longrightarrow> x \<in> set xs"
  shows "add_inv xs (l, c(e := st))"
  using assms(1,3,4) add_inv_idle [OF assms(1,2)] by (auto simp: add_inv_def)

lemma add_step_inv:
  assumes "add_step s s'" and inv: "add_inv xs s"
  shows "\<exists>ys. add_inv (xs @ ys) s'"
  using assms(1)
proof (cases rule: add_step.cases)
  case (add_swap c e pp l)
  have e: "e \<notin> set xs" "si_next l e = None"
    using inv add_swap add_inv_idle [of xs l c e] by (auto simp: add_inv_def)
  have pp: "pp = Head \<or> pp \<in> Next ` set xs"
    using inv add_swap by (cases pp) (auto simp: add_inv_def)
  have ne: "pp \<noteq> Next e"
    using pp e by auto
  have "chain (store_link l pp e) Head (xs @ [e])"
    using chain_append [of l Head xs pp e] inv add_swap pp e ne by (auto simp: add_inv_def)
  moreover have "si_next (store_link l pp e) x = None" if "x \<notin> set (xs @ [e])" for x
    using load_store [of l pp e "Next x"] that pp inv add_swap(1) by (auto simp: add_inv_def)
  ultimately have "add_inv (xs @ [e]) s'"
    using inv e add_swap by (auto simp: add_inv_def)
  then show ?thesis ..
next
  case (add_walk c e pp l p)
  have "p \<in> set xs"
  proof -
    have reach: "chain l q zs \<Longrightarrow> pp = q \<or> pp \<in> Next ` set zs \<Longrightarrow> p \<in> set zs" for q zs
      using add_walk(4) by (induction zs arbitrary: q) auto
    have "pp = Head \<or> pp \<in> Next ` set xs"
      using inv add_walk by (cases pp) (auto simp: add_inv_def)
    then show ?thesis
      using reach [of Head xs] inv add_walk(1) by (auto simp: add_inv_def)
  qed
  then show ?thesis
    using inv add_walk by (intro exI [of _ "[]"]) (auto intro: add_inv_call)
next
  case (add_begin c e l)
  then show ?thesis
    using inv by (intro exI [of _ "[]"]) (auto intro!: add_inv_call dest: add_inv_link)
next
  case (add_null c e pp l)
  then show ?thesis
    using inv by (intro exI [of _ "[]"]) (auto intro!: add_inv_call dest: add_inv_link)
next
  case (add_retry c e pp l)
  then show ?thesis
    using inv by (intro exI [of _ "[]"]) (auto intro!: add_inv_call dest: add_inv_link)
qed

text \<open>
  C35: when several threads add modules at the same time, no module is lost and none is added
  twice. However the loads and compare-and-swaps interleave, the list holds exactly the
  modules whose calls have returned, and what was in the list before stays where it was.
\<close>

theorem add_syminfo_threads:
  assumes "add_step\<^sup>*\<^sup>* (l, c) (l', c')" and "chain l Head xs" and "distinct xs"
    and "\<And>e. c e = (if e \<in> set xs then Returned else Not_Called)" and "\<And>e. e \<notin> set xs \<Longrightarrow> si_next l e = None"
  shows "\<exists>ys. chain l' Head (xs @ ys) \<and> distinct (xs @ ys) \<and> (\<forall>e. c' e = Returned \<longleftrightarrow> e \<in> set (xs @ ys))"
proof -
  have "add_inv xs (l, c)"
    using assms(2-5) by (auto simp: add_inv_def)
  with assms(1) have "\<exists>ys. add_inv (xs @ ys) (l', c')"
  proof (induction rule: rtranclp_induct)
    case base
    then show ?case
      by (intro exI [of _ "[]"]) simp
  next
    case (step s s')
    then show ?case
      using add_step_inv by (metis append_assoc)
  qed
  then show ?thesis
    by (auto simp: add_inv_def)
qed

text \<open>Two calls race for the end of an empty list: the one that loses starts again and comes second.\<close>

definition race_start :: "syminfo_list \<times> (nat \<Rightarrow> add_call)" where
  "race_start = (\<lparr>si_head = None, si_next = (\<lambda>_. None)\<rparr>, \<lambda>_. Not_Called)"

lemma race_run:
  "add_step\<^sup>*\<^sup>* race_start (\<lparr>si_head = Some 2, si_next = (\<lambda>_. None)\<rparr>, (\<lambda>_. Not_Called)(1 := Walking Head, 2 := Returned))"
proof -
  let ?l = "\<lparr>si_head = None, si_next = (\<lambda>_. None)\<rparr>"
  have "add_step race_start (?l, (\<lambda>_. Not_Called)(1 := Walking Head))"
    unfolding race_start_def by (rule add_begin) simp
  moreover have "add_step (?l, (\<lambda>_. Not_Called)(1 := Walking Head)) (?l, (\<lambda>_. Not_Called)(1 := Walking Head, 2 := Walking Head))"
    by (rule add_begin) simp
  moreover have "add_step (?l, (\<lambda>_. Not_Called)(1 := Walking Head, 2 := Walking Head)) (?l, (\<lambda>_. Not_Called)(1 := Walking Head, 2 := At_End Head))"
    using add_null [of "(\<lambda>_. Not_Called)(1 := Walking Head, 2 := Walking Head)" 2 Head ?l] by simp
  moreover have "add_step (?l, (\<lambda>_. Not_Called)(1 := Walking Head, 2 := At_End Head))
      (\<lparr>si_head = Some 2, si_next = (\<lambda>_. None)\<rparr>, (\<lambda>_. Not_Called)(1 := Walking Head, 2 := Returned))"
    using add_swap [of "(\<lambda>_. Not_Called)(1 := Walking Head, 2 := At_End Head)" 2 Head ?l] by simp
  ultimately show ?thesis
    by (meson converse_rtranclp_into_rtranclp rtranclp.rtrancl_refl)
qed

theorem add_syminfo_threads_witness:
  "\<exists>ys. chain \<lparr>si_head = Some 2, si_next = (\<lambda>_. None)\<rparr> Head ys \<and> distinct ys
     \<and> (\<forall>e. ((\<lambda>_. Not_Called)(1 := Walking Head, 2 := Returned)) e = Returned \<longleftrightarrow> e \<in> set ys)"
  using add_syminfo_threads [OF race_run [unfolded race_start_def], of "[]"] by simp

end
