(* ===== verification/Zlib_Table.thy ===== *)
theory Zlib_Table
  imports Prelude
begin

text \<open>
  The Huffman tables of the zlib decompressor, \<^verbatim>\<open>elf_zlib_inflate_table\<close> of
  \<^verbatim>\<open>src/dwarf/elf.c\<close>. A table has 256 entries that are looked up with the next eight bits of
  the input, and behind them secondary tables for longer codes. The main result is that a
  table that is built without error decodes the canonical Huffman code of RFC 1951: the bits
  of the code of a symbol, in the order in which they are read, give that symbol and the
  length of its code.
\<close>

section \<open>Errors and array accesses\<close>

text \<open>The code fails with a return value of 0; every access outside of an array is a different outcome.\<close>

datatype zfail = Failed | Stop stop

type_synonym 'a zres = "zfail + 'a"

definition z_at :: "'a list \<Rightarrow> nat \<Rightarrow> 'a zres" where
  "z_at xs i = (if i < length xs then Inr (xs ! i) else Inl (Stop OutOfBounds))"

definition z_set :: "'a list \<Rightarrow> nat \<Rightarrow> 'a \<Rightarrow> 'a list zres" where
  "z_set xs i x = (if i < length xs then Inr (xs[i := x]) else Inl (Stop OutOfBounds))"

section \<open>Constants\<close>

definition ZLIB_HUFFMAN_TABLE_SIZE :: nat where "ZLIB_HUFFMAN_TABLE_SIZE = 1024"
definition ZLIB_HUFFMAN_VALUE_MASK :: nat where "ZLIB_HUFFMAN_VALUE_MASK = 0x01ff"
definition ZLIB_HUFFMAN_BITS_SHIFT :: nat where "ZLIB_HUFFMAN_BITS_SHIFT = 9"
definition ZLIB_HUFFMAN_BITS_MASK :: nat where "ZLIB_HUFFMAN_BITS_MASK = 0x7"
definition ZLIB_HUFFMAN_SECONDARY_SHIFT :: nat where "ZLIB_HUFFMAN_SECONDARY_SHIFT = 12"

text \<open>The parts of a table entry.\<close>

definition entry_value :: "nat \<Rightarrow> nat" where
  "entry_value t = t AND ZLIB_HUFFMAN_VALUE_MASK"

definition entry_bits :: "nat \<Rightarrow> nat" where
  "entry_bits t = drop_bit ZLIB_HUFFMAN_BITS_SHIFT t AND ZLIB_HUFFMAN_BITS_MASK"

definition entry_secondary :: "nat \<Rightarrow> bool" where
  "entry_secondary t \<longleftrightarrow> t AND push_bit ZLIB_HUFFMAN_SECONDARY_SHIFT 1 \<noteq> 0"

section \<open>Building a table\<close>

text \<open>
  The working arrays: how many codes there are of each length, the first and the last value
  seen with a length, and for each value the next one of the same length. The first two are
  not initialised by the code, and \<^verbatim>\<open>next\<close> holds what an earlier call left there.
\<close>

record zlib_work =
  zcount :: "nat list"
  zstart :: "nat list"
  zprev :: "nat list"
  znext :: "nat list"

definition zlib_count_code :: "nat \<Rightarrow> nat \<Rightarrow> zlib_work \<Rightarrow> zlib_work zres" where
  "zlib_count_code i c w =
     (if c \<ge> 16 then Inl Failed
      else
        bind_res
          (if zcount w ! c = 0 then Inr (w\<lparr>zstart := (zstart w)[c := i], zprev := (zprev w)[c := i]\<rparr>)
           else bind_res (z_set (znext w) (zprev w ! c) i) (\<lambda>nx. Inr (w\<lparr>znext := nx, zprev := (zprev w)[c := i]\<rparr>)))
          (\<lambda>w. Inr (w\<lparr>zcount := (zcount w)[c := zcount w ! c + 1]\<rparr>)))"

fun zlib_count_codes :: "nat \<Rightarrow> nat list \<Rightarrow> zlib_work \<Rightarrow> zlib_work zres" where
  "zlib_count_codes i [] w = Inr w"
| "zlib_count_codes i (c # cs) w = bind_res (zlib_count_code i c w) (zlib_count_codes (Suc i) cs)"

text \<open>\<^verbatim>\<open>for (ind = ...; ind < lim; ind += step)\<close>: all entries must be free, and get the value.\<close>

function zlib_fill :: "nat \<Rightarrow> nat \<Rightarrow> nat \<Rightarrow> nat \<Rightarrow> nat \<Rightarrow> nat list \<Rightarrow> nat list zres" where
  "zlib_fill base tval lim step ind table =
     (if ind < lim \<and> 0 < step then
        bind_res (z_at table (base + ind)) (\<lambda>t.
        if t \<noteq> 0 then Inl Failed
        else
          bind_res (z_set table (base + ind) tval) (\<lambda>table.
          zlib_fill base tval lim step (ind + step) table))
      else Inr table)"
  by pat_completeness auto
termination
  by (relation "measure (\<lambda>(base, tval, lim, step, ind, table). lim - ind)") auto

declare zlib_fill.simps [simp del]

text \<open>Adding one to a code whose most significant bit is the lowest: the loop that finds the bit to set.\<close>

function zlib_incr_loop :: "nat \<Rightarrow> nat \<Rightarrow> nat" where
  "zlib_incr_loop code incr = (if code AND incr \<noteq> 0 then zlib_incr_loop code (incr div 2) else incr)"
  by pat_completeness auto
termination
proof (relation "measure (\<lambda>(code, incr). incr)")
  fix code incr :: nat
  assume "code AND incr \<noteq> 0"
  then have "incr \<noteq> 0"
    by (rule contrapos_nn) simp
  then show "((code, incr div 2), code, incr) \<in> measure (\<lambda>(code, incr). incr)"
    by simp
qed simp

declare zlib_incr_loop.simps [simp del]

definition zlib_next_code :: "nat \<Rightarrow> nat \<Rightarrow> nat" where
  "zlib_next_code j code =
     (let incr = zlib_incr_loop code (push_bit (j - 1) 1)
      in if incr = 0 then 0 else (code AND (incr - 1)) + incr)"

text \<open>The values of length \<open>j\<close> up to eight, from the first one along the chain; \<open>k\<close> are left.\<close>

fun zlib_short_values :: "nat \<Rightarrow> nat list \<Rightarrow> nat \<Rightarrow> nat \<Rightarrow> nat \<Rightarrow> nat list \<Rightarrow> (nat \<times> nat list) zres" where
  "zlib_short_values j nx 0 val code table = Inr (code, table)"
| "zlib_short_values j nx (Suc k) val code table =
     (if val > ZLIB_HUFFMAN_VALUE_MASK then Inl Failed
      else
        let tval = val OR push_bit ZLIB_HUFFMAN_BITS_SHIFT (j - 1)
        in bind_res (zlib_fill 0 tval 0x100 (push_bit j 1) code table) (\<lambda>table.
           bind_res (if k > 0 then z_at nx val else Inr val) (\<lambda>val.
           zlib_short_values j nx k val (zlib_next_code j code) table)))"

fun zlib_short_codes :: "zlib_work \<Rightarrow> nat list \<Rightarrow> nat \<Rightarrow> nat list \<Rightarrow> (nat \<times> nat list) zres" where
  "zlib_short_codes w [] code table = Inr (code, table)"
| "zlib_short_codes w (j # js) code table =
     (let jcnt = zcount w ! j
      in if jcnt = 0 then zlib_short_codes w js code table
         else if jcnt > push_bit j 1 then Inl Failed
         else
           bind_res (zlib_short_values j (znext w) jcnt (zstart w ! j) code table) (\<lambda>(code, table).
           zlib_short_codes w js code table))"

text \<open>Adding \<open>2 ^ k\<close> to a reversed code: the inner loop, with \<open>m\<close> iterations left.\<close>

fun zlib_add_loop :: "nat \<Rightarrow> nat \<Rightarrow> nat \<Rightarrow> nat" where
  "zlib_add_loop code b 0 = code"
| "zlib_add_loop code b (Suc m) =
     (if code AND b = 0 then code + b else zlib_add_loop (code - b) (b div 2) m)"

text \<open>The loop over the bits of \<^verbatim>\<open>jcnt\<close>; it returns the code and what is left of \<^verbatim>\<open>jcnt\<close>.\<close>

fun zlib_add_bits :: "nat \<Rightarrow> nat list \<Rightarrow> nat \<Rightarrow> nat \<Rightarrow> nat \<times> nat" where
  "zlib_add_bits j [] jcnt code = (jcnt, code)"
| "zlib_add_bits j (k # ks) jcnt code =
     (if bit jcnt k then zlib_add_bits j ks (jcnt - push_bit k 1) (zlib_add_loop code (push_bit (j - k - 1) 1) (j - k))
      else zlib_add_bits j ks jcnt code)"

text \<open>\<^verbatim>\<open>firstcode\<close> for the lengths from nine on (an array of seven, uninitialised before).\<close>

fun zlib_firstcodes :: "zlib_work \<Rightarrow> nat list \<Rightarrow> nat \<Rightarrow> nat list \<Rightarrow> nat list zres" where
  "zlib_firstcodes w [] code firstcode = Inr firstcode"
| "zlib_firstcodes w (j # js) code firstcode =
     (let jcnt = zcount w ! j
      in if jcnt = 0 then zlib_firstcodes w js code firstcode
         else
           let firstcode = firstcode[j - 9 := code];
               (left, code) = zlib_add_bits j [0..<j] jcnt code
           in if left \<noteq> 0 then Inl Failed else zlib_firstcodes w js code firstcode)"

text \<open>
  The primary entry for a code of length \<open>j\<close>: it is the one of the previous code
  (\<open>primary\<close>), or a new secondary table is started, or an existing one is used.
\<close>

definition zlib_primary :: "nat \<Rightarrow> nat \<Rightarrow> nat \<times> nat \<times> nat \<Rightarrow> nat \<Rightarrow> nat list \<Rightarrow> ((nat \<times> nat \<times> nat) \<times> nat \<times> nat list) zres" where
  "zlib_primary j code cur next_secondary table =
     (let (primary, secondary, secondary_bits) = cur
      in if code AND 0xff \<noteq> primary then
           let primary = code AND 0xff
           in bind_res (z_at table primary) (\<lambda>tprimary.
              if tprimary = 0 then
                if next_secondary AND ZLIB_HUFFMAN_VALUE_MASK \<noteq> next_secondary then Inl Failed
                else
                  let secondary = next_secondary;
                      secondary_bits = j - 8
                  in bind_res (z_set table primary
                       (secondary + push_bit ZLIB_HUFFMAN_BITS_SHIFT (j - 8) + push_bit ZLIB_HUFFMAN_SECONDARY_SHIFT 1)) (\<lambda>table.
                     Inr ((primary, secondary, secondary_bits), next_secondary + push_bit secondary_bits 1, table))
              else if \<not> entry_secondary tprimary then Inl Failed
              else
                let secondary = entry_value tprimary;
                    secondary_bits = entry_bits tprimary
                in if secondary_bits < j - 8 then Inl Failed
                   else Inr ((primary, secondary, secondary_bits), next_secondary, table))
         else Inr (cur, next_secondary, table))"

text \<open>The values of length \<open>j\<close> above eight.\<close>

fun zlib_long_values :: "nat \<Rightarrow> nat list \<Rightarrow> nat \<Rightarrow> nat \<Rightarrow> nat \<Rightarrow> nat \<times> nat \<times> nat \<Rightarrow> nat \<Rightarrow> nat list \<Rightarrow> (nat \<times> nat list) zres" where
  "zlib_long_values j nx 0 val code cur next_secondary table = Inr (next_secondary, table)"
| "zlib_long_values j nx (Suc k) val code cur next_secondary table =
     bind_res (zlib_primary j code cur next_secondary table) (\<lambda>(cur, next_secondary, table).
     let (primary, secondary, secondary_bits) = cur;
         tval = val OR push_bit ZLIB_HUFFMAN_BITS_SHIFT (j - 8)
     in bind_res (zlib_fill (secondary + 0x100) tval (push_bit secondary_bits 1) (push_bit (j - 8) 1) (drop_bit 8 code) table) (\<lambda>table.
        bind_res (if k > 0 then z_at nx val else Inr val) (\<lambda>val.
        zlib_long_values j nx k val (zlib_next_code j code) cur next_secondary table)))"

fun zlib_long_codes :: "zlib_work \<Rightarrow> nat list \<Rightarrow> nat list \<Rightarrow> nat \<Rightarrow> nat list \<Rightarrow> nat list zres" where
  "zlib_long_codes w firstcode [] next_secondary table = Inr table"
| "zlib_long_codes w firstcode (j # js) next_secondary table =
     (let jcnt = zcount w ! j
      in if jcnt = 0 then zlib_long_codes w firstcode js next_secondary table
         else
           bind_res (zlib_long_values j (znext w) jcnt (zstart w ! j) (firstcode ! (j - 9)) (0x100, 0, 0) next_secondary table)
             (\<lambda>(next_secondary, table). zlib_long_codes w firstcode js next_secondary table))"

text \<open>
  \<open>work\<close> is the array \<^verbatim>\<open>next\<close> with its old contents; it is handed back for the next call.
\<close>

definition elf_zlib_inflate_table :: "nat list \<Rightarrow> nat list \<Rightarrow> (nat list \<times> nat list) zres" where
  "elf_zlib_inflate_table codes work =
     (let w = \<lparr>zcount = replicate 16 0, zstart = replicate 16 0, zprev = replicate 16 0, znext = work\<rparr>
      in bind_res (zlib_count_codes 0 codes w) (\<lambda>w.
         let table = replicate ZLIB_HUFFMAN_TABLE_SIZE 0
         in bind_res (zlib_short_codes w [1..<9] 0 table) (\<lambda>(code, table).
            bind_res (zlib_firstcodes w [9..<16] code (replicate 7 0)) (\<lambda>firstcode.
            bind_res (zlib_long_codes w firstcode (rev [9..<16]) 0 table) (\<lambda>table.
            Inr (table, znext w))))))"

section \<open>Entries\<close>

lemma and_mask_mod: "(t :: nat) AND (2 ^ n - 1) = t mod 2 ^ n"
  by (simp only: take_bit_eq_mask [symmetric] take_bit_eq_mod flip: mask_eq_exp_minus_1)

lemma entry_value_mod: "entry_value t = t mod 512"
  using and_mask_mod [of t 9] by (simp add: entry_value_def ZLIB_HUFFMAN_VALUE_MASK_def)

lemma entry_bits_div: "entry_bits t = t div 512 mod 8"
  using and_mask_mod [of "t div 512" 3]
  by (simp add: entry_bits_def ZLIB_HUFFMAN_BITS_SHIFT_def ZLIB_HUFFMAN_BITS_MASK_def drop_bit_eq_div)

lemma entry_secondary_odd: "entry_secondary t \<longleftrightarrow> odd (t div 4096)"
  using and_exp_eq_0_iff_not_bit [of t 12]
  by (simp add: entry_secondary_def ZLIB_HUFFMAN_SECONDARY_SHIFT_def push_bit_eq_mult bit_iff_odd)

definition value_entry :: "nat \<Rightarrow> nat \<Rightarrow> nat" where
  "value_entry val b = val OR push_bit ZLIB_HUFFMAN_BITS_SHIFT b"

definition table_entry :: "nat \<Rightarrow> nat \<Rightarrow> nat" where
  "table_entry secondary b = secondary + push_bit ZLIB_HUFFMAN_BITS_SHIFT b + push_bit ZLIB_HUFFMAN_SECONDARY_SHIFT 1"

lemma value_entry_eq:
  assumes "val < 512"
  shows "value_entry val b = val + 512 * b"
proof -
  have "val AND push_bit 9 b = 0"
  proof (rule bit_eqI)
    fix n
    have "take_bit 9 val = val"
      using assms by (simp add: take_bit_nat_eq_self_iff)
    then have "bit val n \<Longrightarrow> n < 9"
      by (metis bit_take_bit_iff)
    then show "bit (val AND push_bit 9 b) n = bit 0 n"
      by (auto simp: bit_simps)
  qed
  then show ?thesis
    by (simp add: value_entry_def ZLIB_HUFFMAN_BITS_SHIFT_def disjunctive_add_eq_or [symmetric] push_bit_eq_mult)
qed

lemma value_entry_parts:
  assumes "val < 512" and "b < 8"
  shows "entry_value (value_entry val b) = val" and "entry_bits (value_entry val b) = b" and "\<not> entry_secondary (value_entry val b)"
  using assms by (simp_all add: value_entry_eq entry_value_mod entry_bits_div entry_secondary_odd)

lemma table_entry_parts:
  assumes "secondary < 512" and "b < 8"
  shows "entry_value (table_entry secondary b) = secondary" and "entry_bits (table_entry secondary b) = b"
    and "entry_secondary (table_entry secondary b)"
proof -
  have t: "table_entry secondary b = secondary + 512 * (b + 8)"
    by (simp add: table_entry_def ZLIB_HUFFMAN_BITS_SHIFT_def ZLIB_HUFFMAN_SECONDARY_SHIFT_def push_bit_eq_mult)
  have "table_entry secondary b div 512 = b + 8" "table_entry secondary b mod 512 = secondary" "table_entry secondary b div 4096 = 1"
    unfolding t using assms by (simp, simp only: mod_mult_self2 mod_less, simp add: div_nat_eqI)
  then show "entry_value (table_entry secondary b) = secondary" "entry_bits (table_entry secondary b) = b"
    "entry_secondary (table_entry secondary b)"
    using assms by (simp_all add: entry_value_mod entry_bits_div entry_secondary_odd)
qed

section \<open>Reversed codes\<close>

text \<open>The \<open>j\<close> lowest bits of \<open>c\<close> in reverse order.\<close>

fun rev_bits :: "nat \<Rightarrow> nat \<Rightarrow> nat" where
  "rev_bits 0 c = 0"
| "rev_bits (Suc j) c = (c mod 2) * 2 ^ j + rev_bits j (c div 2)"

lemma rev_bits_numeral:
  "rev_bits (numeral k) c = (c mod 2) * 2 ^ pred_numeral k + rev_bits (pred_numeral k) (c div 2)"
  by (simp add: numeral_eq_Suc)

lemma rev_bits_less: "rev_bits j c < 2 ^ j"
proof (induction j arbitrary: c)
  case (Suc j)
  have "c mod 2 = 0 \<or> c mod 2 = 1"
    by auto
  then show ?case
    using Suc.IH [of "c div 2"] by auto
qed simp

lemma rev_bits_mod: "rev_bits j (c mod 2 ^ j) = rev_bits j c"
proof (induction j arbitrary: c)
  case (Suc j)
  have "c mod 2 ^ Suc j mod 2 = c mod 2" "c mod 2 ^ Suc j div 2 = c div 2 mod 2 ^ j"
    using mod_mult2_eq [of c 2 "2 ^ j"] by simp_all
  then show ?case
    using Suc.IH [of "c div 2"] by simp
qed simp

lemma rev_bits_shift: "rev_bits (Suc j) (2 * c) = rev_bits j c"
  by simp

lemma and_power_bit: "(code :: nat) AND 2 ^ i = 0 \<longleftrightarrow> \<not> bit code i"
  by (simp add: and_exp_eq_0_iff_not_bit)

lemma incr_loop_power:
  "zlib_incr_loop code (2 ^ i) =
    (if bit code i then (case i of 0 \<Rightarrow> 0 | Suc i \<Rightarrow> zlib_incr_loop code (2 ^ i)) else 2 ^ i)"
proof (cases "bit code i")
  case True
  then have "zlib_incr_loop code (2 ^ i) = zlib_incr_loop code (2 ^ i div 2)"
    by (subst zlib_incr_loop.simps) (simp add: and_power_bit)
  moreover have "zlib_incr_loop code 0 = 0"
    by (subst zlib_incr_loop.simps) simp
  ultimately show ?thesis
    using True by (cases i) simp_all
next
  case False
  then show ?thesis
    by (subst zlib_incr_loop.simps) (simp add: and_power_bit)
qed

lemma incr_loop_low:
  "(\<And>n. n \<le> i \<Longrightarrow> bit code n = bit code' n) \<Longrightarrow> zlib_incr_loop code (2 ^ i) = zlib_incr_loop code' (2 ^ i)"
proof (induction i)
  case 0
  then show ?case
    using incr_loop_power [of code 0] incr_loop_power [of code' 0] by simp
next
  case (Suc i)
  then show ?case
    using incr_loop_power [of code "Suc i"] incr_loop_power [of code' "Suc i"] by (simp del: power_Suc)
qed

lemma incr_loop_result: "zlib_incr_loop code (2 ^ i) = 0 \<or> (\<exists>n \<le> i. zlib_incr_loop code (2 ^ i) = 2 ^ n)"
proof (induction i)
  case 0
  then show ?case
    using incr_loop_power [of code 0] by simp
next
  case (Suc i)
  then show ?case
    by (simp only: incr_loop_power [of code "Suc i"]) (auto intro: le_SucI)
qed

lemma bit_high: "(x :: nat) < 2 ^ j \<Longrightarrow> j \<le> n \<Longrightarrow> \<not> bit x n"
  by (metis bit_take_bit_iff leD take_bit_nat_eq_self_iff)

lemma bit_add_power: "(x :: nat) < 2 ^ j \<Longrightarrow> n < j \<Longrightarrow> bit (2 ^ j + x) n = bit x n"
proof -
  assume "x < 2 ^ j" "n < j"
  have "(2 :: nat) ^ j = 2 ^ n * (2 * 2 ^ (j - Suc n))"
    using \<open>n < j\<close> by (simp flip: power_Suc power_add)
  then have "(2 ^ j + x) div 2 ^ n = 2 * 2 ^ (j - Suc n) + x div 2 ^ n"
    by simp
  then show ?thesis
    by (simp add: bit_iff_odd)
qed

text \<open>Advancing the reversed code is adding one to the code.\<close>

lemma next_code_rev: "0 < j \<Longrightarrow> zlib_next_code j (rev_bits j c) = rev_bits j (c + 1)"
proof (induction j arbitrary: c)
  case (Suc j)
  let ?x = "rev_bits j (c div 2)"
  have x: "?x < 2 ^ j"
    by (rule rev_bits_less)
  show ?case
  proof (cases "even c")
    case True
    have code: "rev_bits (Suc j) c = ?x"
      using True by simp
    have "(c + 1) mod 2 = 1" "(c + 1) div 2 = c div 2"
      using True by presburger+
    then have goal: "rev_bits (Suc j) (c + 1) = 2 ^ j + ?x"
      by simp
    have "?x AND (2 ^ j - 1) = ?x"
      using x by (simp only: and_mask_mod mod_less)
    then show ?thesis
      using x bit_high [OF x order_refl] unfolding code goal zlib_next_code_def
      by (simp add: incr_loop_power [of _ j] push_bit_eq_mult)
  next
    case False
    then have code: "rev_bits (Suc j) c = 2 ^ j + ?x"
      by (simp add: odd_iff_mod_2_eq_one)
    have top: "bit (2 ^ j + ?x) j"
      using x div_add_self1 [of "2 ^ j" ?x] by (simp add: bit_iff_odd)
    have "(c + 1) mod 2 = 0" "(c + 1) div 2 = c div 2 + 1"
      using False by presburger+
    then have goal: "rev_bits (Suc j) (c + 1) = rev_bits j (c div 2 + 1)"
      by simp
    show ?thesis
    proof (cases j)
      case 0
      then show ?thesis
        using top incr_loop_power [of "2 ^ j + ?x" 0] unfolding code goal zlib_next_code_def by simp
    next
      case j: (Suc i)
      let ?incr = "zlib_incr_loop ?x (2 ^ i)"
      have "zlib_incr_loop (2 ^ j + ?x) (2 ^ j) = zlib_incr_loop (2 ^ j + ?x) (2 ^ i)"
        using incr_loop_power [of "2 ^ j + ?x" j] top by (simp add: j del: power_Suc rev_bits.simps)
      also have "\<dots> = ?incr"
        by (rule incr_loop_low, rule bit_add_power [OF x]) (simp add: j)
      finally have loop: "zlib_incr_loop (2 ^ j + ?x) (2 ^ j) = ?incr" .
      have low: "(2 ^ j + ?x) AND (2 ^ n - 1) = ?x AND (2 ^ n - 1)" if "n \<le> i" for n
      proof -
        have "(2 :: nat) ^ j mod 2 ^ n = 0"
          using that j by (simp add: le_imp_power_dvd)
        then show ?thesis
          by (simp only: and_mask_mod) (metis add.left_neutral mod_add_left_eq)
      qed
      have "zlib_next_code (Suc j) (2 ^ j + ?x) = zlib_next_code j ?x"
        using loop low incr_loop_result [of ?x i] j 
        by (auto simp: zlib_next_code_def push_bit_eq_mult Let_def simp del: power_Suc rev_bits.simps)
      then show ?thesis
        unfolding code goal using Suc.IH [of "c div 2"] j by simp
    qed
  qed
qed simp

lemma rev_bits_split: "k \<le> j \<Longrightarrow> rev_bits j c = rev_bits k c * 2 ^ (j - k) + rev_bits (j - k) (c div 2 ^ k)"
proof (induction k arbitrary: j c)
  case (Suc k)
  then obtain i where j: "j = Suc i" "k \<le> i"
    by (cases j) auto
  have "(2 :: nat) ^ i = 2 ^ k * 2 ^ (i - k)"
    using j(2) by (simp flip: power_add)
  then show ?case
    using Suc.IH [OF j(2), of "c div 2"] by (simp add: j(1) algebra_simps div_mult2_eq)
qed simp

lemma add_loop_rev:
  "zlib_add_loop (h * 2 ^ m + rev_bits m d) (2 ^ m div 2) m = h * 2 ^ m + rev_bits m (d + 1)"
proof (induction m arbitrary: h d)
  case (Suc m)
  let ?x = "rev_bits m (d div 2)"
  have x: "?x < 2 ^ m"
    by (rule rev_bits_less)
  have "(h * 2 ^ Suc m + rev_bits (Suc m) d) div 2 ^ m = 2 * h + d mod 2"
    using x by (simp add: algebra_simps div_add1_eq) 
  then have top: "bit (h * 2 ^ Suc m + rev_bits (Suc m) d) m \<longleftrightarrow> odd d"
    by (simp add: bit_iff_odd)
  show ?case
  proof (cases "even d")
    case True
    then have "(d + 1) mod 2 = 1" "(d + 1) div 2 = d div 2"
      by presburger+
    then show ?thesis
      using top True by (simp add: and_power_bit)
  next
    case False
    then have "(d + 1) mod 2 = 0" "(d + 1) div 2 = d div 2 + 1"
      by presburger+
    moreover have "h * 2 ^ Suc m + rev_bits (Suc m) d - 2 ^ m = (2 * h) * 2 ^ m + ?x"
      using False by (simp add: odd_iff_mod_2_eq_one)
    ultimately show ?thesis
      using top False Suc.IH [of "2 * h" "d div 2"] by (simp add: and_power_bit)
  qed
qed simp

lemma add_power_rev:
  assumes "k < j"
  shows "zlib_add_loop (rev_bits j c) (push_bit (j - k - 1) 1) (j - k) = rev_bits j (c + 2 ^ k)"
proof -
  have "rev_bits k (c + 2 ^ k) = rev_bits k c"
    using rev_bits_mod [of k "c + 2 ^ k"] rev_bits_mod [of k c] by simp
  moreover have "(2 :: nat) ^ (j - k) div 2 = push_bit (j - k - 1) 1"
    using assms by (cases "j - k") (auto simp: push_bit_eq_mult)
  ultimately show ?thesis
    using assms add_loop_rev [of "rev_bits k c" "j - k" "c div 2 ^ k"] rev_bits_split [of k j c] rev_bits_split [of k j "c + 2 ^ k"]
      div_add_self2 [of "2 ^ k" c] by simp
qed

lemma add_bits_rev:
  "\<forall>k \<in> set ks. k < j \<Longrightarrow> zlib_add_bits j ks n (rev_bits j c) = (left, code) \<Longrightarrow>
    \<exists>d. n = left + d \<and> code = rev_bits j (c + d)"
proof (induction ks arbitrary: n c)
  case (Cons k ks)
  show ?case
  proof (cases "bit n k")
    case True
    then have "2 ^ k \<le> n"
      using bit_high [of n k k] by (meson not_le order_refl)
    moreover have "zlib_add_bits j ks (n - 2 ^ k) (rev_bits j (c + 2 ^ k)) = (left, code)"
      using Cons.prems True add_power_rev [of k j c] by (simp add: push_bit_eq_mult)
    moreover obtain d where "n - 2 ^ k = left + d" "code = rev_bits j (c + 2 ^ k + d)"
      using Cons.IH [OF _ calculation(2)] Cons.prems(1) by auto
    ultimately show ?thesis
      by (intro exI [of _ "2 ^ k + d"]) (simp add: ac_simps)
  qed (use Cons in simp)
qed auto

section \<open>Counting the codes\<close>

text \<open>The values with a given code length, in order.\<close>

definition values_of :: "nat list \<Rightarrow> nat \<Rightarrow> nat list" where
  "values_of codes j = filter (\<lambda>v. codes ! v = j) [0..<length codes]"

text \<open>What the working arrays say after the first \<open>n\<close> codes.\<close>

definition counted :: "nat list \<Rightarrow> zlib_work \<Rightarrow> bool" where
  "counted codes w \<longleftrightarrow> length (zcount w) = 16 \<and> length (zstart w) = 16 \<and> length (zprev w) = 16 \<and> length codes \<le> length (znext w)
     \<and> (\<forall>j < 16. let vs = values_of codes j in zcount w ! j = length vs
        \<and> (vs \<noteq> [] \<longrightarrow> zstart w ! j = hd vs \<and> zprev w ! j = last vs)
        \<and> (\<forall>k. Suc k < length vs \<longrightarrow> znext w ! (vs ! k) = vs ! Suc k))"

lemma values_of_snoc: "values_of (codes @ [c]) j = values_of codes j @ (if c = j then [length codes] else [])"
  by (auto simp: values_of_def nth_append intro!: filter_cong)

lemma values_of_less: "v \<in> set (values_of codes j) \<Longrightarrow> v < length codes \<and> codes ! v = j"
  by (auto simp: values_of_def)

lemma distinct_values_of: "distinct (values_of codes j)"
  by (simp add: values_of_def)

lemma count_code_counted:
  assumes "counted codes w" and "c < 16" and "Suc (length codes) \<le> length (znext w)"
  shows "\<exists>w'. zlib_count_code (length codes) c w = Inr w' \<and> counted (codes @ [c]) w' \<and> length (znext w') = length (znext w)"
proof (cases "values_of codes c = []")
  case True
  then show ?thesis
    using assms by (auto simp: zlib_count_code_def counted_def values_of_snoc Let_def nth_list_update nth_append)
next
  case False
  let ?vs = "values_of codes c" and ?n = "length codes"
  let ?nx = "(znext w)[last ?vs := ?n]"
  have w: "zcount w ! c = length ?vs" "zstart w ! c = hd ?vs" "zprev w ! c = last ?vs"
    "length (zcount w) = 16" "length (zstart w) = 16" "length (zprev w) = 16"
    using assms(1,2) False by (auto simp: counted_def Let_def)
  have last: "last ?vs < ?n"
    using values_of_less [OF last_in_set [OF False]] by simp
  have chain: "?nx ! (values_of (codes @ [c]) j ! k) = values_of (codes @ [c]) j ! Suc k"
    if j: "j < 16" "Suc k < length (values_of (codes @ [c]) j)" for j k
  proof (cases "j = c \<and> Suc k = length ?vs")
    case True
    then have "k = length ?vs - 1"
      by linarith
    then have "?vs ! k = last ?vs"
      using False by (simp add: last_conv_nth)
    then show ?thesis
      using True last assms(3) by (simp add: values_of_snoc nth_append)
  next
    case F: False
    then have k: "Suc k < length (values_of codes j)"
      using j(2) by (auto simp: values_of_snoc split: if_splits)
    have "values_of codes j ! k \<noteq> last ?vs"
    proof (cases "j = c")
      case True
      then show ?thesis
        using k False distinct_values_of [of codes c] by (auto simp: last_conv_nth nth_eq_iff_index_eq)
    next
      case ne: False
      then show ?thesis
        using values_of_less [OF nth_mem, of k codes j] values_of_less [OF last_in_set [OF False]] k by auto
    qed
    moreover have "znext w ! (values_of codes j ! k) = values_of codes j ! Suc k"
      using assms(1) j(1) k by (simp add: counted_def Let_def)
    ultimately show ?thesis
      using k by (simp add: values_of_snoc nth_append)
  qed
  have "zlib_count_code ?n c w = Inr (w\<lparr>znext := ?nx, zprev := (zprev w)[c := ?n], zcount := (zcount w)[c := length ?vs + 1]\<rparr>)"
    using assms(2,3) w last False by (simp add: zlib_count_code_def z_set_def)
  then show ?thesis
    using assms w chain False by (auto simp: counted_def Let_def values_of_snoc nth_list_update)
qed

lemma count_codes_counted:
  assumes "counted pre w" and "length (pre @ codes) \<le> length (znext w)"
  shows "zlib_count_codes (length pre) codes w = Inl Failed
    \<or> (\<exists>w'. zlib_count_codes (length pre) codes w = Inr w' \<and> counted (pre @ codes) w' \<and> length (znext w') = length (znext w) \<and> (\<forall>c \<in> set codes. c < 16))"
  using assms
proof (induction codes arbitrary: pre w)
  case (Cons c codes)
  show ?case
  proof (cases "c < 16")
    case True
    obtain w' where w': "zlib_count_code (length pre) c w = Inr w'" "counted (pre @ [c]) w'" "length (znext w') = length (znext w)"
      using count_code_counted [OF Cons.prems(1) True] Cons.prems(2) by auto
    show ?thesis
      using Cons.IH [OF w'(2)] Cons.prems(2) w'(1,3) True by simp
  qed (simp add: zlib_count_code_def)
qed simp

lemma counted_initial: "counted [] \<lparr>zcount = replicate 16 0, zstart = replicate 16 0, zprev = replicate 16 0, znext = work\<rparr>"
  by (simp add: counted_def values_of_def)

section \<open>Filling the table\<close>

text \<open>Entries are written only once: a used entry keeps its value.\<close>

definition keeps :: "nat list \<Rightarrow> nat list \<Rightarrow> bool" where
  "keeps t t' \<longleftrightarrow> length t' = length t \<and> (\<forall>i < length t. t ! i \<noteq> 0 \<longrightarrow> t' ! i = t ! i)"

lemma keeps_refl [simp]: "keeps t t"
  by (simp add: keeps_def)

lemma keeps_trans: "keeps t u \<Longrightarrow> keeps u v \<Longrightarrow> keeps t v"
  by (auto simp: keeps_def)

lemma keeps_length: "keeps t t' \<Longrightarrow> length t' = length t"
  by (simp add: keeps_def)

lemma keeps_nth: "keeps t t' \<Longrightarrow> i < length t \<Longrightarrow> t ! i = x \<Longrightarrow> x \<noteq> 0 \<Longrightarrow> t' ! i = x"
  by (auto simp: keeps_def)

lemma keeps_update: "t ! i = 0 \<Longrightarrow> keeps t (t[i := x])"
  unfolding keeps_def by (metis length_list_update nth_list_update_neq)

lemma fill_spec:
  assumes "base + lim \<le> length t" and "0 < step"
  shows "zlib_fill base tval lim step ind t = Inl Failed
    \<or> (\<exists>t'. zlib_fill base tval lim step ind t = Inr t' \<and> keeps t t' \<and> (\<forall>k. ind + k * step < lim \<longrightarrow> t' ! (base + (ind + k * step)) = tval)
        \<and> (\<forall>i < length t. i < base + ind \<longrightarrow> t' ! i = t ! i))"
  using assms
proof (induction base tval lim step ind t rule: zlib_fill.induct)
  case (1 base tval lim step ind t)
  show ?case
  proof (cases "ind < lim")
    case False
    then show ?thesis
      by (simp add: zlib_fill.simps [of base tval lim step ind t])
  next
    case True
    have at: "z_at t (base + ind) = Inr (t ! (base + ind))"
      using True 1(2) by (simp add: z_at_def)
    show ?thesis
    proof (cases "t ! (base + ind) = 0")
      case False
      then show ?thesis
        using True 1(3) at by (simp add: zlib_fill.simps [of base tval lim step ind t])
    next
      case free: True
      let ?t = "t[base + ind := tval]"
      have set: "z_set t (base + ind) tval = Inr ?t"
        using True 1(2) by (simp add: z_set_def)
      have eq: "zlib_fill base tval lim step ind t = zlib_fill base tval lim step (ind + step) ?t"
        using True 1(3) at set free by (simp add: zlib_fill.simps [of base tval lim step ind t])
      have IH: "zlib_fill base tval lim step (ind + step) ?t = Inl Failed
        \<or> (\<exists>t'. zlib_fill base tval lim step (ind + step) ?t = Inr t' \<and> keeps ?t t'
            \<and> (\<forall>k. ind + step + k * step < lim \<longrightarrow> t' ! (base + (ind + step + k * step)) = tval)
            \<and> (\<forall>i < length ?t. i < base + (ind + step) \<longrightarrow> t' ! i = ?t ! i))"
        using 1(1) [of "t ! (base + ind)" ?t] True 1(2,3) at set free by simp
      show ?thesis
      proof (cases "zlib_fill base tval lim step (ind + step) ?t = Inl Failed")
        case False
        then obtain t' where t': "zlib_fill base tval lim step (ind + step) ?t = Inr t'" "keeps ?t t'"
          "\<And>k. ind + step + k * step < lim \<Longrightarrow> t' ! (base + (ind + step + k * step)) = tval"
          "\<And>i. i < length t \<Longrightarrow> i < base + (ind + step) \<Longrightarrow> t' ! i = ?t ! i"
          using IH by auto
        have "t' ! (base + (ind + k * step)) = tval" if "ind + k * step < lim" for k
        proof (cases k)
          case 0
          then show ?thesis
            using t'(4) [of "base + ind"] that 1(2,3) by simp
        next
          case (Suc n)
          then show ?thesis
            using t'(3) [of n] that by (simp add: ac_simps)
        qed
        moreover have "t' ! i = t ! i" if "i < length t" "i < base + ind" for i
          using t'(4) [of i] that by simp
        moreover have "keeps t t'"
          using keeps_trans [OF keeps_update [OF free] t'(2)] .
        ultimately show ?thesis
          using eq t'(1) by auto
      qed (simp add: eq)
    qed
  qed
qed

text \<open>The same with the positions as a residue class.\<close>

lemma fill_residue:
  assumes "base + lim \<le> length t" and "r < step"
  shows "zlib_fill base tval lim step r t = Inl Failed
    \<or> (\<exists>t'. zlib_fill base tval lim step r t = Inr t' \<and> keeps t t' \<and> (\<forall>i < lim. i mod step = r \<longrightarrow> t' ! (base + i) = tval))"
proof -
  have "i = r + (i div step) * step" if "i mod step = r" for i
    using that by (metis add.commute div_mult_mod_eq)
  then show ?thesis
    using fill_spec [OF assms(1), of step tval r] assms(2) by (metis not_less_zero not_gr_zero)
qed

section \<open>Canonical codes\<close>

text \<open>RFC 1951, 3.2.2: the first code of each length, and the codes of one length in the order of the values.\<close>

fun first_code :: "nat list \<Rightarrow> nat \<Rightarrow> nat" where
  "first_code codes 0 = 0"
| "first_code codes (Suc j) = 2 * (first_code codes j + (if j = 0 then 0 else length (values_of codes j)))"

definition huff_code :: "nat list \<Rightarrow> nat \<Rightarrow> nat" where
  "huff_code codes v = first_code codes (codes ! v) + length (filter (\<lambda>u. codes ! u = codes ! v) [0..<v])"

text \<open>The code of a value as it is read from the input, most significant bit first into the lowest bit.\<close>

definition stream_code :: "nat list \<Rightarrow> nat \<Rightarrow> nat" where
  "stream_code codes v = rev_bits (codes ! v) (huff_code codes v)"

lemma values_of_split:
  assumes "v < length codes"
  shows "values_of codes (codes ! v) =
    filter (\<lambda>u. codes ! u = codes ! v) [0..<v] @ v # filter (\<lambda>u. codes ! u = codes ! v) [Suc v..<length codes]"
proof -
  have "[0..<length codes] = [0..<v] @ v # [Suc v..<length codes]"
    using assms upt_add_eq_append [of 0 v "length codes - v"] by (simp add: upt_conv_Cons)
  then show ?thesis
    by (simp add: values_of_def)
qed

lemma value_position:
  assumes "v < length codes"
  shows "\<exists>m < length (values_of codes (codes ! v)). values_of codes (codes ! v) ! m = v \<and> huff_code codes v = first_code codes (codes ! v) + m"
proof (intro exI conjI)
  let ?m = "length (filter (\<lambda>u. codes ! u = codes ! v) [0..<v])"
  show "?m < length (values_of codes (codes ! v))" "values_of codes (codes ! v) ! ?m = v"
    unfolding values_of_split [OF assms] by (simp_all add: nth_append)
  show "huff_code codes v = first_code codes (codes ! v) + ?m"
    by (simp add: huff_code_def)
qed

section \<open>Codes of up to eight bits\<close>

definition short_ok :: "nat list \<Rightarrow> nat list \<Rightarrow> nat \<Rightarrow> bool" where
  "short_ok codes t v \<longleftrightarrow> v < 512 \<and> (\<forall>i < 256. i mod 2 ^ (codes ! v) = stream_code codes v \<longrightarrow>
     value_entry v (codes ! v - 1) \<noteq> 0 \<longrightarrow> t ! i = value_entry v (codes ! v - 1))"

lemma short_ok_keeps: "short_ok codes t v \<Longrightarrow> keeps t t' \<Longrightarrow> 256 \<le> length t \<Longrightarrow> short_ok codes t' v"
  by (auto simp: short_ok_def keeps_def)

text \<open>The values of one length are visited along the chain.\<close>

definition is_chain :: "nat list \<Rightarrow> nat list \<Rightarrow> bool" where
  "is_chain nx vs \<longleftrightarrow> (\<forall>k. Suc k < length vs \<longrightarrow> nx ! (vs ! k) = vs ! Suc k) \<and> (\<forall>v \<in> set vs. v < length nx)"

lemma chain_next:
  assumes "is_chain nx vs" and "length vs = m + Suc k"
  shows "\<exists>val'. (if k > 0 then z_at nx (vs ! m) else Inr (vs ! m)) = Inr val' \<and> (k > 0 \<longrightarrow> val' = vs ! Suc m)"
proof (cases "k > 0")
  case True
  then have "vs ! m < length nx"
    using assms nth_mem [of m vs] by (auto simp: is_chain_def)
  moreover have "nx ! (vs ! m) = vs ! Suc m"
    using assms True by (simp add: is_chain_def)
  ultimately show ?thesis
    using True by (simp add: z_at_def)
qed simp

lemma counted_chain:
  assumes "counted codes w" and "j < 16"
  shows "is_chain (znext w) (values_of codes j)" and "zcount w ! j = length (values_of codes j)"
    and "values_of codes j \<noteq> [] \<Longrightarrow> zstart w ! j = values_of codes j ! 0"
proof -
  have "v < length (znext w)" if "v \<in> set (values_of codes j)" for v
    using values_of_less [OF that] assms(1) by (simp add: counted_def)
  then show "is_chain (znext w) (values_of codes j)" "zcount w ! j = length (values_of codes j)"
    "values_of codes j \<noteq> [] \<Longrightarrow> zstart w ! j = values_of codes j ! 0"
    using assms by (simp_all add: counted_def is_chain_def Let_def hd_conv_nth)
qed

lemma short_values_spec:
  assumes "is_chain nx vs" and "0 < j" and "256 \<le> length t" and "length vs = m + k" and "k > 0 \<Longrightarrow> val = vs ! m"
  shows "zlib_short_values j nx k val (rev_bits j (c + m)) t = Inl Failed
    \<or> (\<exists>t'. zlib_short_values j nx k val (rev_bits j (c + m)) t = Inr (rev_bits j (c + length vs), t') \<and> keeps t t'
        \<and> (\<forall>n. m \<le> n \<longrightarrow> n < length vs \<longrightarrow> vs ! n < 512 \<and> (\<forall>i < 256. i mod 2 ^ j = rev_bits j (c + n) \<longrightarrow>
             value_entry (vs ! n) (j - 1) \<noteq> 0 \<longrightarrow> t' ! i = value_entry (vs ! n) (j - 1))))"
  using assms(3-5)
proof (induction k arbitrary: m val t)
  case 0
  then show ?case
    by simp
next
  case (Suc k)
  let ?e = "value_entry (vs ! m) (j - 1)" and ?r = "rev_bits j (c + m)"
  have val: "val = vs ! m"
    using Suc.prems(3) by simp
  show ?case
  proof (cases "val > ZLIB_HUFFMAN_VALUE_MASK")
    case True
    then show ?thesis
      by simp
  next
    case small: False
    have fill: "zlib_fill 0 ?e 0x100 (push_bit j 1) ?r t = Inl Failed
      \<or> (\<exists>t'. zlib_fill 0 ?e 0x100 (push_bit j 1) ?r t = Inr t' \<and> keeps t t' \<and> (\<forall>i < 256. i mod 2 ^ j = ?r \<longrightarrow> t' ! i = ?e))"
      using fill_residue [of 0 256 t ?r "2 ^ j" ?e] rev_bits_less [of j "c + m"] Suc.prems(1) by (simp add: push_bit_eq_mult)
    show ?thesis
    proof (cases "zlib_fill 0 ?e 0x100 (push_bit j 1) ?r t = Inl Failed")
      case True
      then show ?thesis
        using small by (simp add: val value_entry_def)
    next
      case False
      then obtain t1 where t1: "zlib_fill 0 ?e 0x100 (push_bit j 1) ?r t = Inr t1" "keeps t t1" "\<And>i. i < 256 \<Longrightarrow> i mod 2 ^ j = ?r \<Longrightarrow> t1 ! i = ?e"
        using fill by auto
      obtain val' where val': "(if k > 0 then z_at nx (vs ! m) else Inr (vs ! m)) = Inr val'" "k > 0 \<Longrightarrow> val' = vs ! Suc m"
        using chain_next [OF assms(1) Suc.prems(2)] by auto
      have eq: "zlib_short_values j nx (Suc k) val ?r t = zlib_short_values j nx k val' (rev_bits j (c + Suc m)) t1"
        using small t1(1) val'(1) next_code_rev [OF assms(2), of "c + m"] by (simp add: val value_entry_def Let_def)
      have l1: "256 \<le> length t1"
        using keeps_length [OF t1(2)] Suc.prems(1) by simp
      have small': "vs ! m < 512"
        using small by (simp add: val ZLIB_HUFFMAN_VALUE_MASK_def)
      consider "zlib_short_values j nx k val' (rev_bits j (c + Suc m)) t1 = Inl Failed"
        | t' where "zlib_short_values j nx k val' (rev_bits j (c + Suc m)) t1 = Inr (rev_bits j (c + length vs), t')" "keeps t1 t'"
          "\<And>n. Suc m \<le> n \<Longrightarrow> n < length vs \<Longrightarrow> vs ! n < 512 \<and> (\<forall>i < 256. i mod 2 ^ j = rev_bits j (c + n) \<longrightarrow>
             value_entry (vs ! n) (j - 1) \<noteq> 0 \<longrightarrow> t' ! i = value_entry (vs ! n) (j - 1))"
        using Suc.IH [OF l1, of "Suc m" val'] Suc.prems(2) val'(2) by auto
      then show ?thesis
      proof cases
        case 2
        have "t' ! i = ?e" if "i < 256" "i mod 2 ^ j = ?r" "?e \<noteq> 0" for i
          using keeps_nth [OF 2(2) _ t1(3) [OF that(1,2)] that(3)] that(1) l1 by simp
        then have "vs ! n < 512 \<and> (\<forall>i < 256. i mod 2 ^ j = rev_bits j (c + n) \<longrightarrow>
            value_entry (vs ! n) (j - 1) \<noteq> 0 \<longrightarrow> t' ! i = value_entry (vs ! n) (j - 1))" if "m \<le> n" "n < length vs" for n
          using 2(3) [of n] that small' by (cases "n = m") auto
        then show ?thesis
          using 2(1) keeps_trans [OF t1(2) 2(2)] unfolding eq by blast
      qed (intro disjI1, simp only: eq)
    qed
  qed
qed

text \<open>Going to the next length doubles the code, which the reversed number does not show.\<close>

lemma next_length: "0 < j \<Longrightarrow> rev_bits j (first_code codes j + length (values_of codes j)) = rev_bits (Suc j) (first_code codes (Suc j))"
  by simp

lemma short_codes_spec:
  assumes w: "counted codes w" and j: "0 < j" "j \<le> 9" and t: "256 \<le> length t"
    and ok: "\<forall>v < length codes. 0 < codes ! v \<and> codes ! v < j \<longrightarrow> short_ok codes t v"
  shows "zlib_short_codes w [j..<9] (rev_bits j (first_code codes j)) t = Inl Failed
    \<or> (\<exists>t'. zlib_short_codes w [j..<9] (rev_bits j (first_code codes j)) t = Inr (rev_bits 9 (first_code codes 9), t') \<and> length t' = length t
        \<and> (\<forall>v < length codes. 0 < codes ! v \<and> codes ! v < 9 \<longrightarrow> short_ok codes t' v))"
  using j t ok
proof (induction "9 - j" arbitrary: j t)
  case 0
  then have "j = 9"
    by simp
  then show ?case
    using 0 by simp
next
  case (Suc d)
  let ?vs = "values_of codes j" and ?c = "first_code codes j"
  have j: "j < 9" "[j..<9] = j # [Suc j..<9]" "j < 16" "9 - Suc j = d"
    using Suc.hyps(2) by (auto simp: upt_conv_Cons)
  note ch = counted_chain [OF w j(3)]
  have step: "zlib_short_codes w [j..<9] (rev_bits j ?c) t = Inl Failed
    \<or> (\<exists>t1. zlib_short_codes w [j..<9] (rev_bits j ?c) t = zlib_short_codes w [Suc j..<9] (rev_bits (Suc j) (first_code codes (Suc j))) t1 \<and> keeps t t1
        \<and> (\<forall>v < length codes. codes ! v = j \<longrightarrow> short_ok codes t1 v))"
  proof (cases "?vs = []")
    case True
    then have "\<not> (\<exists>v < length codes. codes ! v = j)"
      by (auto simp: values_of_def filter_empty_conv)
    then show ?thesis
      using True Suc.prems(1) by (intro disjI2 exI [of _ t]) (simp add: j(2) ch(2) Let_def)
  next
    case ne: False
    show ?thesis
    proof (cases "length ?vs > push_bit j 1 \<or> zlib_short_values j (znext w) (length ?vs) (?vs ! 0) (rev_bits j ?c) t = Inl Failed")
      case True
      then show ?thesis
        using ne by (auto simp: j(2) ch(2,3) Let_def)
    next
      case False
      then obtain t1 where t1: "zlib_short_values j (znext w) (length ?vs) (?vs ! 0) (rev_bits j ?c) t = Inr (rev_bits j (?c + length ?vs), t1)" "keeps t t1"
        "\<And>n. n < length ?vs \<Longrightarrow> ?vs ! n < 512 \<and> (\<forall>i < 256. i mod 2 ^ j = rev_bits j (?c + n) \<longrightarrow>
           value_entry (?vs ! n) (j - 1) \<noteq> 0 \<longrightarrow> t1 ! i = value_entry (?vs ! n) (j - 1))"
        using short_values_spec [OF ch(1) Suc.prems(1,3), of 0 "length ?vs" "?vs ! 0" ?c] by auto
      have "short_ok codes t1 v" if v: "v < length codes" "codes ! v = j" for v
      proof -
        obtain n where "n < length ?vs" "?vs ! n = v" "huff_code codes v = ?c + n"
          using value_position [OF v(1)] v(2) by auto
        then show ?thesis
          using t1(3) [of n] v(2) by (simp add: short_ok_def stream_code_def)
      qed
      then show ?thesis
        using False ne t1(1,2) Suc.prems(1) next_length [of j codes] by (auto simp: j(2) ch(2,3) Let_def simp del: rev_bits.simps first_code.simps)
    qed
  qed
  show ?case
  proof (cases "zlib_short_codes w [j..<9] (rev_bits j ?c) t = Inl Failed")
    case False
    then obtain t1 where t1: "zlib_short_codes w [j..<9] (rev_bits j ?c) t = zlib_short_codes w [Suc j..<9] (rev_bits (Suc j) (first_code codes (Suc j))) t1"
      "keeps t t1" "\<forall>v < length codes. codes ! v = j \<longrightarrow> short_ok codes t1 v"
      using step by auto
    have "\<forall>v < length codes. 0 < codes ! v \<and> codes ! v < Suc j \<longrightarrow> short_ok codes t1 v"
      using t1(3) Suc.prems(4) short_ok_keeps [OF _ t1(2) Suc.prems(3)] by (metis less_Suc_eq)
    then show ?thesis
      using Suc.hyps(1) [of "Suc j" t1] j keeps_length [OF t1(2)] Suc.prems(3) t1(1) by simp
  qed simp
qed

section \<open>Codes of nine bits and more\<close>

lemma firstcodes_spec:
  assumes w: "counted codes w" and j: "9 \<le> j" "j \<le> 16" and fc: "length fc = 7"
    and ok: "\<forall>i. 9 \<le> i \<and> i < j \<and> values_of codes i \<noteq> [] \<longrightarrow> fc ! (i - 9) = rev_bits i (first_code codes i)"
  shows "zlib_firstcodes w [j..<16] (rev_bits j (first_code codes j)) fc = Inl Failed
    \<or> (\<exists>fc'. zlib_firstcodes w [j..<16] (rev_bits j (first_code codes j)) fc = Inr fc'
        \<and> (\<forall>i. 9 \<le> i \<and> i < 16 \<and> values_of codes i \<noteq> [] \<longrightarrow> fc' ! (i - 9) = rev_bits i (first_code codes i)))"
  using j fc ok
proof (induction "16 - j" arbitrary: j fc)
  case 0
  then have "j = 16"
    by simp
  then show ?case
    using 0 by simp
next
  case (Suc d)
  let ?vs = "values_of codes j" and ?c = "first_code codes j"
  have j: "j < 16" "[j..<16] = j # [Suc j..<16]" "16 - Suc j = d"
    using Suc.hyps(2) by (auto simp: upt_conv_Cons)
  note cnt = counted_chain(2) [OF w j(1)]
  show ?case
  proof (cases "?vs = []")
    case True
    then have eq: "zlib_firstcodes w [j..<16] (rev_bits j ?c) fc = zlib_firstcodes w [Suc j..<16] (rev_bits (Suc j) (first_code codes (Suc j))) fc"
      using next_length [of j codes] Suc.prems(1) by (simp add: j(2) cnt Let_def del: rev_bits.simps first_code.simps)
    then show ?thesis
      using Suc.hyps(1) [of "Suc j" fc] j Suc.prems True by (auto simp: less_Suc_eq)
  next
    case False
    obtain left code where add: "zlib_add_bits j [0..<j] (length ?vs) (rev_bits j ?c) = (left, code)"
      by (rule prod.exhaust)
    show ?thesis
    proof (cases "left = 0")
      case True
      have "code = rev_bits j (?c + length ?vs)"
        using add_bits_rev [OF _ add] True by auto
      then have eq: "zlib_firstcodes w [j..<16] (rev_bits j ?c) fc
          = zlib_firstcodes w [Suc j..<16] (rev_bits (Suc j) (first_code codes (Suc j))) (fc[j - 9 := rev_bits j ?c])"
        using next_length [of j codes] Suc.prems(1) False True add by (simp add: j(2) cnt Let_def del: rev_bits.simps first_code.simps)
      have "(fc[j - 9 := rev_bits j ?c]) ! (i - 9) = rev_bits i (first_code codes i)"
        if "9 \<le> i" "i < Suc j" "values_of codes i \<noteq> []" for i
        using that Suc.prems j(1) by (cases "i = j") (auto simp: nth_list_update)
      then show ?thesis
        unfolding eq using Suc.hyps(1) [of "Suc j" "fc[j - 9 := rev_bits j ?c]"] j Suc.prems by auto
    next
      case F: False
      then show ?thesis
        using False add by (simp add: j(2) cnt Let_def)
    qed
  qed
qed

definition long_at :: "nat list \<Rightarrow> nat \<Rightarrow> nat \<Rightarrow> nat \<Rightarrow> bool" where
  "long_at t r b v \<longleftrightarrow> (let p = t ! (r mod 256) in entry_secondary p \<and> b \<le> entry_bits p
     \<and> (\<forall>i < 2 ^ entry_bits p. i mod 2 ^ b = r div 256 \<longrightarrow> t ! (entry_value p + 256 + i) = value_entry v b))"

lemma entry_bounds: "entry_value p < 512" "entry_bits p < 8"
  by (simp_all add: entry_value_mod entry_bits_div)

lemma secondary_index:
  assumes "i < 2 ^ entry_bits p" and "1024 \<le> length t"
  shows "entry_value p + 256 + i < length t"
proof -
  have "(2 :: nat) ^ entry_bits p \<le> 2 ^ 7"
    using entry_bounds(2) [of p] by (intro power_increasing) auto
  then show ?thesis
    using assms entry_bounds(1) [of p] by simp
qed

lemma secondary_nonzero: "entry_secondary p \<Longrightarrow> p \<noteq> 0"
  by (rule notI) (simp add: entry_secondary_odd)

lemma long_at_keeps:
  assumes "long_at t r b v" and "keeps t t'" and "1024 \<le> length t" and "v < 512" and "0 < b"
  shows "long_at t' r b v"
proof -
  let ?p = "t ! (r mod 256)"
  have "r mod 256 < length t"
    using assms(3) mod_less_divisor [of 256 r] by linarith
  moreover have "?p \<noteq> 0"
    using assms(1) secondary_nonzero by (simp add: long_at_def Let_def)
  ultimately have p: "t' ! (r mod 256) = ?p"
    using assms(2) by (simp add: keeps_def)
  have e: "value_entry v b \<noteq> 0"
    using assms(4,5) by (simp add: value_entry_eq)
  have "t' ! (entry_value ?p + 256 + i) = value_entry v b" if "i < 2 ^ entry_bits ?p" "i mod 2 ^ b = r div 256" for i
    using keeps_nth [OF assms(2) secondary_index [OF that(1) assms(3)] _ e] assms(1) that by (simp add: long_at_def Let_def)
  then show ?thesis
    using assms(1) by (simp add: long_at_def p Let_def)
qed

text \<open>What is remembered of the previous code: nothing, or the secondary table that its primary entry names.\<close>

definition cur_ok :: "nat \<Rightarrow> nat list \<Rightarrow> nat \<times> nat \<times> nat \<Rightarrow> bool" where
  "cur_ok b t cur \<longleftrightarrow> (case cur of (primary, secondary, secondary_bits) \<Rightarrow> primary = 0x100
     \<or> primary < 256 \<and> entry_secondary (t ! primary) \<and> entry_value (t ! primary) = secondary
       \<and> entry_bits (t ! primary) = secondary_bits \<and> b \<le> secondary_bits)"

lemma cur_ok_keeps:
  assumes "cur_ok b t cur" and "keeps t t'" and "256 \<le> length t"
  shows "cur_ok b t' cur"
proof -
  obtain primary secondary sb where cur: "cur = (primary, secondary, sb)"
    by (rule prod_cases3)
  have "t' ! primary = t ! primary" if "primary < 256" "entry_secondary (t ! primary)"
    using keeps_nth [OF assms(2) _ refl secondary_nonzero [OF that(2)]] that(1) assms(3) by simp
  then show ?thesis
    using assms(1) by (auto simp: cur_ok_def cur)
qed

lemma primary_spec:
  assumes "cur_ok (j - 8) t cur" and "9 \<le> j" "j < 16" and "256 \<le> length t"
  shows "zlib_primary j code cur ns t = Inl Failed
    \<or> (\<exists>secondary sb ns' t'. zlib_primary j code cur ns t = Inr ((code mod 256, secondary, sb), ns', t') \<and> keeps t t'
        \<and> cur_ok (j - 8) t' (code mod 256, secondary, sb))"
proof -
  obtain primary secondary sb where cur: "cur = (primary, secondary, sb)"
    by (rule prod_cases3)
  have low: "code AND 0xff = code mod 256"
    using and_mask_mod [of code 8] by simp
  have idx: "code mod 256 < length t"
    using assms(4) mod_less_divisor [of 256 code] by linarith
  show ?thesis
  proof (cases "code mod 256 = primary")
    case True
    then show ?thesis
      using assms(1) by (auto simp: zlib_primary_def cur low)
  next
    case ne: False
    show ?thesis
    proof (cases "t ! (code mod 256) = 0")
      case free: True
      show ?thesis
      proof (cases "ns AND ZLIB_HUFFMAN_VALUE_MASK = ns")
        case True
        then have ns: "ns < 512"
          using and_mask_mod [of ns 9] mod_less_divisor [of 512 ns] by (simp add: ZLIB_HUFFMAN_VALUE_MASK_def)
        let ?t = "t[code mod 256 := table_entry ns (j - 8)]"
        have "cur_ok (j - 8) ?t (code mod 256, ns, j - 8)"
          using table_entry_parts [OF ns, of "j - 8"] assms(3) idx by (simp add: cur_ok_def)
        moreover have "zlib_primary j code cur ns t = Inr ((code mod 256, ns, j - 8), ns + push_bit (j - 8) 1, ?t)"
          using ne free True idx by (simp add: zlib_primary_def cur low z_at_def z_set_def table_entry_def Let_def)
        ultimately show ?thesis
          using keeps_update [OF free] by blast
      qed (use ne free idx in \<open>simp add: zlib_primary_def cur low z_at_def Let_def\<close>)
    next
      case used: False
      then show ?thesis
        using ne idx by (auto simp: zlib_primary_def cur low z_at_def cur_ok_def Let_def)
    qed
  qed
qed

lemma long_values_spec:
  assumes ch: "is_chain nx vs" and j: "9 \<le> j" "j < 16" and small: "\<forall>v \<in> set vs. v < 512"
    and "1024 \<le> length t" and "length vs = m + k" and "k > 0 \<Longrightarrow> val = vs ! m" and "cur_ok (j - 8) t cur"
  shows "zlib_long_values j nx k val (rev_bits j (c + m)) cur ns t = Inl Failed
    \<or> (\<exists>ns' t'. zlib_long_values j nx k val (rev_bits j (c + m)) cur ns t = Inr (ns', t') \<and> keeps t t'
        \<and> (\<forall>n. m \<le> n \<longrightarrow> n < length vs \<longrightarrow> long_at t' (rev_bits j (c + n)) (j - 8) (vs ! n)))"
  using assms(5-)
proof (induction k arbitrary: m val t cur ns)
  case 0
  then show ?case
    by simp
next
  case (Suc k)
  let ?e = "value_entry (vs ! m) (j - 8)" and ?r = "rev_bits j (c + m)"
  let ?run = "zlib_long_values j nx (Suc k) val ?r cur ns t"
  have val: "val = vs ! m"
    using Suc.prems(3) by simp
  show ?case
  proof (cases "zlib_primary j ?r cur ns t = Inl Failed")
    case True
    then show ?thesis
      by simp
  next
    case False
    have l: "256 \<le> length t"
      using Suc.prems(1) by simp
    from False obtain s sb ns1 t1 where t1: "zlib_primary j ?r cur ns t = Inr ((?r mod 256, s, sb), ns1, t1)" "keeps t t1"
      "cur_ok (j - 8) t1 (?r mod 256, s, sb)"
      using primary_spec [OF Suc.prems(4) j l, of ?r ns] by auto
    let ?p = "t1 ! (?r mod 256)"
    have p: "entry_secondary ?p" "entry_value ?p = s" "entry_bits ?p = sb" "j - 8 \<le> sb"
      using t1(3) mod_less_divisor [of 256 ?r] by (auto simp: cur_ok_def)
    have l1: "1024 \<le> length t1"
      using keeps_length [OF t1(2)] Suc.prems(1) by simp
    have lim: "s + 256 + 2 ^ sb \<le> length t1"
      using secondary_index [of "2 ^ sb - 1" ?p t1] p l1 by simp
    have "2 ^ j = 256 * (2 :: nat) ^ (j - 8)"
      using j(1) power_add [of "2 :: nat" 8 "j - 8"] by simp
    then have ind: "?r div 256 < 2 ^ (j - 8)"
      using rev_bits_less [of j "c + m"] by (simp add: less_mult_imp_div_less mult.commute)
    let ?fill = "zlib_fill (s + 0x100) ?e (push_bit sb 1) (push_bit (j - 8) 1) (drop_bit 8 ?r) t1"
    have fill: "?fill = Inl Failed \<or> (\<exists>t'. ?fill = Inr t' \<and> keeps t1 t' \<and> (\<forall>i < 2 ^ sb. i mod 2 ^ (j - 8) = ?r div 256 \<longrightarrow> t' ! (s + 256 + i) = ?e))"
      using fill_residue [OF lim ind, of ?e] by (simp add: push_bit_eq_mult drop_bit_eq_div)
    show ?thesis
    proof (cases "?fill = Inl Failed")
      case True
      then show ?thesis
        using t1(1) by (simp add: val value_entry_def)
    next
      case False
      then obtain t2 where t2: "?fill = Inr t2" "keeps t1 t2" "\<And>i. i < 2 ^ sb \<Longrightarrow> i mod 2 ^ (j - 8) = ?r div 256 \<Longrightarrow> t2 ! (s + 256 + i) = ?e"
        using fill by auto
      obtain val' where val': "(if k > 0 then z_at nx (vs ! m) else Inr (vs ! m)) = Inr val'" "k > 0 \<Longrightarrow> val' = vs ! Suc m"
        using chain_next [OF ch Suc.prems(2)] by auto
      have eq: "?run = zlib_long_values j nx k val' (rev_bits j (c + Suc m)) (?r mod 256, s, sb) ns1 t2"
        using t1(1) t2(1) val'(1) next_code_rev [of j "c + m"] j(1) by (simp add: val value_entry_def Let_def)
      have l2: "1024 \<le> length t2"
        using keeps_length [OF t2(2)] l1 by simp
      have cur2: "cur_ok (j - 8) t2 (?r mod 256, s, sb)"
        using cur_ok_keeps [OF t1(3) t2(2)] l1 by simp
      then have here: "long_at t2 ?r (j - 8) (vs ! m)"
        using t2(3) mod_less_divisor [of 256 ?r] by (auto simp: long_at_def cur_ok_def Let_def)
      have vm: "vs ! m < 512"
        using small Suc.prems(2) by simp
      consider "zlib_long_values j nx k val' (rev_bits j (c + Suc m)) (?r mod 256, s, sb) ns1 t2 = Inl Failed"
        | ns' t' where "zlib_long_values j nx k val' (rev_bits j (c + Suc m)) (?r mod 256, s, sb) ns1 t2 = Inr (ns', t')" "keeps t2 t'"
          "\<And>n. Suc m \<le> n \<Longrightarrow> n < length vs \<Longrightarrow> long_at t' (rev_bits j (c + n)) (j - 8) (vs ! n)"
        using Suc.IH [OF l2 _ _ cur2, of "Suc m" val' ns1] Suc.prems(2) val'(2) by auto
      then show ?thesis
      proof cases
        case 2
        have "long_at t' (rev_bits j (c + n)) (j - 8) (vs ! n)" if "m \<le> n" "n < length vs" for n
          using 2(3) [of n] that long_at_keeps [OF here 2(2) l2 vm] j(1) by (cases "n = m") auto
        then show ?thesis
          using 2(1) keeps_trans [OF keeps_trans [OF t1(2) t2(2)] 2(2)] unfolding eq by blast
      qed (intro disjI1, simp only: eq)
    qed
  qed
qed

lemma long_codes_spec:
  assumes w: "counted codes w" and small: "length codes \<le> 512" and js: "\<forall>j \<in> set js. 9 \<le> j \<and> j < 16" and t: "1024 \<le> length t"
    and fc: "\<forall>i. 9 \<le> i \<and> i < 16 \<and> values_of codes i \<noteq> [] \<longrightarrow> fc ! (i - 9) = rev_bits i (first_code codes i)"
  shows "zlib_long_codes w fc js ns t = Inl Failed
    \<or> (\<exists>t'. zlib_long_codes w fc js ns t = Inr t' \<and> keeps t t'
        \<and> (\<forall>v < length codes. codes ! v \<in> set js \<longrightarrow> long_at t' (stream_code codes v) (codes ! v - 8) v))"
  using js t
proof (induction js arbitrary: ns t)
  case (Cons j js)
  let ?vs = "values_of codes j" and ?c = "first_code codes j"
  have j: "9 \<le> j" "j < 16"
    using Cons.prems(1) by auto
  note ch = counted_chain [OF w j(2)]
  have vs: "\<forall>v \<in> set ?vs. v < 512"
    using values_of_less small by (auto dest: less_le_trans)
  have step: "zlib_long_codes w fc (j # js) ns t = Inl Failed
    \<or> (\<exists>ns1 t1. zlib_long_codes w fc (j # js) ns t = zlib_long_codes w fc js ns1 t1 \<and> keeps t t1
        \<and> (\<forall>v < length codes. codes ! v = j \<longrightarrow> long_at t1 (stream_code codes v) (j - 8) v))"
  proof (cases "?vs = []")
    case True
    then have "\<not> (\<exists>v < length codes. codes ! v = j)"
      by (auto simp: values_of_def filter_empty_conv)
    then show ?thesis
      using True by (intro disjI2 exI [of _ ns] exI [of _ t]) (simp add: ch(2))
  next
    case ne: False
    let ?run = "zlib_long_values j (znext w) (length ?vs) (?vs ! 0) (rev_bits j ?c) (0x100, 0, 0) ns t"
    have code: "fc ! (j - 9) = rev_bits j ?c"
      using fc j ne by simp
    show ?thesis
    proof (cases "?run = Inl Failed")
      case True
      then show ?thesis
        using ne by (simp add: ch(2,3) code Let_def)
    next
      case False
      then obtain ns1 t1 where t1: "?run = Inr (ns1, t1)" "keeps t t1"
        "\<And>n. n < length ?vs \<Longrightarrow> long_at t1 (rev_bits j (?c + n)) (j - 8) (?vs ! n)"
        using long_values_spec [OF ch(1) j vs Cons.prems(2), of 0 "length ?vs" "?vs ! 0" "(0x100, 0, 0)" ?c ns] by (auto simp: cur_ok_def)
      have "long_at t1 (stream_code codes v) (j - 8) v" if v: "v < length codes" "codes ! v = j" for v
      proof -
        obtain n where "n < length ?vs" "?vs ! n = v" "huff_code codes v = ?c + n"
          using value_position [OF v(1)] v(2) by auto
        then show ?thesis
          using t1(3) [of n] v(2) by (simp add: stream_code_def)
      qed
      then show ?thesis
        using ne t1(1,2) by (intro disjI2 exI [of _ ns1] exI [of _ t1]) (simp add: ch(2,3) code Let_def)
    qed
  qed
  show ?case
  proof (cases "zlib_long_codes w fc (j # js) ns t = Inl Failed")
    case False
    then obtain ns1 t1 where t1: "zlib_long_codes w fc (j # js) ns t = zlib_long_codes w fc js ns1 t1" "keeps t t1"
      "\<And>v. v < length codes \<Longrightarrow> codes ! v = j \<Longrightarrow> long_at t1 (stream_code codes v) (j - 8) v"
      using step by auto
    have l1: "1024 \<le> length t1"
      using keeps_length [OF t1(2)] Cons.prems(2) by simp
    consider "zlib_long_codes w fc js ns1 t1 = Inl Failed"
      | t' where "zlib_long_codes w fc js ns1 t1 = Inr t'" "keeps t1 t'"
        "\<And>v. v < length codes \<Longrightarrow> codes ! v \<in> set js \<Longrightarrow> long_at t' (stream_code codes v) (codes ! v - 8) v"
      using Cons.IH [OF _ l1, of ns1] Cons.prems(1) by auto
    then show ?thesis
    proof cases
      case 2
      have "long_at t' (stream_code codes v) (codes ! v - 8) v" if v: "v < length codes" "codes ! v \<in> set (j # js)" for v
      proof (cases "codes ! v = j")
        case True
        then show ?thesis
          using long_at_keeps [OF t1(3) [OF v(1) True] 2(2) l1] v(1) small j(1) by simp
      qed (use v 2(3) in auto)
      then show ?thesis
        unfolding t1(1) using 2(1) keeps_trans [OF t1(2) 2(2)] by blast
    qed (intro disjI1, simp only: t1(1))
  qed simp
qed simp

section \<open>Looking up a code\<close>

text \<open>The value that the next bits of the input stand for, and how many bits it takes.\<close>

definition zlib_lookup :: "nat list \<Rightarrow> nat \<Rightarrow> (nat \<times> nat) zres" where
  "zlib_lookup table val =
     bind_res (z_at table (val AND 0xff)) (\<lambda>t.
     let b = entry_bits t;
         v = entry_value t
     in if \<not> entry_secondary t then Inr (v, b + 1)
        else
          bind_res (z_at table (v + 0x100 + (drop_bit 8 val AND (push_bit b 1 - 1)))) (\<lambda>t.
          Inr (entry_value t, entry_bits t + 8)))"

lemma lookup_safe: "1024 \<le> length table \<Longrightarrow> \<exists>v b. zlib_lookup table val = Inr (v, b) \<and> v < 512 \<and> 0 < b \<and> b < 16"
proof -
  assume l: "1024 \<le> length table"
  let ?t = "table ! (val mod 256)"
  have low: "val AND 0xff = val mod 256"
    using and_mask_mod [of val 8] by simp
  have "val mod 256 < length table"
    using l mod_less_divisor [of 256 val] by linarith
  moreover have "entry_value ?t + 256 + (drop_bit 8 val AND (2 ^ entry_bits ?t - 1)) < length table"
    using secondary_index [OF _ l, of _ ?t] by (simp add: and_mask_mod [simplified] )
  moreover have "entry_bits p < 15" for p
    using entry_bounds(2) [of p] by simp
  ultimately show ?thesis
    using entry_bounds by (simp add: zlib_lookup_def low z_at_def Let_def push_bit_eq_mult)
qed

lemma lookup_short:
  assumes "short_ok codes table v" and "256 \<le> length table" and "0 < codes ! v" "codes ! v < 9" and "v \<noteq> 0 \<or> codes ! v \<noteq> 1"
    and "x mod 2 ^ (codes ! v) = stream_code codes v"
  shows "zlib_lookup table x = Inr (v, codes ! v)"
proof -
  let ?e = "value_entry v (codes ! v - 1)"
  have low: "x AND 0xff = x mod 256" "x mod 256 < length table"
    using and_mask_mod [of x 8] mod_less_divisor [of 256 x] assms(2) by (simp, linarith)
  have v: "v < 512"
    using assms(1) by (simp add: short_ok_def)
  have "?e \<noteq> 0"
    using assms(3,5) v by (auto simp: value_entry_eq)
  moreover have "x mod 256 mod 2 ^ (codes ! v) = stream_code codes v"
  proof -
    have "(2 :: nat) ^ (codes ! v) dvd 2 ^ 8"
      using assms(4) by (intro le_imp_power_dvd) simp
    then show ?thesis
      using assms(6) by (simp add: mod_mod_cancel)
  qed
  ultimately have "table ! (x mod 256) = ?e"
    using assms(1) mod_less_divisor [of 256 x] by (simp add: short_ok_def)
  then show ?thesis
    using low value_entry_parts [OF v, of "codes ! v - 1"] assms(3,4) by (simp add: zlib_lookup_def z_at_def Let_def)
qed

lemma lookup_long:
  assumes "long_at table r b v" and "1024 \<le> length table" and "0 < b" "b < 8" and "v < 512" and "r < 2 ^ (8 + b)" and "x mod 2 ^ (8 + b) = r"
  shows "zlib_lookup table x = Inr (v, b + 8)"
proof -
  let ?p = "table ! (r mod 256)"
  have p: "entry_secondary ?p" "b \<le> entry_bits ?p"
    "\<And>i. i < 2 ^ entry_bits ?p \<Longrightarrow> i mod 2 ^ b = r div 256 \<Longrightarrow> table ! (entry_value ?p + 256 + i) = value_entry v b"
    using assms(1) by (auto simp: long_at_def Let_def)
  have x: "x mod (256 * 2 ^ b) = r"
    using assms(7) by (simp add: power_add)
  have low: "x AND 0xff = x mod 256" "x mod 256 = r mod 256" "r mod 256 < length table"
    using and_mask_mod [of x 8] x assms(2) mod_less_divisor [of 256 r] by (simp, metis mod_mult_right_eq mod_mod_cancel dvd_triv_left, linarith)
  let ?i = "x div 256 mod 2 ^ entry_bits ?p"
  have i: "drop_bit 8 x AND (push_bit (entry_bits ?p) 1 - 1) = ?i"
    by (simp add: drop_bit_eq_div push_bit_eq_mult and_mask_mod [simplified])
  have "?i mod 2 ^ b = x div 256 mod 2 ^ b"
    using p(2) by (simp add: mod_mod_cancel le_imp_power_dvd)
  also have "\<dots> = r div 256"
    using x mod_mult2_eq [of x 256 "2 ^ b"] by auto
  finally have "table ! (entry_value ?p + 256 + ?i) = value_entry v b"
    using p(3) [of ?i] by simp
  moreover have "entry_value ?p + 256 + ?i < length table"
    using secondary_index [OF _ assms(2), of ?i ?p] by simp
  ultimately show ?thesis
    using low i p(1) value_entry_parts [OF assms(5,4)] by (simp add: zlib_lookup_def z_at_def Let_def)
qed

lemma inflate_table_spec:
  assumes "length codes \<le> length work" and "length codes \<le> 512"
  shows "elf_zlib_inflate_table codes work = Inl Failed
    \<or> (\<exists>table work'. elf_zlib_inflate_table codes work = Inr (table, work') \<and> length table = 1024 \<and> length work' = length work
        \<and> (\<forall>v x. v < length codes \<and> 0 < codes ! v \<and> (v \<noteq> 0 \<or> codes ! v \<noteq> 1) \<and> x mod 2 ^ (codes ! v) = stream_code codes v \<longrightarrow>
             zlib_lookup table x = Inr (v, codes ! v)))"
proof (cases "elf_zlib_inflate_table codes work = Inl Failed")
  case False
  let ?w = "\<lparr>zcount = replicate 16 0, zstart = replicate 16 0, zprev = replicate 16 0, znext = work\<rparr>"
  let ?long = "\<lambda>w table fc. bind_res (zlib_long_codes w fc (rev [9..<16]) 0 table) (\<lambda>table. Inr (table, znext w))"
  let ?first = "\<lambda>w (code, table). bind_res (zlib_firstcodes w [9..<16] code (replicate 7 0)) (?long w table)"
  let ?short = "\<lambda>w. bind_res (zlib_short_codes w [1..<9] 0 (replicate 1024 0)) (?first w)"
  have run: "elf_zlib_inflate_table codes work = bind_res (zlib_count_codes 0 codes ?w) ?short"
    by (simp only: elf_zlib_inflate_table_def Let_def ZLIB_HUFFMAN_TABLE_SIZE_def)
  have stage: "m \<noteq> Inl Failed" if "elf_zlib_inflate_table codes work = bind_res m f" for m :: "'x zres" and f
    using that False by (metis bind_res_simps(1))
  obtain w where w: "zlib_count_codes 0 codes ?w = Inr w" "counted codes w" "length (znext w) = length work" "\<forall>c \<in> set codes. c < 16"
    using count_codes_counted [OF counted_initial [of work], of codes] assms(1) stage [OF run] by auto
  have run1: "elf_zlib_inflate_table codes work = ?short w"
    by (simp only: run w(1) bind_res_simps)
  have init: "rev_bits 1 (first_code codes 1) = 0"
    by simp
  have none: "\<forall>v < length codes. 0 < codes ! v \<and> codes ! v < 1 \<longrightarrow> short_ok codes (replicate 1024 0) v"
    by auto
  obtain t1 where t1: "zlib_short_codes w [1..<9] 0 (replicate 1024 0) = Inr (rev_bits 9 (first_code codes 9), t1)" "length t1 = 1024"
    "\<And>v. v < length codes \<Longrightarrow> 0 < codes ! v \<Longrightarrow> codes ! v < 9 \<Longrightarrow> short_ok codes t1 v"
    using short_codes_spec [OF w(2) _ _ _ none, unfolded init] stage [OF run1] by (auto simp del: zlib_short_codes.simps)
  have run2: "elf_zlib_inflate_table codes work = bind_res (zlib_firstcodes w [9..<16] (rev_bits 9 (first_code codes 9)) (replicate 7 0)) (?long w t1)"
    by (simp only: run1 t1(1) bind_res_simps prod.case)
  obtain fc where fc: "zlib_firstcodes w [9..<16] (rev_bits 9 (first_code codes 9)) (replicate 7 0) = Inr fc"
    "\<forall>i. 9 \<le> i \<and> i < 16 \<and> values_of codes i \<noteq> [] \<longrightarrow> fc ! (i - 9) = rev_bits i (first_code codes i)"
    using firstcodes_spec [OF w(2), of 9 "replicate 7 0"] stage [OF run2] by (auto simp del: zlib_firstcodes.simps upt_rec_numeral)
  have run3: "elf_zlib_inflate_table codes work = ?long w t1 fc"
    by (simp only: run2 fc(1) bind_res_simps)
  have js: "\<forall>j \<in> set (rev [9..<16]). 9 \<le> j \<and> j < 16" and l1: "1024 \<le> length t1"
    using t1(2) by auto
  obtain table where t: "zlib_long_codes w fc (rev [9..<16]) 0 t1 = Inr table" "keeps t1 table"
    "\<And>v. v < length codes \<Longrightarrow> codes ! v \<in> set (rev [9..<16]) \<Longrightarrow> long_at table (stream_code codes v) (codes ! v - 8) v"
    using long_codes_spec [OF w(2) assms(2) js l1 fc(2), of 0] stage [OF run3] by blast
  have len: "length table = 1024"
    using keeps_length [OF t(2)] t1(2) by simp
  have "zlib_lookup table x = Inr (v, codes ! v)"
    if v: "v < length codes" "0 < codes ! v" "v \<noteq> 0 \<or> codes ! v \<noteq> 1" "x mod 2 ^ (codes ! v) = stream_code codes v" for v x
  proof (cases "codes ! v < 9")
    case True
    have "short_ok codes table v"
      by (rule short_ok_keeps [OF t1(3) [OF v(1,2) True] t(2)]) (simp add: t1(2))
    then show ?thesis
      by (rule lookup_short) (use True v len in auto)
  next
    case False
    then have j: "codes ! v \<in> set (rev [9..<16])" "8 + (codes ! v - 8) = codes ! v"
      using w(4) v(1) nth_mem by fastforce+
    have "stream_code codes v < 2 ^ (codes ! v)"
      unfolding stream_code_def by (rule rev_bits_less)
    then have "zlib_lookup table x = Inr (v, codes ! v - 8 + 8)"
      using v(1,4) assms(2) j False by (intro lookup_long [OF t(3) [OF v(1) j(1)]]) (auto simp: len)
    then show ?thesis
      using False by simp
  qed
  moreover have "elf_zlib_inflate_table codes work = Inr (table, znext w)"
    by (simp only: run3 t(1) bind_res_simps)
  ultimately show ?thesis
    using len w(3) by auto
qed simp


text \<open>Three values with codes of eight, eight and nine bits; the last one needs a secondary table.\<close>

definition example_work :: zlib_work where
  "example_work = \<lparr>zcount = (replicate 16 0)[8 := Suc (Suc 0), 9 := Suc 0], zstart = (replicate 16 0)[8 := 0, 9 := 2],
     zprev = (replicate 16 0)[8 := 1, 9 := 2], znext = [1, 0, 0]\<rparr>"

definition example_table :: "nat list" where
  "example_table = (replicate 1024 0)[0 := value_entry 0 7, 128 := value_entry 1 7, 64 := table_entry 0 1, 256 := value_entry 2 1]"

lemma fill_once:
  "ind < lim \<Longrightarrow> lim \<le> ind + step \<Longrightarrow> base + ind < length t \<Longrightarrow> t ! (base + ind) = 0 \<Longrightarrow>
    zlib_fill base tval lim step ind t = Inr (t[base + ind := tval])"
  by (subst zlib_fill.simps) (simp add: z_at_def z_set_def zlib_fill.simps [of base tval lim step "ind + step"])

lemma example_counts:
  "zlib_count_codes 0 [8, 8, 9] \<lparr>zcount = replicate 16 0, zstart = replicate 16 0, zprev = replicate 16 0, znext = [0, 0, 0]\<rparr> =
     Inr example_work"
  by (simp add: zlib_count_code_def z_set_def numeral_2_eq_2 example_work_def)

lemma example_next: "zlib_next_code 8 0 = 128" "zlib_next_code 8 128 = 64"
  using next_code_rev [of 8 0] next_code_rev [of 8 1] by (simp_all add: numeral_eq_Suc)

lemma example_short:
  "zlib_short_codes example_work [1..<9] 0 (replicate 1024 0) = Inr (64, (replicate 1024 0)[0 := value_entry 0 7, 128 := value_entry 1 7])"
proof -
  have u: "[1..<9] = [1, 2, 3, 4, 5, 6, 7, 8 :: nat]"
    by (simp add: upt_rec)
  show ?thesis
    unfolding u
    by (simp add: example_work_def example_next fill_once z_at_def ZLIB_HUFFMAN_VALUE_MASK_def push_bit_eq_mult Let_def value_entry_def)
qed

lemma example_first: "zlib_firstcodes example_work [9..<16] 64 (replicate 7 0) = Inr ((replicate 7 0)[0 := 64])"
proof -
  have u: "[9..<16] = [9, 10, 11, 12, 13, 14, 15 :: nat]" "[0..<9] = [0, 1, 2, 3, 4, 5, 6, 7, 8 :: nat]"
    by (simp_all add: upt_rec)
  show ?thesis
    unfolding u by (simp add: example_work_def u Let_def bit_0)
qed

lemma example_long:
  "zlib_long_codes example_work ((replicate 7 0)[0 := 64]) (rev [9..<16]) 0 ((replicate 1024 0)[0 := value_entry 0 7, 128 := value_entry 1 7]) = Inr example_table"
proof -
  have u: "rev [9..<16] = [15, 14, 13, 12, 11, 10, 9 :: nat]"
    by (simp add: upt_rec)
  show ?thesis
    unfolding u
    by (simp add: example_work_def example_table_def zlib_primary_def z_at_def z_set_def fill_once push_bit_eq_mult drop_bit_eq_div
        ZLIB_HUFFMAN_VALUE_MASK_def Let_def list_update_swap value_entry_def table_entry_def)
qed

lemma example_built: "elf_zlib_inflate_table [8, 8, 9] [0, 0, 0] = Inr (example_table, [1, 0, 0])"
  unfolding elf_zlib_inflate_table_def Let_def ZLIB_HUFFMAN_TABLE_SIZE_def example_counts
  by (simp only: bind_res_simps example_short example_first example_long prod.case) (simp add: example_work_def)


end
