(* ===== verification/Backtrace_Checksum.thy ===== *)
theory Backtrace_Checksum
  imports Prelude
begin

text \<open>
  The checksums of the backtrace library (\<^verbatim>\<open>src/dwarf/elf.c\<close>): the CRC-32 with which a
  separate debug file is recognised, computed with a table, and the Adler-32 at the end of
  a zlib stream, computed with as few modulo operations as 32 bits allow. Both are shown to be the
  checksum that their definition bit by bit and byte by byte gives.
\<close>

section \<open>CRC-32\<close>

definition crc32_table :: "u32 list" where
  "crc32_table =
    [
     0x00000000, 0x77073096, 0xee0e612c, 0x990951ba, 0x076dc419, 0x706af48f, 0xe963a535, 0x9e6495a3,
     0x0edb8832, 0x79dcb8a4, 0xe0d5e91e, 0x97d2d988, 0x09b64c2b, 0x7eb17cbd, 0xe7b82d07, 0x90bf1d91,
     0x1db71064, 0x6ab020f2, 0xf3b97148, 0x84be41de, 0x1adad47d, 0x6ddde4eb, 0xf4d4b551, 0x83d385c7,
     0x136c9856, 0x646ba8c0, 0xfd62f97a, 0x8a65c9ec, 0x14015c4f, 0x63066cd9, 0xfa0f3d63, 0x8d080df5,
     0x3b6e20c8, 0x4c69105e, 0xd56041e4, 0xa2677172, 0x3c03e4d1, 0x4b04d447, 0xd20d85fd, 0xa50ab56b,
     0x35b5a8fa, 0x42b2986c, 0xdbbbc9d6, 0xacbcf940, 0x32d86ce3, 0x45df5c75, 0xdcd60dcf, 0xabd13d59,
     0x26d930ac, 0x51de003a, 0xc8d75180, 0xbfd06116, 0x21b4f4b5, 0x56b3c423, 0xcfba9599, 0xb8bda50f,
     0x2802b89e, 0x5f058808, 0xc60cd9b2, 0xb10be924, 0x2f6f7c87, 0x58684c11, 0xc1611dab, 0xb6662d3d,
     0x76dc4190, 0x01db7106, 0x98d220bc, 0xefd5102a, 0x71b18589, 0x06b6b51f, 0x9fbfe4a5, 0xe8b8d433,
     0x7807c9a2, 0x0f00f934, 0x9609a88e, 0xe10e9818, 0x7f6a0dbb, 0x086d3d2d, 0x91646c97, 0xe6635c01,
     0x6b6b51f4, 0x1c6c6162, 0x856530d8, 0xf262004e, 0x6c0695ed, 0x1b01a57b, 0x8208f4c1, 0xf50fc457,
     0x65b0d9c6, 0x12b7e950, 0x8bbeb8ea, 0xfcb9887c, 0x62dd1ddf, 0x15da2d49, 0x8cd37cf3, 0xfbd44c65,
     0x4db26158, 0x3ab551ce, 0xa3bc0074, 0xd4bb30e2, 0x4adfa541, 0x3dd895d7, 0xa4d1c46d, 0xd3d6f4fb,
     0x4369e96a, 0x346ed9fc, 0xad678846, 0xda60b8d0, 0x44042d73, 0x33031de5, 0xaa0a4c5f, 0xdd0d7cc9,
     0x5005713c, 0x270241aa, 0xbe0b1010, 0xc90c2086, 0x5768b525, 0x206f85b3, 0xb966d409, 0xce61e49f,
     0x5edef90e, 0x29d9c998, 0xb0d09822, 0xc7d7a8b4, 0x59b33d17, 0x2eb40d81, 0xb7bd5c3b, 0xc0ba6cad,
     0xedb88320, 0x9abfb3b6, 0x03b6e20c, 0x74b1d29a, 0xead54739, 0x9dd277af, 0x04db2615, 0x73dc1683,
     0xe3630b12, 0x94643b84, 0x0d6d6a3e, 0x7a6a5aa8, 0xe40ecf0b, 0x9309ff9d, 0x0a00ae27, 0x7d079eb1,
     0xf00f9344, 0x8708a3d2, 0x1e01f268, 0x6906c2fe, 0xf762575d, 0x806567cb, 0x196c3671, 0x6e6b06e7,
     0xfed41b76, 0x89d32be0, 0x10da7a5a, 0x67dd4acc, 0xf9b9df6f, 0x8ebeeff9, 0x17b7be43, 0x60b08ed5,
     0xd6d6a3e8, 0xa1d1937e, 0x38d8c2c4, 0x4fdff252, 0xd1bb67f1, 0xa6bc5767, 0x3fb506dd, 0x48b2364b,
     0xd80d2bda, 0xaf0a1b4c, 0x36034af6, 0x41047a60, 0xdf60efc3, 0xa867df55, 0x316e8eef, 0x4669be79,
     0xcb61b38c, 0xbc66831a, 0x256fd2a0, 0x5268e236, 0xcc0c7795, 0xbb0b4703, 0x220216b9, 0x5505262f,
     0xc5ba3bbe, 0xb2bd0b28, 0x2bb45a92, 0x5cb36a04, 0xc2d7ffa7, 0xb5d0cf31, 0x2cd99e8b, 0x5bdeae1d,
     0x9b64c2b0, 0xec63f226, 0x756aa39c, 0x026d930a, 0x9c0906a9, 0xeb0e363f, 0x72076785, 0x05005713,
     0x95bf4a82, 0xe2b87a14, 0x7bb12bae, 0x0cb61b38, 0x92d28e9b, 0xe5d5be0d, 0x7cdcefb7, 0x0bdbdf21,
     0x86d3d2d4, 0xf1d4e242, 0x68ddb3f8, 0x1fda836e, 0x81be16cd, 0xf6b9265b, 0x6fb077e1, 0x18b74777,
     0x88085ae6, 0xff0f6a70, 0x66063bca, 0x11010b5c, 0x8f659eff, 0xf862ae69, 0x616bffd3, 0x166ccf45,
     0xa00ae278, 0xd70dd2ee, 0x4e048354, 0x3903b3c2, 0xa7672661, 0xd06016f7, 0x4969474d, 0x3e6e77db,
     0xaed16a4a, 0xd9d65adc, 0x40df0b66, 0x37d83bf0, 0xa9bcae53, 0xdebb9ec5, 0x47b2cf7f, 0x30b5ffe9,
     0xbdbdf21c, 0xcabac28a, 0x53b39330, 0x24b4a3a6, 0xbad03605, 0xcdd70693, 0x54de5729, 0x23d967bf,
     0xb3667a2e, 0xc4614ab8, 0x5d681b02, 0x2a6f2b94, 0xb40bbe37, 0xc30c8ea1, 0x5a05df1b, 0x2d02ef8d
    ]"

definition crc32_step :: "u32 \<Rightarrow> u8 \<Rightarrow> u32" where
  "crc32_step crc b = crc32_table ! unat ((crc XOR ucast b) AND 0xff) XOR drop_bit 8 crc"

definition elf_crc32 :: "u32 \<Rightarrow> u8 list \<Rightarrow> u32" where
  "elf_crc32 crc buf = NOT (foldl crc32_step (NOT crc) buf)"

text \<open>The definition: a shift register with the reversed polynomial \<^verbatim>\<open>0xedb88320\<close>, which takes the bits of a byte from the lowest on.\<close>

definition crc_shift :: "u32 \<Rightarrow> u32" where
  "crc_shift r = (if bit r 0 then drop_bit 1 r XOR 0xedb88320 else drop_bit 1 r)"

definition crc_byte :: "u32 \<Rightarrow> u8 \<Rightarrow> u32" where
  "crc_byte r b = (crc_shift ^^ 8) (r XOR ucast b)"

definition crc32_reference :: "u8 list \<Rightarrow> u32" where
  "crc32_reference buf = NOT (foldl crc_byte (NOT 0) buf)"

lemma crc_shift_xor: "crc_shift (x XOR y) = crc_shift x XOR crc_shift y"
  by (auto simp: crc_shift_def bit_xor_iff drop_bit_xor ac_simps)

lemma crc_shifts_xor: "(crc_shift ^^ n) (x XOR y) = (crc_shift ^^ n) x XOR (crc_shift ^^ n) y"
  by (induction n) (simp_all add: crc_shift_xor)

lemma crc_shifts_zero: "(\<And>i. i < n \<Longrightarrow> \<not> bit x i) \<Longrightarrow> (crc_shift ^^ n) x = drop_bit n x"
proof (induction n)
  case (Suc n)
  then have "(crc_shift ^^ n) x = drop_bit n x"
    by simp
  then show ?case
    using Suc.prems [of n] by (simp add: crc_shift_def [of "drop_bit n x"] bit_drop_bit_eq)
qed simp

text \<open>By linearity, the table is spanned by its entries at the powers of two.\<close>

lemma of_nat_xor_power: "i < 2 ^ n \<Longrightarrow> (of_nat (2 ^ n + i) :: u32) = of_nat i XOR 2 ^ n"
proof -
  assume "i < 2 ^ n"
  then have "i AND 2 ^ n = 0"
    by (simp add: and_exp_eq_0_iff_not_bit bit_iff_odd)
  then have "2 ^ n + i = i XOR 2 ^ n"
    using disjunctive_add_eq_xor [of i "2 ^ n"] by (simp add: ac_simps)
  moreover have "(of_nat (i XOR 2 ^ n) :: u32) = of_nat i XOR of_nat (2 ^ n)"
    by (rule bit_word_eqI) (auto simp: bit_simps simp del: of_nat_power)
  ultimately show ?thesis
    by (simp del: of_nat_add)
qed

lemma linear_span:
  fixes f :: "u32 \<Rightarrow> u32"
  assumes "\<And>x y. f (x XOR y) = f x XOR f y"
  shows "map (\<lambda>i. f (of_nat i)) [0..<2 ^ n] = foldl (\<lambda>t b. t @ map (\<lambda>x. x XOR b) t) [0] (map (\<lambda>j. f (2 ^ j)) [0..<n])"
proof (induction n)
  case 0
  have "f 0 = 0"
    using assms [of 0 0] by simp
  then show ?case
    by simp
next
  case (Suc n)
  let ?t = "map (\<lambda>i. f (of_nat i)) [0..<2 ^ n]"
  have "[0..<2 ^ n + 2 ^ n] = [0..<2 ^ n] @ [2 ^ n..<2 ^ n + 2 ^ n]"
    by (rule upt_add_eq_append) simp
  also have "[2 ^ n..<2 ^ n + 2 ^ n] = map (\<lambda>i. i + 2 ^ n) [0..<2 ^ n]"
    by (rule map_add_upt [symmetric])
  also have "(2 :: nat) ^ n + 2 ^ n = 2 ^ Suc n"
    by simp
  finally have "map (\<lambda>i. f (of_nat i)) [0..<2 ^ Suc n] = ?t @ map (\<lambda>i. f (of_nat (2 ^ n + i))) [0..<2 ^ n]"
    by (simp only: map_append map_map comp_def add.commute)
  also have "\<dots> = ?t @ map (\<lambda>x. x XOR f (2 ^ n)) ?t"
    by (simp add: of_nat_xor_power assms del: of_nat_add)
  finally show ?case
    by (simp add: Suc.IH)
qed

lemma table_basis:
  "map (\<lambda>j. (crc_shift ^^ 8) (2 ^ j)) [0..<8] =
    [0x77073096, 0xee0e612c, 0x076dc419, 0x0edb8832, 0x1db71064, 0x3b6e20c8, 0x76dc4190, 0xedb88320]"
proof -
  have eight: "(crc_shift ^^ 8) x = crc_shift (crc_shift (crc_shift (crc_shift (crc_shift (crc_shift (crc_shift (crc_shift x)))))))" for x
    by (simp add: numeral_eq_Suc)
  have "[0..<8] = [0, 1, 2, 3, 4, 5, 6, 7]"
    by (simp add: upt_rec)
  then show ?thesis
    unfolding eight by (simp add: crc_shift_def)
qed

lemma table_entries: "map (\<lambda>i. (crc_shift ^^ 8) (of_nat i)) [0..<2 ^ 8] = crc32_table"
  unfolding linear_span [of "crc_shift ^^ 8" 8, OF crc_shifts_xor, unfolded table_basis] crc32_table_def by simp

lemma byte_mask: "(0xff :: u32) = mask 8"
  by (simp add: mask_eq_exp_minus_1)

lemma table_step: "crc32_table ! unat (x AND 0xff) = (crc_shift ^^ 8) (x AND 0xff)"
proof -
  have "x AND 0xff = take_bit 8 x"
    unfolding byte_mask by (simp add: take_bit_eq_mask)
  then have "unat (x AND 0xff) < 2 ^ 8"
    using take_bit_nat_less_exp [of 8 "unat x"] by (simp add: unsigned_take_bit_eq)
  then show ?thesis
    unfolding table_entries [symmetric] by simp
qed

lemma crc32_step_is_byte: "crc32_step r b = crc_byte r b"
proof -
  let ?x = "r XOR ucast b"
  have x: "?x = (?x AND 0xff) XOR (?x AND NOT 0xff)"
    by (intro bit_word_eqI) (auto simp: bit_simps)
  have "(crc_shift ^^ 8) (?x AND NOT 0xff) = drop_bit 8 (?x AND NOT 0xff)"
    unfolding byte_mask by (rule crc_shifts_zero) (simp add: bit_simps)
  also have "drop_bit 8 (?x AND NOT 0xff) = drop_bit 8 r"
    unfolding byte_mask by (intro bit_word_eqI) (auto simp: bit_simps dest: bit_imp_le_length)
  finally show ?thesis
    unfolding crc_byte_def crc32_step_def table_step by (subst x) (simp only: crc_shifts_xor)
qed

text \<open>
  C36: the table-driven checksum of a buffer is the CRC-32 of the buffer, computed bit by bit.
\<close>

theorem elf_crc32_is_crc32: "elf_crc32 0 buf = crc32_reference buf"
  by (simp add: elf_crc32_def crc32_reference_def crc32_step_is_byte cong: foldl_cong)

section \<open>Adler-32\<close>

type_synonym adler = "u32 \<times> u32"

text \<open>\<^verbatim>\<open>s1 = s1 + *p++; s2 = s2 + s1;\<close>\<close>

definition adler_step :: "adler \<Rightarrow> u8 \<Rightarrow> adler" where
  "adler_step s b = (let (s1, s2) = s; s1 = s1 + ucast b; s2 = s2 + s1 in (s1, s2))"

definition adler_mod :: "adler \<Rightarrow> adler" where
  "adler_mod s = (let (s1, s2) = s in (s1 mod 65521, s2 mod 65521))"

text \<open>The unrolled body: sixteen bytes, \<open>k\<close> times.\<close>

fun adler_unrolled :: "nat \<Rightarrow> u8 list \<Rightarrow> adler \<Rightarrow> u8 list \<times> adler" where
  "adler_unrolled 0 p s = (p, s)"
| "adler_unrolled (Suc k) p s = adler_unrolled k (drop 16 p) (foldl adler_step s (take 16 p))"

lemma adler_unrolled_rest: "fst (adler_unrolled k p s) = drop (16 * k) p"
  by (induction k arbitrary: p s) (simp_all add: drop_drop ac_simps)

text \<open>The three loops: 5552 bytes between two reductions, then sixteen bytes at a time, then one by one.\<close>

function adler_blocks :: "u8 list \<Rightarrow> adler \<Rightarrow> u8 list \<times> adler" where
  "adler_blocks p s =
     (if length p \<ge> 5552 then
        let (p, s) = adler_unrolled (5552 div 16) p s
        in adler_blocks p (adler_mod s)
      else (p, s))"
  by pat_completeness auto
termination
  by (relation "measure (\<lambda>(p, s). length p)")
    (auto dest!: arg_cong [where f = fst] simp: adler_unrolled_rest)

declare adler_blocks.simps [simp del]

function adler_rows :: "u8 list \<Rightarrow> adler \<Rightarrow> u8 list \<times> adler" where
  "adler_rows p s =
     (if length p \<ge> 16 then
        let (p, s) = adler_unrolled 1 p s
        in adler_rows p s
      else (p, s))"
  by pat_completeness auto
termination
  by (relation "measure (\<lambda>(p, s). length p)")
    (auto dest!: arg_cong [where f = fst] simp: adler_unrolled_rest)

declare adler_rows.simps [simp del]

definition elf_zlib_verify_checksum :: "u8 list \<Rightarrow> u8 list \<Rightarrow> bool" where
  "elf_zlib_verify_checksum checkbytes uncompressed =
     (let cksum = foldl (\<lambda>c b. push_bit 8 c OR ucast b) (0 :: u32) (take 4 checkbytes);
          (p, s) = adler_blocks uncompressed (1, 0);
          (p, s) = adler_rows p s;
          s = foldl adler_step s p;
          (s1, s2) = adler_mod s
      in push_bit 16 s2 + s1 = cksum)"

text \<open>The definition of the checksum (RFC 1950): two sums modulo 65521.\<close>

fun adler32_sums :: "nat \<times> nat \<Rightarrow> u8 list \<Rightarrow> nat \<times> nat" where
  "adler32_sums (a, b) [] = (a, b)"
| "adler32_sums (a, b) (x # xs) = (let a = (a + unat x) mod 65521 in adler32_sums (a, (b + a) mod 65521) xs)"

definition adler32 :: "u8 list \<Rightarrow> nat" where
  "adler32 xs = (let (a, b) = adler32_sums (1, 0) xs in b * 65536 + a)"

text \<open>How many more bytes can be added to the sums before they overflow 32 bits.\<close>

definition room :: "adler \<Rightarrow> nat \<Rightarrow> bool" where
  "room s n \<longleftrightarrow> unat (fst s) + 255 * n < 2 ^ 32 \<and> 2 * unat (snd s) + 2 * n * unat (fst s) + 255 * n * (n + 1) < 2 ^ 33"

definition sums_rel :: "adler \<Rightarrow> nat \<times> nat \<Rightarrow> bool" where
  "sums_rel s ab \<longleftrightarrow> unat (fst s) mod 65521 = fst ab \<and> unat (snd s) mod 65521 = snd ab"

lemma unat_u8_le: "unat (b :: u8) \<le> 255"
  using unsigned_less [of b, where 'a = nat] by simp

lemma unat_ucast_byte [simp]: "unat (ucast (b :: u8) :: u32) = unat b"
  using unat_u8_le [of b] by (simp add: unsigned_ucast_eq take_bit_nat_eq_self)

lemma adler_step_room:
  assumes "room s (Suc n)"
  shows "unat (fst (adler_step s b)) = unat (fst s) + unat b"
    and "unat (snd (adler_step s b)) = unat (snd s) + (unat (fst s) + unat b)"
    and "room (adler_step s b) n"
proof -
  obtain s1 s2 where s: "s = (s1, s2)"
    by fastforce
  have b: "unat b \<le> 255"
    by (rule unat_u8_le)
  have r: "unat s1 + 255 * Suc n < 2 ^ 32" "2 * unat s2 + 2 * Suc n * unat s1 + 255 * Suc n * (Suc n + 1) < 2 ^ 33"
    using assms by (simp_all add: room_def s)
  have 1: "unat (s1 + ucast b) = unat s1 + unat b"
    using r(1) b by (simp add: unat_word_ariths)
  have x: "2 * unat b + 2 * n * unat b \<le> 510 + 510 * n"
  proof -
    have "2 * n * unat b \<le> 2 * n * 255"
      by (rule mult_le_mono2 [OF b])
    then show ?thesis
      using b by linarith
  qed
  have 2: "unat (s2 + (s1 + ucast b)) = unat s2 + (unat s1 + unat b)"
    using r(2) b 1 by (simp add: unat_word_ariths(1) [of s2])
  show "unat (fst (adler_step s b)) = unat (fst s) + unat b" "unat (snd (adler_step s b)) = unat (snd s) + (unat (fst s) + unat b)"
    using 1 2 by (simp_all add: adler_step_def s Let_def)
  show "room (adler_step s b) n"
    using r x 1 2 b by (simp add: room_def adler_step_def s Let_def algebra_simps)
qed

lemma adler_fold:
  "room s (length xs) \<Longrightarrow> sums_rel s ab \<Longrightarrow> sums_rel (foldl adler_step s xs) (adler32_sums ab xs)"
proof (induction xs arbitrary: s ab)
  case Nil
  then show ?case
    by (cases ab) simp
next
  case (Cons x xs)
  obtain a b where ab: "ab = (a, b)"
    by fastforce
  have r: "room s (Suc (length xs))"
    using Cons.prems(1) by simp
  have m: "(y + (w + z)) mod 65521 = (y mod 65521 + (w mod 65521 + z) mod 65521) mod 65521" for w y z :: nat
    by (simp only: mod_add_left_eq mod_add_right_eq mod_add_eq)
  have "sums_rel (adler_step s x) ((a + unat x) mod 65521, (b + (a + unat x) mod 65521) mod 65521)"
    using Cons.prems(2) adler_step_room(1,2) [OF r, of x] 
    by (auto simp: sums_rel_def ab m mod_add_left_eq)
  then show ?case
    using Cons.IH [OF adler_step_room(3) [OF r]] by (simp add: ab Let_def)
qed

lemma adler_unrolled_fold: "adler_unrolled k p s = (drop (16 * k) p, foldl adler_step s (take (16 * k) p))"
proof (induction k arbitrary: p s)
  case (Suc k)
  have "take (16 + 16 * k) p = take 16 p @ take (16 * k) (drop 16 p)"
    by (rule take_add)
  then show ?case
    by (simp add: Suc.IH drop_drop ac_simps)
qed simp

definition reduced :: "adler \<Rightarrow> bool" where
  "reduced s \<longleftrightarrow> unat (fst s) < 65521 \<and> unat (snd s) < 65521"

lemma reduced_room: "reduced s \<Longrightarrow> n \<le> 5552 \<Longrightarrow> room s n"
proof -
  assume s: "reduced s" and n: "n \<le> 5552"
  have "n * unat (fst s) \<le> 5552 * 65520" "n * (n + 1) \<le> 5552 * 5553"
    by (rule mult_le_mono; use s n in \<open>simp add: reduced_def\<close>)+
  then show ?thesis
    using s n by (simp add: room_def reduced_def)
qed

lemma adler_mod_reduced [simp]: "reduced (adler_mod s)"
  by (cases s) (simp add: reduced_def adler_mod_def unat_mod_distrib)

lemma adler_mod_rel [simp]: "sums_rel (adler_mod s) ab = sums_rel s ab"
  by (cases s) (simp add: sums_rel_def adler_mod_def unat_mod_distrib)

lemma adler_sums_append: "adler32_sums ab (xs @ ys) = adler32_sums (adler32_sums ab xs) ys"
  by (induction ab xs rule: adler32_sums.induct) (simp_all add: Let_def)

lemma adler_blocks_sums:
  "reduced s \<Longrightarrow> sums_rel s ab \<Longrightarrow> adler_blocks p s = (q, t) \<Longrightarrow>
    \<exists>xs. p = xs @ q \<and> length q < 5552 \<and> reduced t \<and> sums_rel t (adler32_sums ab xs)"
proof (induction p s arbitrary: ab rule: adler_blocks.induct)
  case (1 p s)
  show ?case
  proof (cases "length p \<ge> 5552")
    case False
    then show ?thesis
      using 1(2-4) by (subst (asm) adler_blocks.simps) (cases ab, auto)
  next
    case True
    let ?s = "adler_mod (foldl adler_step s (take 5552 p))"
    have rel: "sums_rel ?s (adler32_sums ab (take 5552 p))"
      using adler_fold [of s "take 5552 p" ab] reduced_room [OF 1(2)] 1(3) True by simp
    have "adler_blocks (drop 5552 p) ?s = (q, t)"
      using 1(4) True by (subst (asm) adler_blocks.simps) (simp add: adler_unrolled_fold)
    from 1(1) [OF True _ refl adler_mod_reduced rel this]
    obtain xs where "drop 5552 p = xs @ q" "length q < 5552" "reduced t" "sums_rel t (adler32_sums (adler32_sums ab (take 5552 p)) xs)"
      by (auto simp: adler_unrolled_fold)
    moreover have "p = (take 5552 p @ xs) @ q"
      using calculation(1) by (metis append.assoc append_take_drop_id)
    ultimately show ?thesis
      by (metis adler_sums_append)
  qed
qed

lemma adler_rows_fold: "adler_rows p s = (q, t) \<Longrightarrow> foldl adler_step t q = foldl adler_step s p"
proof (induction p s rule: adler_rows.induct)
  case (1 p s)
  show ?case
  proof (cases "length p \<ge> 16")
    case True
    then have "adler_rows (drop 16 p) (foldl adler_step s (take 16 p)) = (q, t)"
      using 1(2) by (subst (asm) adler_rows.simps) (simp add: adler_unrolled_fold del: adler_unrolled.simps One_nat_def)
    from 1(1) [OF True _ refl this] show ?thesis
      by (simp add: adler_unrolled_fold flip: foldl_append del: adler_unrolled.simps One_nat_def)
  next
    case False
    then show ?thesis
      using 1(2) by (subst (asm) adler_rows.simps) simp
  qed
qed

text \<open>The four bytes of the expected checksum, most significant first.\<close>

definition of_be_bytes :: "u8 list \<Rightarrow> nat" where
  "of_be_bytes bs = foldl (\<lambda>c b. 256 * c + unat b) 0 bs"

lemma push_byte:
  assumes "unat (c :: u32) < 2 ^ 24"
  shows "unat (push_bit 8 c OR ucast (b :: u8)) = 256 * unat c + unat b"
proof -
  have "push_bit 8 c AND ucast b = 0"
    by (rule bit_word_eqI) (auto simp: bit_simps dest: bit_imp_le_length)
  then have "push_bit 8 c OR ucast b = push_bit 8 c + ucast b"
    by (simp add: disjunctive_add_eq_or)
  moreover have "unat (push_bit 8 c) = 256 * unat c"
    using assms by (simp add: push_bit_eq_mult unat_word_ariths)
  ultimately show ?thesis
    using assms unat_u8_le [of b] by (simp add: unat_word_ariths)
qed

lemma push_bytes:
  "unat (c :: u32) < 256 ^ m \<Longrightarrow> m + length bs \<le> 4 \<Longrightarrow>
    unat (foldl (\<lambda>c b. push_bit 8 c OR ucast (b :: u8)) c bs) = foldl (\<lambda>c b. 256 * c + unat b) (unat c) bs"
proof (induction bs arbitrary: c m)
  case (Cons b bs)
  have "(256 :: nat) ^ m \<le> 256 ^ 3"
    using Cons.prems(2) by (intro power_increasing) auto
  then have "unat c < 2 ^ 24"
    using Cons.prems(1) by simp
  then have e: "unat (push_bit 8 c OR ucast b) = 256 * unat c + unat b"
    by (rule push_byte)
  then have "unat (push_bit 8 c OR ucast b) < 256 ^ Suc m"
    using Cons.prems(1) unat_u8_le [of b] by simp
  then show ?case
    using Cons.IH [of "push_bit 8 c OR ucast b" "Suc m"] Cons.prems(2) e by simp
qed simp

lemma adler32_bound: "a < 65521 \<Longrightarrow> b < 65521 \<Longrightarrow> adler32_sums (a, b) xs = (a', b') \<Longrightarrow> a' < 65521 \<and> b' < 65521"
  by (induction "(a, b)" xs arbitrary: a b rule: adler32_sums.induct) (auto simp: Let_def)

lemma verify_checksum_spec:
  "elf_zlib_verify_checksum checkbytes data \<longleftrightarrow> of_be_bytes (take 4 checkbytes) = adler32 data"
proof -
  obtain p s where ps: "adler_blocks data (1, 0) = (p, s)"
    by (rule prod.exhaust)
  obtain q t where qt: "adler_rows p s = (q, t)"
    by (rule prod.exhaust)
  obtain a b where ab: "adler32_sums (1, 0) data = (a, b)"
    by (rule prod.exhaust)
  obtain xs where xs: "data = xs @ p" "length p < 5552" "reduced s" "sums_rel s (adler32_sums (1, 0) xs)"
    using adler_blocks_sums [of "(1, 0)" "(1, 0)" data p s] ps by (auto simp: reduced_def sums_rel_def)
  have "sums_rel (foldl adler_step s p) (a, b)"
    using adler_fold [OF reduced_room [OF xs(3)] xs(4), of p] xs(1,2) ab by (simp add: adler_sums_append)
  then have rel: "sums_rel (adler_mod (foldl adler_step t q)) (a, b)"
    using adler_rows_fold [OF qt] by simp
  obtain s1 s2 where m: "adler_mod (foldl adler_step t q) = (s1, s2)"
    by (rule prod.exhaust)
  have s12: "unat s1 = a" "unat s2 = b"
    using rel m adler_mod_reduced [of "foldl adler_step t q"] by (auto simp: sums_rel_def reduced_def)
  have bound: "a < 65521" "b < 65521"
    using adler32_bound [OF _ _ ab] by auto
  have "unat (push_bit 16 s2 + s1) = b * 65536 + a"
    using s12 bound by (simp add: push_bit_eq_mult unat_word_ariths)
  moreover have "unat (foldl (\<lambda>c b. push_bit 8 c OR ucast b) (0 :: u32) (take 4 checkbytes)) = of_be_bytes (take 4 checkbytes)"
    using push_bytes [of 0 0 "take 4 checkbytes"] by (simp add: of_be_bytes_def)
  ultimately have "push_bit 16 s2 + s1 = foldl (\<lambda>c b. push_bit 8 c OR ucast b) (0 :: u32) (take 4 checkbytes)
      \<longleftrightarrow> b * 65536 + a = of_be_bytes (take 4 checkbytes)"
    by (metis unsigned_word_eqI)
  then show ?thesis
    using ps qt m ab by (auto simp: elf_zlib_verify_checksum_def adler32_def Let_def)
qed

text \<open>
  C37: the check at the end of a zlib stream succeeds exactly if the four bytes are the
  Adler-32 checksum of the data. In particular, postponing the reductions to every 5552nd
  byte never overflows the 32-bit sums, for data of any length.
\<close>

theorem verify_checksum_is_adler32:
  "elf_zlib_verify_checksum checkbytes data \<longleftrightarrow> of_be_bytes (take 4 checkbytes) = adler32 data"
  by (rule verify_checksum_spec)

end
