(* ===== verification/Zlib_Fixed.thy ===== *)
theory Zlib_Fixed
  imports Zlib_Inflate
begin

text \<open>
  The two tables for blocks with the fixed code, which the source has as literals: they
  decode the code of RFC 1951, section 3.2.6.
\<close>

section \<open>The entries of the tables\<close>

fun check_from :: "(nat \<Rightarrow> nat \<Rightarrow> bool) \<Rightarrow> nat \<Rightarrow> nat list \<Rightarrow> bool" where
  "check_from P n [] \<longleftrightarrow> True"
| "check_from P n (e # es) \<longleftrightarrow> P n e \<and> check_from P (n + 1) es"

lemma check_from_nth: "check_from P n es \<Longrightarrow> i < length es \<Longrightarrow> P (n + i) (es ! i)"
proof (induction P n es arbitrary: i rule: check_from.induct)
  case (2 P n e es)
  then show ?case
    by (cases i) auto
qed simp

text \<open>
  The fixed code of RFC 1951, section 3.2.6, from the first eight bits of a code, most significant
  first: seven bits for 256 to 279, eight for 0 to 143 and 280 to 287, and nine for the rest,
  which need a secondary table.
\<close>

definition fixed_entry :: "nat \<Rightarrow> nat" where
  "fixed_entry c =
     (if c < 48 then 3328 + c div 2 else if c < 192 then 3536 + c else if c < 200 then 3672 + c else 4208 + 2 * c)"

lemma default_table_entries:
  "check_from (\<lambda>n e. e = (if n < 256 then fixed_entry (rev_bits 8 n) else 400 + n)) 0 elf_zlib_default_table"
  unfolding elf_zlib_default_table_def
  by (simp add: fixed_entry_def rev_bits_numeral)

lemma default_dist_table_entries:
  "check_from (\<lambda>n e. e = 2048 + rev_bits 5 (n mod 32)) 0 elf_zlib_default_dist_table"
  unfolding elf_zlib_default_dist_table_def
  by (simp add: rev_bits_numeral)

lemma default_lengths: "length elf_zlib_default_table = 368" "length elf_zlib_default_dist_table = 256"
  by (simp_all add: elf_zlib_default_table_def elf_zlib_default_dist_table_def)

lemma default_table_nth:
  "i < 256 \<Longrightarrow> elf_zlib_default_table ! i = fixed_entry (rev_bits 8 i)"
  "i < 112 \<Longrightarrow> elf_zlib_default_table ! (256 + i) = 656 + i"
  using check_from_nth [OF default_table_entries, of i] check_from_nth [OF default_table_entries, of "256 + i"]
  by (simp_all add: default_lengths)

lemma default_dist_table_nth: "i < 256 \<Longrightarrow> elf_zlib_default_dist_table ! i = 2048 + rev_bits 5 (i mod 32)"
  using check_from_nth [OF default_dist_table_entries, of i] by (simp add: default_lengths)

text \<open>A lookup in the primary table, and one that goes on in the secondary table.\<close>

lemma lookup_value:
  assumes "256 \<le> length table" "table ! (x mod 256) = value_entry v b" "v < 512" "b < 8"
  shows "zlib_lookup table x = Inr (v, b + 1)"
proof -
  have "x AND 0xff = x mod 256" "x mod 256 < 256"
    using and_mask_mod [of x 8] by simp_all
  then show ?thesis
    using assms value_entry_parts [OF assms(3,4)] by (simp add: zlib_lookup_def z_at_def)
qed

lemma lookup_table:
  assumes "256 \<le> length table" "table ! (x mod 256) = table_entry k b" "k < 512" "b < 8"
    and "256 + k + x div 256 mod 2 ^ b < length table" "table ! (256 + k + x div 256 mod 2 ^ b) = value_entry v c" "v < 512" "c < 8"
  shows "zlib_lookup table x = Inr (v, c + 8)"
proof -
  have "x AND 0xff = x mod 256" "x mod 256 < 256"
    using and_mask_mod [of x 8] by simp_all
  moreover have "drop_bit 8 x AND (push_bit b 1 - 1) = x div 256 mod 2 ^ b"
    using and_mask_mod [of "x div 256" b] by (simp add: drop_bit_eq_div push_bit_eq_mult)
  ultimately show ?thesis
    using assms table_entry_parts [OF assms(3,4)] value_entry_parts [OF assms(7,8)]
    by (simp add: zlib_lookup_def z_at_def ac_simps)
qed

lemma rev_bits_snoc: "rev_bits (Suc j) c = 2 * rev_bits j c + c div 2 ^ j mod 2"
proof (induction j arbitrary: c)
  case (Suc j)
  show ?case
    unfolding rev_bits.simps(2) [of "Suc j"] Suc.IH [of "c div 2"] by (simp add: div_mult2_eq)
qed simp

text \<open>The value and length that a nine bit code starts with.\<close>

definition fixed_symbol :: "nat \<Rightarrow> nat \<times> nat" where
  "fixed_symbol c =
     (if c < 96 then (256 + c div 4, 7) else if c < 384 then (c div 2 - 48, 8) else if c < 400 then (c div 2 + 88, 8) else (c - 256, 9))"

lemma default_lookup: "zlib_lookup elf_zlib_default_table x = Inr (fixed_symbol (rev_bits 9 x))"
proof -
  define c where "c = rev_bits 8 x"
  have c: "c < 256"
    using rev_bits_less [of 8 x] by (simp add: c_def)
  define y where "y = x div 256 mod 2"
  have y: "y = 0 \<or> y = 1"
    unfolding y_def by arith
  have r9: "rev_bits 9 x = 2 * c + y"
    using rev_bits_snoc [of 8 x] by (simp add: c_def y_def)
  have e: "elf_zlib_default_table ! (x mod 256) = fixed_entry c"
    using default_table_nth(1) [of "x mod 256"] rev_bits_mod [of 8 x] by (simp add: c_def)
  have short: "zlib_lookup elf_zlib_default_table x = Inr (v, b + 1)" if "fixed_entry c = v + 512 * b" "v < 512" "b < 8" for v b
    using lookup_value [of elf_zlib_default_table x v b] that e by (simp add: default_lengths value_entry_eq)
  consider "c < 48" | "48 \<le> c" "c < 192" | "192 \<le> c" "c < 200" | "200 \<le> c"
    by linarith
  then show ?thesis
  proof cases
    case 1
    have "(2 * c + y) div 4 = (2 * c + y) div 2 div 2"
      by (simp only: div_mult2_eq [symmetric]) simp
    then have "(2 * c + y) div 4 = c div 2"
      using y by auto
    then show ?thesis
      using short [of "256 + c div 2" 6] 1 y by (auto simp: r9 fixed_entry_def fixed_symbol_def)
  next
    case 2
    then show ?thesis
      using short [of "c - 48" 7] y by (auto simp: r9 fixed_entry_def fixed_symbol_def)
  next
    case 3
    then show ?thesis
      using short [of "c + 88" 7] y by (auto simp: r9 fixed_entry_def fixed_symbol_def)
  next
    case 4
    have "zlib_lookup elf_zlib_default_table x = Inr (144 + (2 * (c - 200) + y), 1 + 8)"
    proof (rule lookup_table [of _ _ "2 * (c - 200)" 1])
      show "elf_zlib_default_table ! (x mod 256) = table_entry (2 * (c - 200)) 1"
        using 4 unfolding e fixed_entry_def table_entry_def
        by (simp add: ZLIB_HUFFMAN_BITS_SHIFT_def ZLIB_HUFFMAN_SECONDARY_SHIFT_def push_bit_eq_mult)
      have k: "2 * (c - 200) + y < 112"
        using c y by auto
      then show "elf_zlib_default_table ! (256 + 2 * (c - 200) + x div 256 mod 2 ^ 1) = value_entry (144 + (2 * (c - 200) + y)) 1"
        using default_table_nth(2) [OF k] by (simp add: value_entry_eq y_def add.assoc)
    qed (use 4 c y in \<open>auto simp: default_lengths y_def [symmetric]\<close>)
    then show ?thesis
      using 4 y by (auto simp: r9 fixed_symbol_def)
  qed
qed

lemma rev_bits_prefix: "rev_bits (l + k) x div 2 ^ k = rev_bits l x"
proof (induction k)
  case (Suc k)
  have "rev_bits (l + Suc k) x div 2 ^ Suc k = rev_bits (Suc (l + k)) x div 2 div 2 ^ k"
    by (simp only: add_Suc_right power_Suc div_mult2_eq)
  also have "rev_bits (Suc (l + k)) x div 2 = rev_bits (l + k) x"
    unfolding rev_bits_snoc by simp
  finally show ?case
    using Suc by simp
qed simp

lemma rev_bits_rev_bits: "rev_bits j (rev_bits j c) = c mod 2 ^ j"
proof (induction j arbitrary: c)
  case (Suc j)
  let ?r = "rev_bits j (c div 2)"
  have y: "rev_bits (Suc j) c div 2 ^ j = c mod 2" "rev_bits (Suc j) c mod 2 ^ j = ?r"
    using rev_bits_less [of j "c div 2"] by simp_all
  have "rev_bits j (rev_bits (Suc j) c) = c div 2 mod 2 ^ j"
    using rev_bits_mod [of j "rev_bits (Suc j) c"] Suc [of "c div 2"] unfolding y by simp
  then have "rev_bits (Suc j) (rev_bits (Suc j) c) = 2 * (c div 2 mod 2 ^ j) + c mod 2"
    unfolding rev_bits_snoc [of j "rev_bits (Suc j) c"] y by simp
  then show ?case
    by (simp add: mod_mult2_eq)
qed simp

lemma default_dist_lookup: "zlib_lookup elf_zlib_default_dist_table x = Inr (rev_bits 5 x, 5)"
proof -
  have "rev_bits 5 (x mod 256 mod 32) = rev_bits 5 x"
    using rev_bits_mod [of 5 x] by (simp add: mod_mod_cancel)
  moreover have "rev_bits 5 x < 512"
    using rev_bits_less [of 5 x] by simp
  ultimately show ?thesis
    using lookup_value [of elf_zlib_default_dist_table x "rev_bits 5 x" 4] default_dist_table_nth [of "x mod 256"]
    by (simp add: default_lengths value_entry_eq)
qed

section \<open>The fixed codes\<close>

text \<open>The code lengths from which the tables are generated, and what a table is good for.\<close>

definition fixed_codes :: "nat list" where
  "fixed_codes = replicate 144 8 @ replicate 112 9 @ replicate 24 7 @ replicate 8 8"

definition fixed_dist_codes :: "nat list" where
  "fixed_dist_codes = replicate 32 5"

definition decodes :: "nat list \<Rightarrow> nat list \<Rightarrow> bool" where
  "decodes table codes \<longleftrightarrow>
     (\<forall>v x. v < length codes \<longrightarrow> 0 < codes ! v \<longrightarrow> v \<noteq> 0 \<or> codes ! v \<noteq> 1 \<longrightarrow> x mod 2 ^ (codes ! v) = rev_bits (codes ! v) (huff_code codes v) \<longrightarrow>
        zlib_lookup table x = Inr (v, codes ! v))"

lemma fixed_codes_nth: "v < 288 \<Longrightarrow> fixed_codes ! v = (if v < 144 then 8 else if v < 256 then 9 else if v < 280 then 7 else 8)"
  by (auto simp: fixed_codes_def nth_append)

lemma fixed_codes_length: "length fixed_codes = 288"
  by (simp add: fixed_codes_def)

lemma fixed_count: "n \<le> 288 \<Longrightarrow> length (filter (\<lambda>u. fixed_codes ! u = l) [0..<n]) =
    (if l = 7 then min n 280 - 256 else if l = 8 then min n 144 + (n - 280) else if l = 9 then min n 256 - 144 else 0)"
proof (induction n)
  case (Suc n)
  then show ?case
    using fixed_codes_nth [of n] by (auto simp: min_def)
qed simp

lemma fixed_first_code: "first_code fixed_codes 7 = 0" "first_code fixed_codes 8 = 48" "first_code fixed_codes 9 = 400"
proof -
  have n: "length (values_of fixed_codes l) = (if l = 7 then 24 else if l = 8 then 152 else if l = 9 then 112 else 0)" for l
    using fixed_count [of 288 l] by (simp add: values_of_def fixed_codes_length)
  show 7: "first_code fixed_codes 7 = 0"
    by (simp add: numeral_eq_Suc n)
  have "first_code fixed_codes (Suc 7) = 48"
    unfolding first_code.simps 7 by (simp add: n)
  then show 8: "first_code fixed_codes 8 = 48"
    by simp
  have "first_code fixed_codes (Suc 8) = 400"
    unfolding first_code.simps 8 by (simp add: n)
  then show "first_code fixed_codes 9 = 400"
    by simp
qed

lemma fixed_huff_code:
  assumes "v < 288"
  shows "huff_code fixed_codes v = (if v < 144 then 48 + v else if v < 256 then 256 + v else if v < 280 then v - 256 else v - 88)"
  using fixed_count [of v] fixed_codes_nth [OF assms] fixed_first_code assms by (simp add: huff_code_def min_def)

lemma rev_bits_huff:
  assumes "x mod 2 ^ l = rev_bits l h" "h < 2 ^ l"
  shows "rev_bits (l + k) x div 2 ^ k = h"
proof -
  have "rev_bits l x = rev_bits l (rev_bits l h)"
    using rev_bits_mod [of l x] assms(1) by simp
  then show ?thesis
    using rev_bits_rev_bits [of l h] assms(2) by (simp add: rev_bits_prefix)
qed

lemma default_decodes: "decodes elf_zlib_default_table fixed_codes"
  unfolding decodes_def
proof (intro allI impI)
  fix v x
  assume v: "v < length fixed_codes" and x: "x mod 2 ^ (fixed_codes ! v) = rev_bits (fixed_codes ! v) (huff_code fixed_codes v)"
  define c where "c = rev_bits 9 x"
  note h = fixed_huff_code [of v] fixed_codes_nth [of v]
  have *: "c div 2 ^ k = huff_code fixed_codes v" if "fixed_codes ! v + k = 9" for k
    using rev_bits_huff [OF x, of k] h v that unfolding c_def by (auto simp: fixed_codes_length split: if_splits)
  consider "v < 144" | "144 \<le> v" "v < 256" | "256 \<le> v" "v < 280" | "280 \<le> v" "v < 288"
    using v unfolding fixed_codes_length by linarith
  then have "fixed_symbol c = (v, fixed_codes ! v)"
  proof cases
    case 1
    then show ?thesis
      using h * [of 1] by (auto simp: fixed_symbol_def)
  next
    case 2
    then show ?thesis
      using h * [of 0] by (auto simp: fixed_symbol_def)
  next
    case 3
    then show ?thesis
      using h * [of 2] by (auto simp: fixed_symbol_def)
  next
    case 4
    then show ?thesis
      using h * [of 1] by (auto simp: fixed_symbol_def)
  qed
  then show "zlib_lookup elf_zlib_default_table x = Inr (v, fixed_codes ! v)"
    by (simp add: default_lookup c_def)
qed

lemma default_dist_decodes: "decodes elf_zlib_default_dist_table fixed_dist_codes"
  unfolding decodes_def
proof (intro allI impI)
  fix v x
  assume v: "v < length fixed_dist_codes" and x: "x mod 2 ^ (fixed_dist_codes ! v) = rev_bits (fixed_dist_codes ! v) (huff_code fixed_dist_codes v)"
  have n: "length (values_of fixed_dist_codes l) = (if l = 5 then 32 else 0)" for l
    by (auto simp: values_of_def fixed_dist_codes_def filter_empty_conv)
  have "filter (\<lambda>u. replicate 32 5 ! u = (5 :: nat)) [0..<v] = [0..<v]"
    using v by (intro filter_True) (simp add: fixed_dist_codes_def)
  moreover have "first_code fixed_dist_codes 5 = 0"
    by (simp add: numeral_eq_Suc n)
  ultimately have "huff_code fixed_dist_codes v = v"
    using v by (simp add: huff_code_def fixed_dist_codes_def)
  then show "zlib_lookup elf_zlib_default_dist_table x = Inr (v, fixed_dist_codes ! v)"
    using x v rev_bits_huff [of x 5 v 0] by (simp add: fixed_dist_codes_def default_dist_lookup)
qed

lemma default_tables_ok:
  "\<exists>v b. zlib_lookup elf_zlib_default_table x = Inr (v, b) \<and> v < 512 \<and> 0 < b \<and> b < 16"
  "\<exists>v b. zlib_lookup elf_zlib_default_dist_table x = Inr (v, b) \<and> v < 512 \<and> 0 < b \<and> b < 16"
  using rev_bits_less [of 9 x] rev_bits_less [of 5 x]
  by (auto simp: default_lookup default_dist_lookup fixed_symbol_def)

end
