(* ===== verification/Zlib_Safe.thy ===== *)
theory Zlib_Safe
  imports Zlib_Fixed
begin

text \<open>
  The zlib decompressor on arbitrary input: it returns, and it stays within its buffers.
\<close>

lemma rest_byte:
  assumes "zi_val s < 2 ^ zi_bits s" "zi_pin s < pinend" "pinend \<le> length mem"
  shows "rest mem pinend \<lparr>zi_pin = zi_pin s + 1, zi_val = zi_val s OR push_bit (zi_bits s) (unat (mem ! zi_pin s)), zi_bits = zi_bits s + 8\<rparr>
    = rest mem pinend s"
proof -
  have "take (pinend - zi_pin s) (drop (zi_pin s) mem) = mem ! zi_pin s # take (pinend - Suc (zi_pin s)) (drop (Suc (zi_pin s)) mem)"
    using assms by (simp add: Cons_nth_drop_Suc [symmetric] Suc_diff_Suc [symmetric])
  then show ?thesis
    using bits_of_or [OF assms(1)] by (simp add: rest_def)
qed

lemma align_spec:
  assumes "n < 4" "(base + zi_pin s + n) mod 4 = 0" "zi_bits s + 8 * n \<le> 24" "zi_pin s + n \<le> length mem" "zi_pin s + n \<le> pinend + 3"
    and "zi_val s < 2 ^ zi_bits s" "zi_bits s \<le> 8 * zi_pin s"
  shows "\<exists>s'. zlib_align mem base s = Inr s' \<and> reader_ok base s' \<and> left pinend s' = left pinend s \<and> zi_pin s' = zi_pin s + n
    \<and> (zi_pin s + n \<le> pinend \<longrightarrow> pinend \<le> length mem \<longrightarrow> rest mem pinend s' = rest mem pinend s)"
  using assms
proof (induction n arbitrary: s)
  case 0
  then show ?case
    by (simp add: zlib_align.simps [of _ _ s] reader_ok_def)
next
  case (Suc n)
  let ?v = "zi_val s OR push_bit (zi_bits s) (unat (mem ! zi_pin s))"
  define s1 where "s1 = \<lparr>zi_pin = zi_pin s + 1, zi_val = ?v, zi_bits = zi_bits s + 8\<rparr>"
  have v: "?v < 2 ^ (zi_bits s + 8)"
    by (rule or_push_less [OF Suc.prems(6) unat_byte])
  moreover have "(2 :: nat) ^ (zi_bits s + 8) \<le> 2 ^ 64"
    using Suc.prems(3) by (intro power_increasing) simp_all
  ultimately have t: "take_bit 64 ?v = ?v"
    by (intro take_bit_nat_eq_self) linarith
  have n0: "(base + zi_pin s) mod 4 \<noteq> 0"
    using Suc.prems(1,2) by presburger
  have a: "zlib_align mem base s = zlib_align mem base s1"
    using n0 Suc.prems(4) t by (subst zlib_align.simps) (simp add: z_at_def s1_def del: take_bit_or)
  have "\<exists>s'. zlib_align mem base s1 = Inr s' \<and> reader_ok base s' \<and> left pinend s' = left pinend s1 \<and> zi_pin s' = zi_pin s1 + n
    \<and> (zi_pin s1 + n \<le> pinend \<longrightarrow> pinend \<le> length mem \<longrightarrow> rest mem pinend s' = rest mem pinend s1)"
    using Suc.prems v by (intro Suc.IH) (simp_all add: s1_def)
  moreover have "left pinend s1 = left pinend s"
    using Suc.prems(5) by (simp add: left_def s1_def)
  moreover have "rest mem pinend s1 = rest mem pinend s" if "zi_pin s + Suc n \<le> pinend" "pinend \<le> length mem"
    unfolding s1_def by (rule rest_byte [OF Suc.prems(6)]) (use that in simp_all)
  ultimately show ?case
    unfolding a by (auto simp: s1_def)
qed

lemma aligned_gap: "\<exists>n < 4. (k + n) mod 4 = (0 :: nat)"
  by presburger

text \<open>From a byte position with nothing read ahead.\<close>

lemma align_start:
  assumes "pin + 3 \<le> length mem" "pin \<le> pinend"
  shows "\<exists>s'. zlib_align mem base \<lparr>zi_pin = pin, zi_val = 0, zi_bits = 0\<rparr> = Inr s' \<and> reader_ok base s'
    \<and> left pinend s' = 8 * (pinend + 3 - pin) \<and> pin \<le> zi_pin s'"
proof -
  obtain n where "n < 4" "(base + pin + n) mod 4 = 0"
    using aligned_gap by (metis add.assoc)
  then show ?thesis
    using align_spec [of n base "\<lparr>zi_pin = pin, zi_val = 0, zi_bits = 0\<rparr>" mem pinend] assms by (fastforce simp: left_def)
qed

lemma align_start_rest:
  assumes "pin + 3 \<le> pinend" "pinend \<le> length mem"
  shows "\<exists>s'. zlib_align mem base \<lparr>zi_pin = pin, zi_val = 0, zi_bits = 0\<rparr> = Inr s' \<and> reader_ok base s'
    \<and> left pinend s' = 8 * (pinend + 3 - pin) \<and> zi_pin s' \<le> pinend \<and> rest mem pinend s' = byte_bits (take (pinend - pin) (drop pin mem))"
proof -
  obtain n where "n < 4" "(base + pin + n) mod 4 = 0"
    using aligned_gap by (metis add.assoc)
  then show ?thesis
    using align_spec [of n base "\<lparr>zi_pin = pin, zi_val = 0, zi_bits = 0\<rparr>" mem pinend] assms by (fastforce simp: left_def rest_def)
qed

section \<open>The decompressor is safe\<close>

lemma fetch_safe:
  assumes "reader_ok base s" "pinend \<le> length mem"
  shows "zsafe (\<lambda>s'. reader_ok base s' \<and> 15 \<le> zi_bits s' \<and> left pinend s' = left pinend s) (elf_fetch_bits mem base pinend s)"
  using fetch_spec [OF assms] by auto

definition table_ok :: "nat list \<Rightarrow> bool" where
  "table_ok table \<longleftrightarrow> (\<forall>x. \<exists>v b. zlib_lookup table x = Inr (v, b) \<and> v < 512 \<and> 0 < b \<and> b < 16)"

lemma symbol_safe:
  assumes "table_ok table" "reader_ok base s" "15 \<le> zi_bits s"
  shows "zsafe (\<lambda>(v, s'). reader_ok base s' \<and> left pinend s' < left pinend s) (zlib_symbol table s)"
proof -
  obtain v b where l: "zlib_lookup table (zi_val s) = Inr (v, b)" "0 < b" "b < 16"
    using assms(1) unfolding table_ok_def by blast
  have "b \<le> zi_bits s"
    using l(3) assms(3) by simp
  then show ?thesis
    using skip_spec [OF assms(2), of b pinend "replicate pinend 0"] l(1,2) assms(3)
    by (simp add: zlib_symbol_def) (simp add: left_def)
qed

lemma length_safe:
  assumes "reader_ok base s" "pinend \<le> length mem"
  shows "zsafe (\<lambda>(len, s'). reader_ok base s' \<and> left pinend s' \<le> left pinend s) (zlib_length mem base pinend lit s)"
proof -
  have e: "drop_bit 2 (lit - 265) + 1 \<le> 15" if "lit \<le> 285"
    using that by (simp add: drop_bit_eq_div)
  show ?thesis
    unfolding zlib_length_def Let_def
    using skip_spec [of base _ "drop_bit 2 (lit - 265) + 1" pinend mem] assms e
    by (intro zsafe_if) (auto intro!: zsafe_bind [OF fetch_safe [OF assms]])
qed

lemma distance_safe:
  assumes "reader_ok base s" "pinend \<le> length mem" "dist \<le> 29"
  shows "zsafe (\<lambda>(d, s'). reader_ok base s' \<and> left pinend s' \<le> left pinend s \<and> 0 < d) (zlib_distance mem base pinend dist s)"
proof -
  have e: "drop_bit 1 (dist - 4) + 1 \<le> 15"
    using assms(3) by (simp add: drop_bit_eq_div)
  show ?thesis
    unfolding zlib_distance_def Let_def
    using skip_spec [of base _ "drop_bit 1 (dist - 4) + 1" pinend mem] assms e
    by (intro zsafe_if) (auto intro!: zsafe_bind [OF fetch_safe [OF assms(1,2)]])
qed

lemma write_safe: "length out + length bytes \<le> sout \<Longrightarrow> zlib_write sout out bytes = Inr (out @ bytes)"
  by (simp add: zlib_write_def)

lemma take_bit_le: "n \<le> take_bit k m \<Longrightarrow> n \<le> (m :: nat)"
  using take_bit_nat_less_eq_self [of k m] by linarith

lemma memcpy_safe:
  "dist \<le> length out \<Longrightarrow> len \<le> dist \<Longrightarrow> length out + len \<le> sout \<Longrightarrow>
   zlib_memcpy sout out dist len = Inr (out @ take len (drop (length out - dist) out))"
  by (simp add: zlib_memcpy_def zlib_write_def)

lemma repeat_safe:
  "0 < dist \<Longrightarrow> dist \<le> length out \<Longrightarrow> length out + len \<le> sout \<Longrightarrow>
   \<exists>out'. zlib_repeat sout dist len out = Inr out' \<and> length out' = length out + len"
proof (induction len arbitrary: out rule: less_induct)
  case (less len)
  show ?case
  proof (cases "len = 0")
    case False
    let ?copy = "if len < dist then len else dist"
    let ?out = "out @ take ?copy (drop (length out - dist) out)"
    have "zlib_memcpy sout out dist ?copy = Inr ?out"
      using less.prems by (intro memcpy_safe) auto
    then have "zlib_repeat sout dist len out = zlib_repeat sout dist (len - ?copy) ?out"
      using False less.prems(1) by (subst zlib_repeat.simps) (simp add: Let_def)
    moreover have "\<exists>out'. zlib_repeat sout dist (len - ?copy) ?out = Inr out' \<and> length out' = length ?out + (len - ?copy)"
      using less.prems False by (intro less.IH) (auto split: if_splits)
    ultimately show ?thesis
      using less.prems by (auto split: if_splits)
  qed (simp add: zlib_repeat.simps)
qed

lemma copy_safe:
  assumes "0 < dist" "length out \<le> sout"
  shows "zsafe (\<lambda>out'. length out' \<le> sout) (zlib_copy sout dist len out)"
proof -
  have "zsafe (\<lambda>out'. length out' \<le> sout) (zlib_memcpy sout out dist len)" if "dist \<le> length out" "len \<le> sout - length out" "len \<le> dist"
    using memcpy_safe [of dist out len sout] that assms by simp
  moreover have "zsafe (\<lambda>out'. length out' \<le> sout) (zlib_repeat sout dist len out)" if "dist \<le> length out" "len \<le> sout - length out"
    using repeat_safe [OF assms(1) that(1), of len sout] that(2) assms(2) by (fastforce simp: le_diff_conv2)
  ultimately show ?thesis
    unfolding zlib_copy_def using take_bit_le [of dist 32 "length out"] take_bit_le [of len 32 "sout - length out"] by simp
qed

lemma memset_safe:
  assumes "length out \<le> sout"
  shows "zsafe (\<lambda>out'. length out' \<le> sout) (zlib_memset_last sout len out)"
  using take_bit_le [of len 32 "sout - length out"] assms by (auto simp: zlib_memset_last_def zlib_write_def)

lemma match_safe:
  assumes "reader_ok base s" "pinend \<le> length mem" "table_ok tdist" "length out \<le> sout"
  shows "zsafe (\<lambda>(s', out'). reader_ok base s' \<and> left pinend s' < left pinend s \<and> length out' \<le> sout)
    (zlib_match mem base pinend sout tdist lit s out)"
  unfolding zlib_match_def
  apply (rule zsafe_bind [OF length_safe [OF assms(1,2)]])
  apply clarify
  apply (rule zsafe_bind [OF fetch_safe [OF _ assms(2)]], assumption)
  apply (rule zsafe_bind [OF symbol_safe [OF assms(3), where pinend = pinend]])
    apply blast
   apply blast
  apply (auto intro!: zsafe_bind [OF memset_safe [OF assms(4)]] zsafe_bind [OF distance_safe [OF _ assms(2)]] zsafe_bind [OF copy_safe [OF _ assms(4)]])
  done


lemma values_safe:
  assumes "pinend \<le> length mem" "table_ok tlit" "table_ok tdist"
  shows "reader_ok base s \<Longrightarrow> length out \<le> sout \<Longrightarrow> left pinend s < fuel \<Longrightarrow>
    zsafe (\<lambda>(s', out'). reader_ok base s' \<and> left pinend s' \<le> left pinend s \<and> length out' \<le> sout)
      (zlib_values mem base pinend sout tlit tdist fuel s out)"
proof (induction fuel arbitrary: s out)
  case (Suc fuel)
  let ?P = "\<lambda>(s', out'). reader_ok base s' \<and> left pinend s' \<le> left pinend s \<and> length out' \<le> sout"
  have step: "zsafe ?P (zlib_values mem base pinend sout tlit tdist fuel s1 out1)"
    if "reader_ok base s1" "left pinend s1 < left pinend s" "length out1 \<le> sout" for s1 out1
    using that Suc.prems(3) by (intro zsafe_mono [OF Suc.IH]) auto
  have match: "zsafe ?P (bind_res (zlib_match mem base pinend sout tdist lit s1 out) (\<lambda>(s, out). zlib_values mem base pinend sout tlit tdist fuel s out))"
    if "reader_ok base s1" "left pinend s1 < left pinend s" for lit s1
    using that by (intro zsafe_bind [OF match_safe [OF that(1) assms(1,3) Suc.prems(2)]]) (auto intro!: step)
  have lit: "zsafe ?P (bind_res (zlib_write sout out [c]) (zlib_values mem base pinend sout tlit tdist fuel s1))"
    if "reader_ok base s1" "left pinend s1 < left pinend s" "length out \<noteq> sout" for c s1
    using that step [of s1 "out @ [c]"] Suc.prems(2) by (simp add: write_safe)
  show ?case
    unfolding zlib_values.simps
    apply (rule zsafe_bind [OF fetch_safe [OF Suc.prems(1) assms(1)]])
    apply (rule zsafe_bind [OF symbol_safe [OF assms(2), where pinend = pinend]])
      apply blast
     apply blast
    using Suc.prems(2) by (clarsimp simp: lit match)
qed simp

text \<open>Tables that the code builds, and the fixed ones.\<close>

lemma built_table_safe:
  assumes "length codes \<le> length work" "length codes \<le> 512"
  shows "zsafe (\<lambda>(table, work'). table_ok table \<and> length table = 1024 \<and> length work' = length work) (elf_zlib_inflate_table codes work)"
  using inflate_table_spec [OF assms] lookup_safe by (auto simp: table_ok_def)

lemma default_tables_safe: "table_ok elf_zlib_default_table" "table_ok elf_zlib_default_dist_table"
  using default_tables_ok by (simp_all add: table_ok_def)

lemma back_spec: "bits \<le> 8 * pin \<Longrightarrow> zlib_back pin bits = Inr (pin - bits div 8)"
proof (induction pin bits rule: zlib_back.induct)
  case (1 pin bits)
  show ?case
  proof (cases "bits \<ge> 8")
    case True
    then have "pin \<noteq> 0"
      using 1(2) by auto
    moreover have "zlib_back (pin - 1) (bits - 8) = Inr (pin - 1 - (bits - 8) div 8)"
      using 1(2) True \<open>pin \<noteq> 0\<close> by (intro 1(1)) auto
    moreover have "bits div 8 = Suc ((bits - 8) div 8)"
      using True by (simp add: le_div_geq)
    ultimately show ?thesis
      using True by (subst zlib_back.simps) simp
  qed (simp add: zlib_back.simps)
qed


text \<open>The number in the two bytes of a length is below \<open>2 ^ 16\<close>; the data moves on by at least four bytes.\<close>

lemma stored_safe:
  assumes "reader_ok base s" "pinend + 3 \<le> length mem" "length out \<le> sout"
  shows "zsafe (\<lambda>(s', out'). reader_ok base s' \<and> left pinend s' \<le> left pinend s \<and> length out' \<le> sout)
    (zlib_stored mem base pinend sout s out)"
proof -
  define pin where "pin = zi_pin s - zi_bits s div 8"
  note r = reader_okD [OF assms(1)]
  have b: "zlib_back (zi_pin s) (zi_bits s) = Inr pin"
    unfolding pin_def by (rule back_spec) (use r in simp)
  show ?thesis
  proof (cases "pinend - pin < 4")
    case False
    define b0 b1 b2 b3 where "b0 = mem ! pin" "b1 = mem ! (pin + 1)" "b2 = mem ! (pin + 2)" "b3 = mem ! (pin + 3)"
    define len lenc where "len = unat b0 OR push_bit 8 (unat b1)" "lenc = unat b2 OR push_bit 8 (unat b3)"
    have at: "z_at mem pin = Inr b0" "z_at mem (pin + 1) = Inr b1" "z_at mem (pin + 2) = Inr b2" "z_at mem (pin + 3) = Inr b3"
      using False assms(2) by (simp_all add: z_at_def b0_b1_b2_b3_def)
    let ?cont = "\<lambda>out. bind_res (zlib_align mem base \<lparr>zi_pin = pin + 4 + len, zi_val = 0, zi_bits = 0\<rparr>) (\<lambda>s. Inr (s, out))"
    have run: "zlib_stored mem base pinend sout s out =
       (if len \<noteq> 0xffff - lenc then Inl Failed
        else if len > take_bit 32 (pinend - (pin + 4)) \<or> len > take_bit 32 (sout - length out) then Inl Failed
        else bind_res (if pin + 4 + len \<le> length mem then zlib_write sout out (take len (drop (pin + 4) mem)) else Inl (Stop OutOfBounds)) ?cont)"
      unfolding zlib_stored_def b bind_res_simps at Let_def len_lenc_def using False by simp
    have "zsafe (\<lambda>(s', out'). reader_ok base s' \<and> left pinend s' \<le> left pinend s \<and> length out' \<le> sout)
       (bind_res (zlib_write sout out (take len (drop (pin + 4) mem))) ?cont)"
      if l: "len \<le> take_bit 32 (pinend - (pin + 4))" "len \<le> take_bit 32 (sout - length out)"
    proof -
      have l': "len \<le> pinend - (pin + 4)" "len \<le> sout - length out"
        by (rule take_bit_le [OF l(1)], rule take_bit_le [OF l(2)])
      have e: "pin + 4 + len \<le> pinend"
        using l'(1) False by linarith
      obtain s' where s': "zlib_align mem base \<lparr>zi_pin = pin + 4 + len, zi_val = 0, zi_bits = 0\<rparr> = Inr s'" "reader_ok base s'"
        "left pinend s' = 8 * (pinend + 3 - (pin + 4 + len))"
        using align_start [of "pin + 4 + len" mem pinend base] e assms(2) by auto
      have "8 * (pinend + 3 - (pin + 4 + len)) \<le> left pinend s"
        using r False unfolding left_def pin_def by linarith
      moreover have "zlib_write sout out (take len (drop (pin + 4) mem)) = Inr (out @ take len (drop (pin + 4) mem))"
        using l' assms(3) by (intro write_safe) simp
      ultimately show ?thesis
        using s' l' assms(3) by simp
    qed
    moreover have "pin + 4 + len \<le> length mem" if "len \<le> take_bit 32 (pinend - (pin + 4))"
      using take_bit_le [OF that] False assms(2) by simp
    ultimately show ?thesis
      unfolding run by (intro zsafe_if) simp_all
  qed (simp add: zlib_stored_def b)
qed

text \<open>There are always bits left where the code lengths are read without fetching.\<close>

fun steps_ok :: "nat \<Rightarrow> (bool \<times> nat) list \<Rightarrow> bool" where
  "steps_ok b [] \<longleftrightarrow> True"
| "steps_ok b ((fetch, i) # steps) \<longleftrightarrow> (fetch \<or> 3 \<le> b) \<and> steps_ok ((if fetch then 15 else b) - 3) steps"

lemma steps_ok_take: "steps_ok b steps \<Longrightarrow> steps_ok b (take k steps)"
  by (induction b steps arbitrary: k rule: steps_ok.induct) (auto simp: take_Cons' split: if_splits)

lemma codebits_steps_ok: "steps_ok 3 (take k zlib_codebits_steps)"
  by (rule steps_ok_take) (simp add: zlib_codebits_steps_def)

lemma codebits_safe:
  assumes "pinend \<le> length mem"
  shows "reader_ok base s \<Longrightarrow> b \<le> zi_bits s \<Longrightarrow> steps_ok b steps \<Longrightarrow>
    zsafe (\<lambda>(s', cb'). reader_ok base s' \<and> left pinend s' \<le> left pinend s \<and> length cb' = length cb)
      (zlib_codebits mem base pinend steps s cb)"
proof (induction b steps arbitrary: s cb rule: steps_ok.induct)
  case (2 b fetch i steps)
  have f: "zsafe (\<lambda>s'. reader_ok base s' \<and> (if fetch then 15 else b) \<le> zi_bits s' \<and> left pinend s' = left pinend s)
      (if fetch then elf_fetch_bits mem base pinend s else Inr s)"
    using 2(2,3) fetch_safe [OF 2(2) assms] by simp
  have "zsafe (\<lambda>(s', cb'). reader_ok base s' \<and> left pinend s' \<le> left pinend s \<and> length cb' = length cb)
      (zlib_codebits mem base pinend steps (zlib_skip 3 x) (cb[i := zlib_low 3 x]))"
    if x: "reader_ok base x" "(if fetch then 15 else b) \<le> zi_bits x" "left pinend x = left pinend s" for x
  proof -
    have "3 \<le> zi_bits x"
      using 2(4) x(2) by (auto split: if_splits)
    then show ?thesis
      using skip_spec [OF x(1) _ assms, of 3] x 2(4) by (intro zsafe_mono [OF 2(1)]) auto
  qed
  then show ?case
    by (simp add: zsafe_bind [OF f])
qed simp

lemma read_lens_safe:
  assumes "pinend \<le> length mem" "256 \<le> length table"
  shows "reader_ok base s \<Longrightarrow> length lens \<le> n \<Longrightarrow>
    zsafe (\<lambda>(s', lens'). reader_ok base s' \<and> left pinend s' \<le> left pinend s \<and> length lens' = n)
      (zlib_read_lens mem base pinend table n s lens)"
proof (induction "n - length lens" arbitrary: s lens rule: less_induct)
  case less
  let ?P = "\<lambda>(s', lens'). reader_ok base s' \<and> left pinend s' \<le> left pinend s \<and> length lens' = n"
  show ?case
  proof (cases "length lens < n")
    case True
    have step: "zsafe ?P (zlib_read_lens mem base pinend table n s1 (lens @ new))"
      if "reader_ok base s1" "left pinend s1 \<le> left pinend s" "0 < length new" "length lens + length new \<le> n" for s1 new
      using that less.prems True by (intro zsafe_mono [OF less.hyps]) (simp_all add: diff_less_mono2 case_prod_beta)
    have "zsafe ?P (bind_res (z_at table (zi_val x AND 0xff)) (\<lambda>t.
        if entry_secondary t then Inl Failed
        else
          let s = zlib_skip (entry_bits t + 1) x;
              v = entry_value t
          in if v < 16 then zlib_read_lens mem base pinend table n s (lens @ [v])
             else if v = 16 then
               if lens = [] then Inl Failed
               else
                 let c = 3 + zlib_low 2 s
                 in if n - length lens < c then Inl Failed
                    else zlib_read_lens mem base pinend table n (zlib_skip 2 s) (lens @ replicate c (last lens))
             else if v = 17 then
               let c = 3 + zlib_low 3 s
               in if n - length lens < c then Inl Failed
                  else zlib_read_lens mem base pinend table n (zlib_skip 3 s) (lens @ replicate c 0)
             else if v = 18 then
               let c = 11 + zlib_low 7 s
               in if n - length lens < c then Inl Failed
                  else zlib_read_lens mem base pinend table n (zlib_skip 7 s) (lens @ replicate c 0)
             else Inl Failed))"
      if x: "reader_ok base x" "15 \<le> zi_bits x" "left pinend x = left pinend s" for x
    proof -
      have "zi_val x AND 0xff < 256"
        using and_mask_mod [of "zi_val x" 8] by simp
      then obtain t where t: "z_at table (zi_val x AND 0xff) = Inr t"
        using assms(2) by (simp add: z_at_def)
      define s1 where "s1 = zlib_skip (entry_bits t + 1) x"
      have e: "entry_bits t + 1 \<le> 8"
        using entry_bounds(2) [of t] by simp
      have s1: "reader_ok base s1" "zi_bits s1 \<ge> 7" "left pinend s1 \<le> left pinend s"
        using skip_spec [OF x(1) _ assms(1), of "entry_bits t + 1"] x e by (simp_all add: s1_def)
      have sk: "reader_ok base (zlib_skip k s1)" "left pinend (zlib_skip k s1) \<le> left pinend s" if "k \<le> 7" for k
        using skip_spec [OF s1(1) _ assms(1), of k] s1(2,3) that by simp_all
      show ?thesis
        unfolding t bind_res_simps Let_def s1_def [symmetric]
        by (intro zsafe_if; (rule step)?) (use s1 sk True in simp_all)
    qed
    then show ?thesis
      using True by (subst zlib_read_lens.simps) (simp add: zsafe_bind [OF fetch_safe [OF less.prems(1) assms(1)]])
  qed (use less.prems in \<open>simp add: zlib_read_lens.simps\<close>)
qed


lemma code_tables_safe:
  assumes "reader_ok base s" "pinend \<le> length mem" "316 \<le> length work" "length codebits = 19" "nlit + ndist \<le> 316"
  shows "zsafe (\<lambda>(s', tlit, tdist, work'). reader_ok base s' \<and> left pinend s' \<le> left pinend s \<and> table_ok tlit \<and> table_ok tdist \<and> length work' = length work)
    (zlib_code_tables mem base pinend nlit ndist codebits s work)"
  unfolding zlib_code_tables_def
proof (rule zsafe_bind2 [OF built_table_safe])
  fix table work1 :: "nat list"
  assume "table_ok table \<and> length table = 1024 \<and> length work1 = length work"
  then have work1: "length work1 = length work" and l: "256 \<le> length table"
    by simp_all
  show "zsafe (\<lambda>(s', tlit, tdist, work'). reader_ok base s' \<and> left pinend s' \<le> left pinend s \<and> table_ok tlit \<and> table_ok tdist \<and> length work' = length work)
    (bind_res (zlib_read_lens mem base pinend table (nlit + ndist) s []) (\<lambda>(s, lens).
       if lens ! 256 = 0 then Inl Failed
       else bind_res (elf_zlib_inflate_table (take nlit lens) work1) (\<lambda>(tlit, work).
            bind_res (elf_zlib_inflate_table (drop nlit lens) work) (\<lambda>(tdist, work). Inr (s, tlit, tdist, work)))))"
    using assms work1
    by (intro zsafe_bind2 [OF read_lens_safe [OF assms(2) l assms(1)]] zsafe_if zsafe_bind2 [OF built_table_safe]) simp_all
qed (use assms in simp_all)

lemma dynamic_safe:
  assumes "reader_ok base s" "pinend \<le> length mem" "316 \<le> length work"
  shows "zsafe (\<lambda>(s', tlit, tdist, work'). reader_ok base s' \<and> left pinend s' \<le> left pinend s \<and> table_ok tlit \<and> table_ok tdist \<and> length work' = length work)
    (zlib_dynamic mem base pinend s work)"
  unfolding zlib_dynamic_def Let_def
proof (rule zsafe_bind [OF fetch_safe [OF assms(1,2)]], intro zsafe_if, simp)
  let ?Q = "\<lambda>(s', tlit, tdist, work'). reader_ok base s' \<and> left pinend s' \<le> left pinend s \<and> table_ok tlit \<and> table_ok tdist \<and> length work' = length work"
  fix s0
  assume "reader_ok base s0 \<and> 15 \<le> zi_bits s0 \<and> left pinend s0 = left pinend s"
  moreover define s1 where "s1 = zlib_skip 14 s0"
  ultimately have s1: "reader_ok base s1" "left pinend s1 \<le> left pinend s"
    using skip_spec [of base s0 14 pinend mem] assms(2) by simp_all
  define nlit ndist nclen where "nlit = zlib_low 5 s0 + 257" "ndist = zlib_low 5 (zlib_skip 5 s0) + 1" "nclen = zlib_low 4 (zlib_skip 10 s0) + 4"
  assume "\<not> (286 < zlib_low 5 s0 + 257 \<or> 30 < zlib_low 5 (zlib_skip 5 s0) + 1)"
  then have n: "nlit + ndist \<le> 316"
    by (simp add: nlit_ndist_nclen_def)
  have "zsafe ?Q
      (bind_res (zlib_codebits mem base pinend (take (nclen - 4) zlib_codebits_steps) (zlib_skip 12 s2)
         ((replicate 19 0)[16 := a, 17 := b, 18 := c, 0 := d])) (\<lambda>(s, codebits).
       zlib_code_tables mem base pinend nlit ndist codebits s work))"
    if "reader_ok base s2" "15 \<le> zi_bits s2" "left pinend s2 = left pinend s1" for s2 a b c d
  proof -
    have s2: "reader_ok base (zlib_skip 12 s2)" "left pinend (zlib_skip 12 s2) \<le> left pinend s" "3 \<le> zi_bits (zlib_skip 12 s2)"
      using skip_spec [OF that(1) _ assms(2), of 12] that s1(2) by simp_all
    show ?thesis
      using s2(2)
      by (intro zsafe_bind2 [OF codebits_safe [OF assms(2) s2(1,3) codebits_steps_ok]] zsafe_mono [OF code_tables_safe])
        (use assms n in auto)
  qed
  then show "zsafe ?Q
      (bind_res (elf_fetch_bits mem base pinend (zlib_skip 14 s0)) (\<lambda>s.
       bind_res (zlib_codebits mem base pinend (take (zlib_low 4 (zlib_skip 10 s0) + 4 - 4) zlib_codebits_steps) (zlib_skip 12 s)
         ((replicate 19 0)[16 := zlib_low 3 s, 17 := zlib_low 3 (zlib_skip 3 s), 18 := zlib_low 3 (zlib_skip 6 s), 0 := zlib_low 3 (zlib_skip 9 s)])) (\<lambda>(s, codebits).
       zlib_code_tables mem base pinend (zlib_low 5 s0 + 257) (zlib_low 5 (zlib_skip 5 s0) + 1) codebits s work)))"
    unfolding s1_def [symmetric] nlit_ndist_nclen_def
    by (intro zsafe_bind [OF fetch_safe [OF s1(1) assms(2)]]) blast
qed

lemma header_safe:
  assumes "pin + 5 \<le> pinend" "pinend + 3 \<le> length mem"
  shows "zsafe (\<lambda>s'. reader_ok base s' \<and> left pinend s' + 16 = 8 * (pinend + 3 - pin)) (zlib_header mem base pin)"
proof -
  have "zsafe (\<lambda>s'. reader_ok base s' \<and> left pinend s' + 16 = 8 * (pinend + 3 - pin)) (zlib_align mem base \<lparr>zi_pin = pin + 2, zi_val = 0, zi_bits = 0\<rparr>)"
    using align_start [of "pin + 2" mem pinend base] assms by auto
  moreover have "z_at mem pin = Inr (mem ! pin)" "z_at mem (pin + 1) = Inr (mem ! (pin + 1))"
    using assms by (simp_all add: z_at_def)
  ultimately show ?thesis
    unfolding zlib_header_def by (simp only: bind_res_simps) (intro zsafe_if; simp)
qed

lemma block_safe:
  assumes "pinend + 3 \<le> length mem" "reader_ok base s" "length out \<le> sout" "316 \<le> length work" "left pinend s < fuel"
  shows "zsafe (\<lambda>(s', work', out'). reader_ok base s' \<and> left pinend s' \<le> left pinend s \<and> length work' = length work \<and> length out' \<le> sout)
      (zlib_block mem base pinend sout fuel type s work out)"
proof -
  let ?Q = "\<lambda>(s', work', out'). reader_ok base s' \<and> left pinend s' \<le> left pinend s \<and> length work' = length work \<and> length out' \<le> sout"
  have mem: "pinend \<le> length mem"
    using assms(1) by simp
  have "zsafe (\<lambda>(s', tlit, tdist, work'). reader_ok base s' \<and> left pinend s' \<le> left pinend s \<and> table_ok tlit \<and> table_ok tdist \<and> length work' = length work)
      (if type = 1 then Inr (s, elf_zlib_default_table, elf_zlib_default_dist_table, work) else zlib_dynamic mem base pinend s work)"
    using assms(2) default_tables_safe dynamic_safe [OF assms(2) mem assms(4)] by simp
  moreover have "zsafe ?Q (bind_res (zlib_values mem base pinend sout tlit tdist fuel s1 out) (\<lambda>(s, out). Inr (s, work1, out)))"
    if "reader_ok base s1" "left pinend s1 \<le> left pinend s" "table_ok tlit" "table_ok tdist" "length work1 = length work" for s1 tlit tdist work1
    using that by (intro zsafe_bind2 [OF values_safe [OF mem that(3,4,1) assms(3)]]) (use assms(5) in auto)
  ultimately have "zsafe ?Q (bind_res
      (if type = 1 then Inr (s, elf_zlib_default_table, elf_zlib_default_dist_table, work) else zlib_dynamic mem base pinend s work) (\<lambda>(s, tlit, tdist, work).
      bind_res (zlib_values mem base pinend sout tlit tdist fuel s out) (\<lambda>(s, out). Inr (s, work, out))))"
    by (elim zsafe_bind) auto
  moreover have "zsafe ?Q (bind_res (zlib_stored mem base pinend sout s out) (\<lambda>(s, out). Inr (s, work, out)))"
    by (rule zsafe_bind2 [OF stored_safe [OF assms(2,1,3)]]) simp
  ultimately show ?thesis
    unfolding zlib_block_def by (intro zsafe_if) simp_all
qed

lemma blocks_safe:
  assumes "pinend + 3 \<le> length mem"
  shows "reader_ok base s \<Longrightarrow> length out \<le> sout \<Longrightarrow> 316 \<le> length work \<Longrightarrow> left pinend s < fuel \<Longrightarrow>
    zsafe (\<lambda>(s', work', out'). reader_ok base s' \<and> left pinend s' \<le> left pinend s \<and> length work' = length work \<and> length out' \<le> sout)
      (zlib_blocks mem base pinend sout fuel s work out)"
proof (induction fuel arbitrary: s work out)
  case (Suc fuel)
  let ?Q = "\<lambda>(s', work', out'). reader_ok base s' \<and> left pinend s' \<le> left pinend s \<and> length work' = length work \<and> length out' \<le> sout"
  have mem: "pinend \<le> length mem"
    using assms by simp
  have body: "zsafe ?Q (bind_res (zlib_block mem base pinend sout fuel type (zlib_skip 3 s1) work out) (\<lambda>(s, work, out).
        if final = 0 then zlib_blocks mem base pinend sout fuel s work out else Inr (s, work, out)))"
    if s1: "reader_ok base s1" "15 \<le> zi_bits s1" "left pinend s1 = left pinend s" for s1 type and final :: nat
  proof -
    have s2: "reader_ok base (zlib_skip 3 s1)" "left pinend (zlib_skip 3 s1) = left pinend s - 3" "3 \<le> left pinend s"
      using skip_spec [OF s1(1) _ mem, of 3] s1 by (simp_all add: left_def)
    have "left pinend (zlib_skip 3 s1) < fuel"
      using s2 Suc.prems(4) by simp
    from block_safe [OF assms s2(1) Suc.prems(2,3) this] show ?thesis
    proof (rule zsafe_bind)
      fix x :: "zlib_in \<times> nat list \<times> u8 list"
      assume x: "case x of (s', work', out') \<Rightarrow> reader_ok base s' \<and> left pinend s' \<le> left pinend (zlib_skip 3 s1) \<and> length work' = length work \<and> length out' \<le> sout"
      obtain s3 work3 out3 where [simp]: "x = (s3, work3, out3)"
        by (rule prod_cases3)
      have "zsafe ?Q (zlib_blocks mem base pinend sout fuel s3 work3 out3)"
        using x s2 Suc.prems(3,4) by (intro zsafe_mono [OF Suc.IH]) auto
      then show "zsafe ?Q (case x of (s, work, out) \<Rightarrow> if final = 0 then zlib_blocks mem base pinend sout fuel s work out else Inr (s, work, out))"
        using x s2 by auto
    qed
  qed
  show ?case
    unfolding zlib_blocks.simps Let_def
    by (rule zsafe_bind [OF fetch_safe [OF Suc.prems(1) mem]]) (use body in blast)
qed simp

lemma streams_safe:
  assumes "pinend + 3 \<le> length mem"
  shows "length out \<le> sout \<Longrightarrow> 316 \<le> length work \<Longrightarrow> 8 * (pinend + 3 - pin) < fuel \<Longrightarrow>
    zsafe (\<lambda>(work', out'). length out' \<le> sout) (zlib_streams mem base pinend sout fuel pin work out)"
proof (induction fuel arbitrary: pin work out)
  case (Suc fuel)
  show ?case
  proof (cases "pinend - pin > 4")
    case True
    then have pin: "pin + 5 \<le> pinend"
      by simp
    have "zsafe (\<lambda>(work', out'). length out' \<le> sout) (bind_res (zlib_blocks mem base pinend sout fuel s work out) (\<lambda>(s, work, out).
        zlib_streams mem base pinend sout fuel (zi_pin s) work out))"
      if "reader_ok base s" "left pinend s + 16 = 8 * (pinend + 3 - pin)" for s
    proof -
      have "left pinend s < fuel"
        using that(2) Suc.prems(3) by simp
      from blocks_safe [OF assms that(1) Suc.prems(1,2) this] show ?thesis
      proof (rule zsafe_bind)
        fix x :: "zlib_in \<times> nat list \<times> u8 list"
        assume x: "case x of (s', work', out') \<Rightarrow> reader_ok base s' \<and> left pinend s' \<le> left pinend s \<and> length work' = length work \<and> length out' \<le> sout"
        obtain s3 work3 out3 where [simp]: "x = (s3, work3, out3)"
          by (rule prod_cases3)
        have "8 * (pinend + 3 - zi_pin s3) < fuel"
          using x that(2) Suc.prems(3) by (simp add: left_def)
        then show "zsafe (\<lambda>(work', out'). length out' \<le> sout) (case x of (s, work, out) \<Rightarrow> zlib_streams mem base pinend sout fuel (zi_pin s) work out)"
          using x Suc.prems(2) Suc.IH [of out3 work3 "zi_pin s3"] by simp
      qed
    qed
    then show ?thesis
      using True by (simp add: zsafe_bind [OF header_safe [OF pin assms]])
  qed (use Suc.prems in simp)
qed simp

text \<open>
  C7: For every input that is followed by three readable bytes, of whatever alignment and
  contents, and every size of the output buffer, the decompressor returns: it fails, or it has
  filled the output buffer exactly. It never reads elsewhere, never writes outside of the output buffer, never
  loads from an unaligned address and never runs for ever.
\<close>

theorem inflate_safe:
  assumes "sin + 3 \<le> length mem" and "316 \<le> length work"
  shows "elf_zlib_inflate mem base sin work sout = Inl Failed \<or> (\<exists>out. elf_zlib_inflate mem base sin work sout = Inr out \<and> length out = sout)"
proof -
  have "8 * (sin + 3 - 0) < zlib_fuel sin"
    by (simp add: zlib_fuel_def)
  from streams_safe [OF assms(1) _ assms(2) this, of "[]" sout base]
  have "zsafe (\<lambda>out. length out = sout) (elf_zlib_inflate mem base sin work sout)"
    unfolding elf_zlib_inflate_def by (rule zsafe_bind2) (simp, rule zsafe_if, simp_all)
  then show ?thesis
    by (rule zsafe_cases)
qed

theorem inflate_safe_witness:
  "elf_zlib_inflate (replicate 16 0x78) 1 13 (replicate 316 0) 7 = Inl Failed
     \<or> (\<exists>out. elf_zlib_inflate (replicate 16 0x78) 1 13 (replicate 316 0) 7 = Inr out \<and> length out = 7)"
  by (rule inflate_safe) simp_all

end
