(* ===== verification/Zlib_Values.thy ===== *)
theory Zlib_Values
  imports Zlib_Safe
begin

text \<open>
  What compressed data stands for, by RFC 1951: literals and copies, their bits under a
  Huffman code, and that the main loop of the decompressor reads them back.
\<close>

section \<open>Compressed data\<close>

text \<open>
  RFC 1951, section 3.2: literals and references back into the output, and what they stand for.
\<close>

datatype token = Literal u8 | Copy nat nat

fun copy_back :: "nat \<Rightarrow> nat \<Rightarrow> u8 list \<Rightarrow> u8 list" where
  "copy_back dist 0 out = out"
| "copy_back dist (Suc n) out = copy_back dist n (out @ [out ! (length out - dist)])"

fun expand :: "u8 list \<Rightarrow> token list \<Rightarrow> u8 list" where
  "expand out [] = out"
| "expand out (Literal b # ts) = expand (out @ [b]) ts"
| "expand out (Copy len dist # ts) = expand (copy_back dist len out) ts"

text \<open>The tables of section 3.2.5.\<close>

definition len_base :: "nat list" where
  "len_base = [3, 4, 5, 6, 7, 8, 9, 10, 11, 13, 15, 17, 19, 23, 27, 31, 35, 43, 51, 59, 67, 83, 99, 115, 131, 163, 195, 227, 258]"

definition len_extra :: "nat list" where
  "len_extra = [0, 0, 0, 0, 0, 0, 0, 0, 1, 1, 1, 1, 2, 2, 2, 2, 3, 3, 3, 3, 4, 4, 4, 4, 5, 5, 5, 5, 0]"

definition dist_base :: "nat list" where
  "dist_base = [1, 2, 3, 4, 5, 7, 9, 13, 17, 25, 33, 49, 65, 97, 129, 193, 257, 385, 513, 769, 1025, 1537, 2049, 3073, 4097, 6145, 8193, 12289, 16385, 24577]"

definition dist_extra :: "nat list" where
  "dist_extra = [0, 0, 0, 0, 1, 1, 2, 2, 3, 3, 4, 4, 5, 5, 6, 6, 7, 7, 8, 8, 9, 9, 10, 10, 11, 11, 12, 12, 13, 13]"

definition len_index :: "nat \<Rightarrow> nat" where
  "len_index len = (if len = 258 then 28 else length (filter (\<lambda>b. b \<le> len) len_base) - 1)"

definition dist_index :: "nat \<Rightarrow> nat" where
  "dist_index dist = length (filter (\<lambda>b. b \<le> dist) dist_base) - 1"

text \<open>The bits of a symbol, most significant bit of its code first, and of a token.\<close>

definition symbol_bits :: "nat list \<Rightarrow> nat \<Rightarrow> bool list" where
  "symbol_bits codes v = rev (bits_of (codes ! v) (huff_code codes v))"

fun token_bits :: "nat list \<Rightarrow> nat list \<Rightarrow> token \<Rightarrow> bool list" where
  "token_bits lc dc (Literal b) = symbol_bits lc (unat b)"
| "token_bits lc dc (Copy len dist) =
     symbol_bits lc (257 + len_index len) @ bits_of (len_extra ! len_index len) (len - len_base ! len_index len) @
     symbol_bits dc (dist_index dist) @ bits_of (dist_extra ! dist_index dist) (dist - dist_base ! dist_index dist)"

text \<open>
  A value with a code. The value 0 with a code of one bit is left out: its table entry would
  be 0, which also stands for no entry.
\<close>

definition coded :: "nat list \<Rightarrow> nat \<Rightarrow> bool" where
  "coded codes v \<longleftrightarrow> v < length codes \<and> 0 < codes ! v \<and> codes ! v \<le> 15 \<and> (v \<noteq> 0 \<or> codes ! v \<noteq> 1)"

fun tokens_ok :: "nat list \<Rightarrow> nat list \<Rightarrow> nat \<Rightarrow> token list \<Rightarrow> bool" where
  "tokens_ok lc dc n [] \<longleftrightarrow> coded lc 256"
| "tokens_ok lc dc n (Literal b # ts) \<longleftrightarrow> coded lc (unat b) \<and> tokens_ok lc dc (n + 1) ts"
| "tokens_ok lc dc n (Copy len dist # ts) \<longleftrightarrow>
     3 \<le> len \<and> len \<le> 258 \<and> 1 \<le> dist \<and> dist \<le> 32768 \<and> dist \<le> n \<and> coded lc (257 + len_index len) \<and> coded dc (dist_index dist) \<and>
     tokens_ok lc dc (n + len) ts"

section \<open>Reading symbols\<close>

definition at_bits :: "u8 list \<Rightarrow> nat \<Rightarrow> nat \<Rightarrow> zlib_in \<Rightarrow> bool list \<Rightarrow> bool" where
  "at_bits mem base pinend s bs \<longleftrightarrow> reader_ok base s \<and> zi_pin s \<le> pinend \<and> pinend \<le> length mem \<and>
     rest mem pinend s = bs \<and> suffix bs (byte_bits (take pinend mem))"

lemma fetch_at:
  assumes "at_bits mem base pinend s bs" "39 \<le> length bs"
  shows "\<exists>s'. elf_fetch_bits mem base pinend s = Inr s' \<and> at_bits mem base pinend s' bs \<and> 15 \<le> zi_bits s'"
proof -
  have a: "reader_ok base s" "zi_pin s \<le> pinend" "pinend \<le> length mem" "rest mem pinend s = bs" "suffix bs (byte_bits (take pinend mem))"
    using assms(1) by (simp_all add: at_bits_def)
  obtain s' where s': "elf_fetch_bits mem base pinend s = Inr s'" "reader_ok base s'" "15 \<le> zi_bits s'" "rest mem pinend s' = bs"
    using fetch_spec [OF a(1,3)] a(4) assms(2) by auto
  moreover have "zi_pin s' \<le> pinend"
    using s'(1) a(2) by (auto simp: elf_fetch_bits_def res_simps split: if_splits)
  ultimately show ?thesis
    using a(3,5) by (auto simp: at_bits_def)
qed

lemma skip_at:
  assumes "at_bits mem base pinend s (as @ bs)" "length as \<le> zi_bits s"
  shows "at_bits mem base pinend (zlib_skip (length as) s) bs" and "zi_bits (zlib_skip (length as) s) = zi_bits s - length as"
    and "zlib_low (length as) s = num_of as"
  using assms skip_spec [of base s "length as" pinend mem] low_spec(1) [of "length as" s mem pinend] suffix_appendD [of as bs]
  by (simp_all add: at_bits_def)

lemma num_of_append: "num_of (as @ bs) = num_of as + 2 ^ length as * num_of bs"
  by (induction as) simp_all

lemma num_of_symbol: "num_of (rev (bits_of l h)) = rev_bits l h"
proof (induction l arbitrary: h)
  case (Suc l)
  then show ?case
    by (simp add: bits_of_Suc num_of_append mod_2_eq_odd)
qed simp

lemma lookup_at:
  assumes "decodes table codes" "coded codes v" "at_bits mem base pinend s (symbol_bits codes v @ bs)" "15 \<le> zi_bits s"
  shows "zlib_lookup table (zi_val s) = Inr (v, codes ! v)" and "at_bits mem base pinend (zlib_skip (codes ! v) s) bs"
    and "zi_bits (zlib_skip (codes ! v) s) = zi_bits s - codes ! v"
proof -
  have l: "length (symbol_bits codes v) = codes ! v" "codes ! v \<le> 15"
    using assms(2) by (simp_all add: symbol_bits_def coded_def)
  have "zlib_low (codes ! v) s = rev_bits (codes ! v) (huff_code codes v)"
    using skip_at(3) [OF assms(3)] l assms(4) by (simp add: symbol_bits_def num_of_symbol)
  then have "zi_val s mod 2 ^ (codes ! v) = rev_bits (codes ! v) (huff_code codes v)"
    using and_mask_mod [of "zi_val s" "codes ! v"] by (simp add: zlib_low_def push_bit_eq_mult)
  then show "zlib_lookup table (zi_val s) = Inr (v, codes ! v)"
    using assms(1,2) unfolding decodes_def coded_def by blast
  show "at_bits mem base pinend (zlib_skip (codes ! v) s) bs" "zi_bits (zlib_skip (codes ! v) s) = zi_bits s - codes ! v"
    using skip_at(1,2) [OF assms(3)] l assms(4) by simp_all
qed

lemma symbol_at:
  assumes "decodes table codes" "coded codes v" "at_bits mem base pinend s (symbol_bits codes v @ bs)" "15 \<le> zi_bits s"
  shows "\<exists>s'. zlib_symbol table s = Inr (v, s') \<and> at_bits mem base pinend s' bs"
  using lookup_at [OF assms] by (simp add: zlib_symbol_def)

section \<open>Lengths and distances\<close>

lemma table_lengths: "length len_base = 29" "length len_extra = 29" "length dist_base = 30" "length dist_extra = 30"
  by (simp_all add: len_base_def len_extra_def dist_base_def dist_extra_def)

lemma len_code:
  assumes "i < 29"
  shows "i < 8 \<Longrightarrow> len_base ! i = i + 3 \<and> len_extra ! i = 0"
    and "8 \<le> i \<Longrightarrow> i < 28 \<Longrightarrow> len_extra ! i = drop_bit 2 (i - 8) + 1 \<and>
      len_base ! i = push_bit (drop_bit 2 (i - 8) + 1) ((i - 8) AND 3) + 11 + push_bit 3 (push_bit (drop_bit 2 (i - 8)) 1 - 1)"
    and "len_extra ! i \<le> 5"
proof -
  have "\<forall>i \<in> set [0..<8]. len_base ! i = i + 3 \<and> len_extra ! i = 0"
    by (simp add: upt_rec len_base_def len_extra_def)
  then show "i < 8 \<Longrightarrow> len_base ! i = i + 3 \<and> len_extra ! i = 0"
    by simp
  have "\<forall>i \<in> set [8..<28]. len_extra ! i = drop_bit 2 (i - 8) + 1 \<and>
      len_base ! i = push_bit (drop_bit 2 (i - 8) + 1) ((i - 8) AND 3) + 11 + push_bit 3 (push_bit (drop_bit 2 (i - 8)) 1 - 1)"
    by (simp add: upt_rec len_base_def len_extra_def drop_bit_eq_div push_bit_eq_mult)
  then show "8 \<le> i \<Longrightarrow> i < 28 \<Longrightarrow> len_extra ! i = drop_bit 2 (i - 8) + 1 \<and>
      len_base ! i = push_bit (drop_bit 2 (i - 8) + 1) ((i - 8) AND 3) + 11 + push_bit 3 (push_bit (drop_bit 2 (i - 8)) 1 - 1)"
    by (elim bspec) (simp only: set_upt atLeastLessThan_iff simp_thms)
  have "\<forall>e \<in> set len_extra. e \<le> 5"
    by (simp add: len_extra_def)
  then show "len_extra ! i \<le> 5"
    using nth_mem [of i len_extra] assms unfolding table_lengths by blast
qed


lemma dist_code:
  assumes "i < 30"
  shows "i < 4 \<Longrightarrow> dist_base ! i = i + 1 \<and> dist_extra ! i = 0"
    and "4 \<le> i \<Longrightarrow> dist_extra ! i = drop_bit 1 (i - 4) + 1 \<and>
      dist_base ! i = push_bit (drop_bit 1 (i - 4) + 1) ((i - 4) AND 1) + 5 + push_bit 2 (push_bit (drop_bit 1 (i - 4)) 1 - 1)"
    and "dist_extra ! i \<le> 13"
proof -
  have "\<forall>i \<in> set [0..<4]. dist_base ! i = i + 1 \<and> dist_extra ! i = 0"
    by (simp add: upt_rec dist_base_def dist_extra_def)
  then show "i < 4 \<Longrightarrow> dist_base ! i = i + 1 \<and> dist_extra ! i = 0"
    by simp
  have "\<forall>i \<in> set [4..<30]. dist_extra ! i = drop_bit 1 (i - 4) + 1 \<and>
      dist_base ! i = push_bit (drop_bit 1 (i - 4) + 1) ((i - 4) AND 1) + 5 + push_bit 2 (push_bit (drop_bit 1 (i - 4)) 1 - 1)"
    by (simp add: upt_rec dist_base_def dist_extra_def drop_bit_eq_div push_bit_eq_mult)
  then show "4 \<le> i \<Longrightarrow> dist_extra ! i = drop_bit 1 (i - 4) + 1 \<and>
      dist_base ! i = push_bit (drop_bit 1 (i - 4) + 1) ((i - 4) AND 1) + 5 + push_bit 2 (push_bit (drop_bit 1 (i - 4)) 1 - 1)"
    using assms by (elim bspec) (simp only: set_upt atLeastLessThan_iff simp_thms)
  have "\<forall>e \<in> set dist_extra. e \<le> 13"
    by (simp add: dist_extra_def)
  then show "dist_extra ! i \<le> 13"
    using nth_mem [of i dist_extra] assms unfolding table_lengths by blast
qed

lemma sorted_index:
  "sorted xs \<Longrightarrow> i < length xs \<Longrightarrow> xs ! i \<le> n \<longleftrightarrow> i < length (filter (\<lambda>b. b \<le> n) xs)" for n :: nat
proof (induction xs arbitrary: i)
  case (Cons x xs)
  show ?case
  proof (cases "x \<le> n")
    case True
    then show ?thesis
      using Cons by (cases i) simp_all
  next
    case False
    then have none: "\<forall>y \<in> set (x # xs). \<not> y \<le> n"
      using Cons.prems(1) by fastforce
    then have "filter (\<lambda>b. b \<le> n) (x # xs) = []"
      by (simp only: filter_empty_conv)
    then show ?thesis
      using none nth_mem [OF Cons.prems(2)] by (metis list.size(3) not_less_zero)
  qed
qed simp

lemma index_spec:
  assumes "sorted xs" "xs \<noteq> []" "xs ! 0 \<le> (n :: nat)"
  defines "i \<equiv> length (filter (\<lambda>b. b \<le> n) xs) - 1"
  shows "i < length xs" "xs ! i \<le> n" "Suc i < length xs \<Longrightarrow> n < xs ! Suc i"
proof -
  have 0: "0 < length (filter (\<lambda>b. b \<le> n) xs)"
    using sorted_index [OF assms(1), of 0 n] assms(2,3) by simp
  then show i: "i < length xs"
    using length_filter_le [of "\<lambda>b. b \<le> n" xs] unfolding i_def by linarith
  show "xs ! i \<le> n"
    using sorted_index [OF assms(1) i, of n] 0 unfolding i_def by linarith
  show "Suc i < length xs \<Longrightarrow> n < xs ! Suc i"
    using sorted_index [OF assms(1), of "Suc i" n] unfolding i_def by linarith
qed

lemma len_index_spec:
  assumes "3 \<le> len" "len \<le> 258"
  shows "len_index len < 29" "len_base ! len_index len \<le> len" "len < len_base ! len_index len + 2 ^ (len_extra ! len_index len)"
proof -
  have s: "sorted len_base" "len_base \<noteq> []" "len_base ! 0 = 3"
    by (simp_all add: len_base_def)
  note i = index_spec [OF s(1,2), of len, unfolded s(3), OF assms(1)]
  have "\<forall>i \<in> set [0..<28]. len_base ! Suc i \<le> len_base ! i + 2 ^ (len_extra ! i)"
    by (simp add: upt_rec len_base_def len_extra_def)
  then have n: "len_base ! Suc i \<le> len_base ! i + 2 ^ (len_extra ! i)" if "i < 28" for i
    using that by (elim bspec) (simp only: set_upt atLeastLessThan_iff simp_thms zero_le)
  have last: "len_base ! 28 = 258" "len_extra ! 28 = 0"
    by (simp_all add: len_base_def len_extra_def)
  show "len_index len < 29" "len_base ! len_index len \<le> len"
    using i(1,2) last by (auto simp: len_index_def table_lengths)
  show "len < len_base ! len_index len + 2 ^ (len_extra ! len_index len)"
  proof (cases "len = 258")
    case False
    define k where "k = length (filter (\<lambda>b. b \<le> len) len_base) - 1"
    have "k \<noteq> 28"
      using i(2) last False assms(2) unfolding k_def by (metis le_antisym)
    then have "k < 28"
      using i(1) unfolding k_def table_lengths by linarith
    then show ?thesis
      using i(3) n [of k] False unfolding len_index_def k_def table_lengths by simp
  qed (simp add: len_index_def last)
qed

lemma dist_index_spec:
  assumes "1 \<le> dist" "dist \<le> 32768"
  shows "dist_index dist < 30" "dist_base ! dist_index dist \<le> dist" "dist < dist_base ! dist_index dist + 2 ^ (dist_extra ! dist_index dist)"
proof -
  have s: "sorted dist_base" "dist_base \<noteq> []" "dist_base ! 0 = 1"
    by (simp_all add: dist_base_def)
  note i = index_spec [OF s(1,2), of dist, unfolded s(3), OF assms(1), folded dist_index_def]
  show "dist_index dist < 30" "dist_base ! dist_index dist \<le> dist"
    using i(1,2) by (simp_all add: table_lengths)
  have "\<forall>i \<in> set [0..<29]. dist_base ! Suc i \<le> dist_base ! i + 2 ^ (dist_extra ! i)"
    by (simp add: upt_rec dist_base_def dist_extra_def)
  then have n: "dist_base ! Suc i \<le> dist_base ! i + 2 ^ (dist_extra ! i)" if "i < 29" for i
    using that by (elim bspec) (simp only: set_upt atLeastLessThan_iff simp_thms zero_le)
  have last: "dist_base ! 29 + 2 ^ (dist_extra ! 29) = 32769"
    by (simp add: dist_base_def dist_extra_def)
  show "dist < dist_base ! dist_index dist + 2 ^ (dist_extra ! dist_index dist)"
  proof (cases "dist_index dist < 29")
    case True
    then show ?thesis
      using i(3) n [of "dist_index dist"] by (simp add: table_lengths)
  next
    case False
    then have "dist_index dist = 29"
      using i(1) by (simp add: table_lengths)
    then show ?thesis
      using assms(2) last by simp
  qed
qed

lemma num_of_offset: "b \<le> n \<Longrightarrow> n < b + 2 ^ e \<Longrightarrow> b + num_of (bits_of e (n - b)) = n"
  by (simp add: num_of_bits_of)

lemma length_at:
  assumes "3 \<le> len" "len \<le> 258" and "at_bits mem base pinend s (bits_of (len_extra ! len_index len) (len - len_base ! len_index len) @ bs)"
    and "39 \<le> length bs"
  shows "\<exists>s'. zlib_length mem base pinend (257 + len_index len) s = Inr (len, s') \<and> at_bits mem base pinend s' bs"
proof -
  define i where "i = len_index len"
  note i = len_index_spec [OF assms(1,2), folded i_def]
  consider "i < 8" | "i = 28" | "8 \<le> i" "i < 28"
    using i(1) by linarith
  then show ?thesis
  proof cases
    case 1
    then show ?thesis
      using len_code(1) [OF i(1)] i assms(3) by (simp add: zlib_length_def flip: i_def)
  next
    case 2
    then show ?thesis
      using i assms(3) by (simp add: zlib_length_def len_base_def len_extra_def flip: i_def)
  next
    case 3
    let ?e = "len_extra ! i"
    let ?as = "bits_of ?e (len - len_base ! i)"
    obtain s' where s': "elf_fetch_bits mem base pinend s = Inr s'" "at_bits mem base pinend s' (?as @ bs)" "15 \<le> zi_bits s'"
      using fetch_at [OF assms(3)] assms(4) unfolding i_def by auto
    have "len_base ! i + zlib_low ?e s' = len"
      using skip_at(3) [OF s'(2)] num_of_offset [OF i(2,3)] len_code(3) [OF i(1)] s'(3) by simp
    moreover have "at_bits mem base pinend (zlib_skip ?e s') bs"
      using skip_at(1) [OF s'(2)] len_code(3) [OF i(1)] s'(3) by simp
    moreover have "zlib_length mem base pinend (257 + i) s = Inr (len_base ! i + zlib_low ?e s', zlib_skip ?e s')"
      using len_code(2) [OF i(1) 3] 3 s'(1) by (simp add: zlib_length_def Let_def)
    ultimately show ?thesis
      unfolding i_def by simp
  qed
qed


lemma distance_at:
  assumes "1 \<le> dist" "dist \<le> 32768" and "at_bits mem base pinend s (bits_of (dist_extra ! dist_index dist) (dist - dist_base ! dist_index dist) @ bs)"
    and "39 \<le> length bs"
  shows "\<exists>s'. zlib_distance mem base pinend (dist_index dist) s = Inr (dist, s') \<and> at_bits mem base pinend s' bs"
proof -
  define i where "i = dist_index dist"
  note i = dist_index_spec [OF assms(1,2), folded i_def]
  show ?thesis
  proof (cases "i < 4")
    case True
    then show ?thesis
      using dist_code(1) [OF i(1)] i assms(3) by (simp add: zlib_distance_def flip: i_def)
  next
    case False
    let ?e = "dist_extra ! i"
    let ?as = "bits_of ?e (dist - dist_base ! i)"
    obtain s' where s': "elf_fetch_bits mem base pinend s = Inr s'" "at_bits mem base pinend s' (?as @ bs)" "15 \<le> zi_bits s'"
      using fetch_at [OF assms(3)] assms(4) unfolding i_def by auto
    have "dist_base ! i + zlib_low ?e s' = dist"
      using skip_at(3) [OF s'(2)] num_of_offset [OF i(2,3)] dist_code(3) [OF i(1)] s'(3) by simp
    moreover have "at_bits mem base pinend (zlib_skip ?e s') bs"
      using skip_at(1) [OF s'(2)] dist_code(3) [OF i(1)] s'(3) by simp
    moreover have "zlib_distance mem base pinend i s = Inr (dist_base ! i + zlib_low ?e s', zlib_skip ?e s')"
      using dist_code(2) [OF i(1)] False s'(1) by (simp add: zlib_distance_def Let_def)
    ultimately show ?thesis
      unfolding i_def by simp
  qed
qed

section \<open>Copies\<close>

lemma length_copy_back [simp]: "length (copy_back dist n out) = length out + n"
  by (induction n arbitrary: out) simp_all

lemma copy_back_add: "copy_back dist (m + n) out = copy_back dist n (copy_back dist m out)"
  by (induction m arbitrary: out) simp_all

lemma copy_back_short:
  "n \<le> dist \<Longrightarrow> dist \<le> length out \<Longrightarrow> copy_back dist n out = out @ take n (drop (length out - dist) out)"
proof (induction n)
  case (Suc n)
  let ?k = "length out - dist"
  have "copy_back dist (Suc n) out = copy_back dist 1 (copy_back dist n out)"
    using copy_back_add [of dist n 1 out] by simp
  also have "copy_back dist n out = out @ take n (drop ?k out)"
    using Suc by simp
  also have "copy_back dist 1 (out @ take n (drop ?k out)) = out @ take n (drop ?k out) @ [out ! (?k + n)]"
    using Suc.prems by (simp add: nth_append)
  also have "take n (drop ?k out) @ [out ! (?k + n)] = take (Suc n) (drop ?k out)"
    using Suc.prems by (simp add: take_Suc_conv_app_nth)
  finally show ?case .
qed simp

lemma copy_back_last: "out \<noteq> [] \<Longrightarrow> copy_back 1 n out = out @ replicate n (last out)"
proof (induction n arbitrary: out)
  case (Suc n)
  then show ?case
    by (simp add: last_conv_nth nth_append)
qed simp

lemma repeat_spec:
  "0 < dist \<Longrightarrow> dist \<le> length out \<Longrightarrow> length out + len \<le> sout \<Longrightarrow> zlib_repeat sout dist len out = Inr (copy_back dist len out)"
proof (induction len arbitrary: out rule: less_induct)
  case (less len)
  show ?case
  proof (cases "len = 0")
    case False
    define copy where "copy = (if len < dist then len else dist)"
    have c: "copy \<le> dist" "copy \<le> len" "0 < copy"
      using False less.prems(1) by (simp_all add: copy_def)
    have "zlib_memcpy sout out dist copy = Inr (copy_back dist copy out)"
      using memcpy_safe [of dist out copy sout] copy_back_short [OF c(1) less.prems(2)] c less.prems by simp
    then have "zlib_repeat sout dist len out = zlib_repeat sout dist (len - copy) (copy_back dist copy out)"
      using False less.prems(1) by (subst zlib_repeat.simps) (simp add: Let_def flip: copy_def)
    also have "\<dots> = Inr (copy_back dist (len - copy) (copy_back dist copy out))"
      using c less.prems by (intro less.IH) simp_all
    finally show ?thesis
      using copy_back_add [of dist copy "len - copy" out] c(2) by simp
  qed (simp add: zlib_repeat.simps)
qed

lemma copy_spec:
  assumes "0 < dist" "dist \<le> length out" "length out + len \<le> sout" "sout < 2 ^ 32"
  shows "zlib_copy sout dist len out = Inr (copy_back dist len out)"
proof -
  have "take_bit 32 (length out) = length out" "take_bit 32 (sout - length out) = sout - length out"
    using assms by (simp_all add: take_bit_nat_eq_self)
  then show ?thesis
    using assms memcpy_safe [of dist out len sout] copy_back_short [of len dist out] repeat_spec [of dist out len sout]
    by (simp add: zlib_copy_def)
qed

lemma memset_spec:
  assumes "out \<noteq> []" "length out + len \<le> sout" "sout < 2 ^ 32"
  shows "zlib_memset_last sout len out = Inr (copy_back 1 len out)"
proof -
  have "take_bit 32 (sout - length out) = sout - length out"
    using assms by (simp add: take_bit_nat_eq_self)
  then show ?thesis
    using assms copy_back_last [OF assms(1)] by (simp add: zlib_memset_last_def zlib_write_def)
qed

section \<open>The main loop\<close>

lemma match_at:
  assumes dec: "decodes tdist dc" and c: "coded dc (dist_index dist)"
    and l: "3 \<le> len" "len \<le> 258" "1 \<le> dist" "dist \<le> 32768" "dist \<le> length out" "length out + len \<le> sout" "sout < 2 ^ 32"
    and s: "at_bits mem base pinend s (bits_of (len_extra ! len_index len) (len - len_base ! len_index len) @
       symbol_bits dc (dist_index dist) @ bits_of (dist_extra ! dist_index dist) (dist - dist_base ! dist_index dist) @ bs)"
    and b: "39 \<le> length bs"
  shows "\<exists>s'. zlib_match mem base pinend sout tdist (257 + len_index len) s out = Inr (s', copy_back dist len out) \<and> at_bits mem base pinend s' bs"
proof -
  let ?db = "bits_of (dist_extra ! dist_index dist) (dist - dist_base ! dist_index dist)"
  obtain s1 where s1: "zlib_length mem base pinend (257 + len_index len) s = Inr (len, s1)"
    "at_bits mem base pinend s1 (symbol_bits dc (dist_index dist) @ ?db @ bs)"
    using length_at [OF l(1,2) s] b by auto
  obtain s2 where s2: "elf_fetch_bits mem base pinend s1 = Inr s2" "at_bits mem base pinend s2 (symbol_bits dc (dist_index dist) @ ?db @ bs)" "15 \<le> zi_bits s2"
    using fetch_at [OF s1(2)] b by auto
  obtain s3 where s3: "zlib_symbol tdist s2 = Inr (dist_index dist, s3)" "at_bits mem base pinend s3 (?db @ bs)"
    using symbol_at [OF dec c s2(2,3)] by auto
  obtain s4 where s4: "zlib_distance mem base pinend (dist_index dist) s3 = Inr (dist, s4)" "at_bits mem base pinend s4 bs"
    using distance_at [OF l(3,4) s3(2) b] by auto
  note i = dist_index_spec [OF l(3,4)]
  show ?thesis
  proof (cases "dist_index dist = 0")
    case True
    then have "dist = 1" "s4 = s3"
      using s4(1) by (simp_all add: zlib_distance_def)
    moreover have "out \<noteq> []"
      using l(3,5) by auto
    ultimately show ?thesis
      using True s1(1) s2(1) s3(1) s4(2) l memset_spec [of out len sout] by (auto simp: zlib_match_def)
  next
    case False
    then show ?thesis
      using s1(1) s2(1) s3(1) s4 l i(1) copy_spec [of dist out len sout] by (auto simp: zlib_match_def)
  qed
qed

lemma expand_longer: "length out \<le> length (expand out ts)"
proof (induction out ts rule: expand.induct)
  case (2 out b ts)
  then show ?case
    by simp
next
  case (3 out len dist ts)
  then show ?case
    by simp
qed simp

lemma values_at:
  assumes dec: "decodes tlit lc" "decodes tdist dc" and sout: "sout < 2 ^ 32" and b: "39 \<le> lc ! 256 + length bs"
  shows "tokens_ok lc dc (length out) ts \<Longrightarrow> length (expand out ts) \<le> sout \<Longrightarrow> length ts < fuel \<Longrightarrow>
    at_bits mem base pinend s (concat (map (token_bits lc dc) ts) @ symbol_bits lc 256 @ bs) \<Longrightarrow>
    \<exists>s'. zlib_values mem base pinend sout tlit tdist fuel s out = Inr (s', expand out ts) \<and> at_bits mem base pinend s' bs"
proof (induction ts arbitrary: out fuel s)
  case Nil
  obtain f where f: "fuel = Suc f"
    using Nil.prems(3) by (cases fuel) simp_all
  have s: "at_bits mem base pinend s (symbol_bits lc 256 @ bs)"
    using Nil.prems(4) by simp
  then obtain s1 where s1: "elf_fetch_bits mem base pinend s = Inr s1" "at_bits mem base pinend s1 (symbol_bits lc 256 @ bs)" "15 \<le> zi_bits s1"
    using fetch_at [OF s] b by (auto simp: symbol_bits_def)
  then show ?case
    using symbol_at [OF dec(1) _ s1(2,3)] Nil.prems(1) by (auto simp: f)
next
  case (Cons t ts)
  let ?bs = "concat (map (token_bits lc dc) ts) @ symbol_bits lc 256 @ bs"
  obtain f where f: "fuel = Suc f" "length ts < f"
    using Cons.prems(3) by (cases fuel) simp_all
  have s: "at_bits mem base pinend s (token_bits lc dc t @ ?bs)"
    using Cons.prems(4) by simp
  have bs: "39 \<le> length ?bs"
    using b by (simp add: symbol_bits_def)
  then obtain s1 where s1: "elf_fetch_bits mem base pinend s = Inr s1" "at_bits mem base pinend s1 (token_bits lc dc t @ ?bs)" "15 \<le> zi_bits s1"
    using fetch_at [OF s] by auto
  show ?case
  proof (cases t)
    case (Literal c)
    have c: "unat c < 256" "coded lc (unat c)" "length out < sout"
      using unat_byte [of c] Cons.prems(1,2) expand_longer [of "out @ [c]" ts] by (simp_all add: Literal)
    obtain s2 where s2: "zlib_symbol tlit s1 = Inr (unat c, s2)" "at_bits mem base pinend s2 ?bs"
      using symbol_at [OF dec(1) c(2), of mem base pinend s1 ?bs] s1 by (auto simp: Literal)
    have "zlib_values mem base pinend sout tlit tdist fuel s out = zlib_values mem base pinend sout tlit tdist f s2 (out @ [c])"
      using s1(1) s2(1) c by (simp add: f(1) write_safe)
    then show ?thesis
      using Cons.IH [of "out @ [c]" f s2] Cons.prems(1,2) f(2) s2(2) by (simp add: Literal)
  next
    case (Copy len dist)
    let ?i = "257 + len_index len"
    have k: "3 \<le> len" "len \<le> 258" "1 \<le> dist" "dist \<le> 32768" "dist \<le> length out" "coded lc ?i" "coded dc (dist_index dist)"
      "tokens_ok lc dc (length out + len) ts"
      using Cons.prems(1) by (simp_all add: Copy)
    have l: "length out + len \<le> sout"
      using Cons.prems(2) expand_longer [of "copy_back dist len out" ts] by (simp add: Copy)
    let ?rest = "bits_of (len_extra ! len_index len) (len - len_base ! len_index len) @
       symbol_bits dc (dist_index dist) @ bits_of (dist_extra ! dist_index dist) (dist - dist_base ! dist_index dist) @ ?bs"
    obtain s2 where s2: "zlib_symbol tlit s1 = Inr (?i, s2)" "at_bits mem base pinend s2 ?rest"
      using symbol_at [OF dec(1) k(6), of mem base pinend s1 ?rest] s1 by (auto simp: Copy)
    obtain s3 where s3: "zlib_match mem base pinend sout tdist ?i s2 out = Inr (s3, copy_back dist len out)" "at_bits mem base pinend s3 ?bs"
      using match_at [OF dec(2) k(7) k(1-5) l sout s2(2) bs] by auto
    have "zlib_values mem base pinend sout tlit tdist fuel s out = zlib_values mem base pinend sout tlit tdist f s3 (copy_back dist len out)"
      using s1(1) s2(1) s3(1) by (simp add: f(1))
    then show ?thesis
      using Cons.IH [of "copy_back dist len out" f s3] Cons.prems(2) k(8) f(2) s3(2) by (simp add: Copy)
  qed
qed

end
