(* ===== verification/Zlib_Header.thy ===== *)
theory Zlib_Header
  imports Zlib_Values
begin

text \<open>
  The header of a block with its own codes, by RFC 1951, section 3.2.7, and that the decompressor
  reads the code lengths and builds the tables for them.
\<close>

section \<open>Code lengths\<close>

text \<open>Section 3.2.7: a code length, the previous one 3 to 6 times, and zeros.\<close>

datatype len_token = Len nat | Again nat | Zeros nat | ManyZeros nat

fun expand_lens :: "nat list \<Rightarrow> len_token list \<Rightarrow> nat list" where
  "expand_lens lens [] = lens"
| "expand_lens lens (Len v # ts) = expand_lens (lens @ [v]) ts"
| "expand_lens lens (Again n # ts) = expand_lens (lens @ replicate n (last lens)) ts"
| "expand_lens lens (Zeros n # ts) = expand_lens (lens @ replicate n 0) ts"
| "expand_lens lens (ManyZeros n # ts) = expand_lens (lens @ replicate n 0) ts"

fun len_token_bits :: "nat list \<Rightarrow> len_token \<Rightarrow> bool list" where
  "len_token_bits cl (Len v) = symbol_bits cl v"
| "len_token_bits cl (Again n) = symbol_bits cl 16 @ bits_of 2 (n - 3)"
| "len_token_bits cl (Zeros n) = symbol_bits cl 17 @ bits_of 3 (n - 3)"
| "len_token_bits cl (ManyZeros n) = symbol_bits cl 18 @ bits_of 7 (n - 11)"

fun lens_ok :: "nat list \<Rightarrow> bool \<Rightarrow> len_token list \<Rightarrow> bool" where
  "lens_ok cl started [] \<longleftrightarrow> True"
| "lens_ok cl started (Len v # ts) \<longleftrightarrow> v < 16 \<and> coded cl v \<and> lens_ok cl True ts"
| "lens_ok cl started (Again n # ts) \<longleftrightarrow> started \<and> 3 \<le> n \<and> n \<le> 6 \<and> coded cl 16 \<and> lens_ok cl True ts"
| "lens_ok cl started (Zeros n # ts) \<longleftrightarrow> 3 \<le> n \<and> n \<le> 10 \<and> coded cl 17 \<and> lens_ok cl True ts"
| "lens_ok cl started (ManyZeros n # ts) \<longleftrightarrow> 11 \<le> n \<and> n \<le> 138 \<and> coded cl 18 \<and> lens_ok cl True ts"

lemma expand_lens_longer: "length lens \<le> length (expand_lens lens ts)"
  by (induction lens ts rule: expand_lens.induct) auto

lemma lookup_primary:
  assumes "zlib_lookup table x = Inr (v, l)" "l \<le> 7"
  shows "\<exists>t. z_at table (x AND 0xff) = Inr t \<and> \<not> entry_secondary t \<and> entry_value t = v \<and> entry_bits t + 1 = l"
proof -
  obtain t where t: "z_at table (x AND 0xff) = Inr t"
    using assms(1) by (auto simp: zlib_lookup_def res_simps)
  show ?thesis
    using assms unfolding zlib_lookup_def t by (auto simp: res_simps Let_def split: if_splits)
qed

lemma primary_at:
  assumes "decodes table cl" "coded cl v" "\<forall>c \<in> set cl. c \<le> 7" "at_bits mem base pinend s (symbol_bits cl v @ bs)" "15 \<le> zi_bits s"
  shows "\<exists>t. z_at table (zi_val s AND 0xff) = Inr t \<and> \<not> entry_secondary t \<and> entry_value t = v \<and>
    at_bits mem base pinend (zlib_skip (entry_bits t + 1) s) bs \<and> 8 \<le> zi_bits (zlib_skip (entry_bits t + 1) s)"
proof -
  note l = lookup_at [OF assms(1,2,4,5)]
  have "cl ! v \<le> 7"
    using assms(2,3) by (simp add: coded_def)
  then show ?thesis
    using lookup_primary [OF l(1)] l(2,3) assms(5) by auto
qed

text \<open>A repetition: the symbol and \<open>w\<close> more bits.\<close>

lemma repetition_at:
  assumes "decodes table cl" "coded cl v" "\<forall>c \<in> set cl. c \<le> 7" "at_bits mem base pinend s (symbol_bits cl v @ bits_of w x @ bs)"
    and "39 \<le> length bs" "w \<le> 7" "x < 2 ^ w"
  obtains s1 e where "elf_fetch_bits mem base pinend s = Inr s1" "z_at table (zi_val s1 AND 0xff) = Inr e" "\<not> entry_secondary e" "entry_value e = v"
    "zlib_low w (zlib_skip (entry_bits e + 1) s1) = x" "at_bits mem base pinend (zlib_skip w (zlib_skip (entry_bits e + 1) s1)) bs"
proof -
  obtain s1 where s1: "elf_fetch_bits mem base pinend s = Inr s1" "at_bits mem base pinend s1 (symbol_bits cl v @ bits_of w x @ bs)" "15 \<le> zi_bits s1"
    using fetch_at [OF assms(4)] assms(5) by auto
  obtain e where e: "z_at table (zi_val s1 AND 0xff) = Inr e" "\<not> entry_secondary e" "entry_value e = v"
    "at_bits mem base pinend (zlib_skip (entry_bits e + 1) s1) (bits_of w x @ bs)" "8 \<le> zi_bits (zlib_skip (entry_bits e + 1) s1)"
    using primary_at [OF assms(1-3) s1(2,3)] by blast
  show thesis
    using that [OF s1(1) e(1-3)] skip_at [OF e(4)] e(5) assms(6,7) by (simp add: num_of_bits_of)
qed

lemma read_lens_at:
  assumes dec: "decodes table cl" and small: "\<forall>c \<in> set cl. c \<le> 7" and b: "39 \<le> length bs"
  shows "lens_ok cl (lens \<noteq> []) ts \<Longrightarrow> n = length (expand_lens lens ts) \<Longrightarrow> at_bits mem base pinend s (concat (map (len_token_bits cl) ts) @ bs) \<Longrightarrow>
    \<exists>s'. zlib_read_lens mem base pinend table n s lens = Inr (s', expand_lens lens ts) \<and> at_bits mem base pinend s' bs"
proof (induction ts arbitrary: lens s)
  case Nil
  then show ?case
    by (simp add: zlib_read_lens.simps)
next
  case (Cons t ts)
  let ?bs = "concat (map (len_token_bits cl) ts) @ bs"
  let ?run = "\<lambda>s lens. zlib_read_lens mem base pinend table n s lens"
  have s: "at_bits mem base pinend s (len_token_bits cl t @ ?bs)"
    using Cons.prems(3) by simp
  have b': "39 \<le> length ?bs"
    using b by simp
  have step: "\<exists>s'. ?run s lens = Inr (s', expand_lens lens (t # ts)) \<and> at_bits mem base pinend s' bs"
    if "new \<noteq> [] \<Longrightarrow> length lens + length new \<le> n \<Longrightarrow> ?run s lens = ?run s2 (lens @ new)"
      and "lens_ok cl True ts" "expand_lens lens (t # ts) = expand_lens (lens @ new) ts" "new \<noteq> []" "at_bits mem base pinend s2 ?bs" for new s2
    using Cons.IH [of "lens @ new" s2] that Cons.prems(2) expand_lens_longer [of "lens @ new" ts] by simp
  show ?case
  proof (cases t)
    case (Len v)
    obtain s1 where s1: "elf_fetch_bits mem base pinend s = Inr s1" "at_bits mem base pinend s1 (symbol_bits cl v @ ?bs)" "15 \<le> zi_bits s1"
      using fetch_at [OF s] b' by (auto simp: Len)
    obtain e where e: "z_at table (zi_val s1 AND 0xff) = Inr e" "\<not> entry_secondary e" "entry_value e = v"
      "at_bits mem base pinend (zlib_skip (entry_bits e + 1) s1) ?bs"
      using primary_at [OF dec _ small s1(2,3)] Cons.prems(1) by (auto simp: Len)
    show ?thesis
      by (rule step [OF _ _ _ _ e(4), of "[v]"]) (use s1(1) e Cons.prems(1) zlib_read_lens.simps [of mem base pinend table n s lens] in \<open>auto simp: Len Let_def\<close>)
  next
    case (Again k)
    obtain s1 e where e: "elf_fetch_bits mem base pinend s = Inr s1" "z_at table (zi_val s1 AND 0xff) = Inr e" "\<not> entry_secondary e" "entry_value e = 16"
      "zlib_low 2 (zlib_skip (entry_bits e + 1) s1) = k - 3" "at_bits mem base pinend (zlib_skip 2 (zlib_skip (entry_bits e + 1) s1)) ?bs"
      by (rule repetition_at [OF dec _ small _ b', of 16 mem base pinend s 2 "k - 3"]) (use s Cons.prems(1) in \<open>auto simp: Again\<close>)
    show ?thesis
      by (rule step [OF _ _ _ _ e(6), of "replicate k (last lens)"]) (use e Cons.prems(1) zlib_read_lens.simps [of mem base pinend table n s lens] in \<open>auto simp: Again Let_def\<close>)
  next
    case (Zeros k)
    obtain s1 e where e: "elf_fetch_bits mem base pinend s = Inr s1" "z_at table (zi_val s1 AND 0xff) = Inr e" "\<not> entry_secondary e" "entry_value e = 17"
      "zlib_low 3 (zlib_skip (entry_bits e + 1) s1) = k - 3" "at_bits mem base pinend (zlib_skip 3 (zlib_skip (entry_bits e + 1) s1)) ?bs"
      by (rule repetition_at [OF dec _ small _ b', of 17 mem base pinend s 3 "k - 3"]) (use s Cons.prems(1) in \<open>auto simp: Zeros\<close>)
    show ?thesis
      by (rule step [OF _ _ _ _ e(6), of "replicate k 0"]) (use e Cons.prems(1) zlib_read_lens.simps [of mem base pinend table n s lens] in \<open>auto simp: Zeros Let_def\<close>)
  next
    case (ManyZeros k)
    obtain s1 e where e: "elf_fetch_bits mem base pinend s = Inr s1" "z_at table (zi_val s1 AND 0xff) = Inr e" "\<not> entry_secondary e" "entry_value e = 18"
      "zlib_low 7 (zlib_skip (entry_bits e + 1) s1) = k - 11" "at_bits mem base pinend (zlib_skip 7 (zlib_skip (entry_bits e + 1) s1)) ?bs"
      by (rule repetition_at [OF dec _ small _ b', of 18 mem base pinend s 7 "k - 11"]) (use s Cons.prems(1) in \<open>auto simp: ManyZeros\<close>)
    show ?thesis
      by (rule step [OF _ _ _ _ e(6), of "replicate k 0"]) (use e Cons.prems(1) zlib_read_lens.simps [of mem base pinend table n s lens] in \<open>auto simp: ManyZeros Let_def\<close>)
  qed
qed


section \<open>Blocks with their own codes\<close>

text \<open>The header of such a block: how many codes there are, the lengths of the code length codes, and the code lengths.\<close>

record dyn_header =
  dh_nlit :: nat
  dh_ndist :: nat
  dh_nclen :: nat
  dh_cl :: "nat list"
  dh_lens :: "len_token list"

definition cl_order :: "nat list" where
  "cl_order = [16, 17, 18, 0, 8, 7, 9, 6, 10, 5, 11, 4, 12, 3, 13, 2, 14, 1, 15]"

definition header_bits :: "dyn_header \<Rightarrow> bool list" where
  "header_bits h = bits_of 5 (dh_nlit h - 257) @ bits_of 5 (dh_ndist h - 1) @ bits_of 4 (dh_nclen h - 4) @
     concat (map (\<lambda>i. bits_of 3 (dh_cl h ! i)) (take (dh_nclen h) cl_order)) @ concat (map (len_token_bits (dh_cl h)) (dh_lens h))"

definition lit_codes :: "dyn_header \<Rightarrow> nat list" where
  "lit_codes h = take (dh_nlit h) (expand_lens [] (dh_lens h))"

definition dist_codes :: "dyn_header \<Rightarrow> nat list" where
  "dist_codes h = drop (dh_nlit h) (expand_lens [] (dh_lens h))"

text \<open>The code builds a table from these lengths.\<close>

definition builds :: "nat list \<Rightarrow> bool" where
  "builds codes \<longleftrightarrow> (\<forall>work. 316 \<le> length work \<longrightarrow> elf_zlib_inflate_table codes work \<noteq> Inl Failed)"

definition header_ok :: "dyn_header \<Rightarrow> bool" where
  "header_ok h \<longleftrightarrow>
     257 \<le> dh_nlit h \<and> dh_nlit h \<le> 286 \<and> 1 \<le> dh_ndist h \<and> dh_ndist h \<le> 30 \<and> 4 \<le> dh_nclen h \<and> dh_nclen h \<le> 19 \<and>
     length (dh_cl h) = 19 \<and> (\<forall>c \<in> set (dh_cl h). c \<le> 7) \<and> (\<forall>i \<in> set (drop (dh_nclen h) cl_order). dh_cl h ! i = 0) \<and>
     lens_ok (dh_cl h) False (dh_lens h) \<and> length (expand_lens [] (dh_lens h)) = dh_nlit h + dh_ndist h \<and>
     builds (dh_cl h) \<and> builds (lit_codes h) \<and> builds (dist_codes h)"

lemma builds_table:
  assumes "builds codes" "length codes \<le> 316" "316 \<le> length work"
  shows "\<exists>table work'. elf_zlib_inflate_table codes work = Inr (table, work') \<and> decodes table codes \<and> length work' = length work"
proof -
  have "length codes \<le> length work" "length codes \<le> 512"
    using assms(2,3) by simp_all
  then obtain table work' where t: "elf_zlib_inflate_table codes work = Inr (table, work')" "length work' = length work"
    "\<forall>v x. v < length codes \<and> 0 < codes ! v \<and> (v \<noteq> 0 \<or> codes ! v \<noteq> 1) \<and> x mod 2 ^ (codes ! v) = stream_code codes v \<longrightarrow>
      zlib_lookup table x = Inr (v, codes ! v)"
    using inflate_table_spec [of codes work] assms(1,3) by (auto simp: builds_def)
  have "decodes table codes"
    unfolding decodes_def using t(3) unfolding stream_code_def by blast
  then show ?thesis
    using t by blast
qed

lemma low3: "c \<le> 7 \<Longrightarrow> num_of (bits_of 3 c) = c"
  by (simp add: num_of_bits_of)

lemma codebits_at:
  assumes small: "\<And>i. i \<in> snd ` set steps \<Longrightarrow> cl ! i \<le> (7 :: nat)" and b: "39 \<le> length bs"
  shows "steps_ok n steps \<Longrightarrow> n \<le> zi_bits s \<Longrightarrow> at_bits mem base pinend s (concat (map (\<lambda>(f, i). bits_of 3 (cl ! i)) steps) @ bs) \<Longrightarrow>
    \<exists>s'. zlib_codebits mem base pinend steps s cb = Inr (s', foldl (\<lambda>cb i. cb[i := cl ! i]) cb (map snd steps)) \<and> at_bits mem base pinend s' bs"
  using small
proof (induction n steps arbitrary: s cb rule: steps_ok.induct)
  case (2 n fetch i steps)
  let ?bs = "concat (map (\<lambda>(f, i). bits_of 3 (cl ! i)) steps) @ bs"
  have s: "at_bits mem base pinend s (bits_of 3 (cl ! i) @ ?bs)"
    using 2(4) by simp
  obtain s1 where s1: "(if fetch then elf_fetch_bits mem base pinend s else Inr s) = Inr s1"
    "at_bits mem base pinend s1 (bits_of 3 (cl ! i) @ ?bs)" "(if fetch then 15 else n) \<le> zi_bits s1"
    using fetch_at [OF s] s 2(3) b by (cases fetch) auto
  have three: "3 \<le> zi_bits s1"
    using 2(2) s1(3) by (auto split: if_splits)
  note k = skip_at [OF s1(2), unfolded length_bits_of, OF three]
  have "cl ! i \<le> 7"
    using 2(5) by simp
  then have "zlib_low 3 s1 = cl ! i"
    using k(3) low3 by simp
  moreover have "\<exists>s'. zlib_codebits mem base pinend steps (zlib_skip 3 s1) (cb[i := cl ! i]) =
      Inr (s', foldl (\<lambda>cb i. cb[i := cl ! i]) (cb[i := cl ! i]) (map snd steps)) \<and> at_bits mem base pinend s' bs"
    using 2(2,5) k(1,2) s1(3) by (intro 2(1)) auto
  ultimately show ?case
    using s1(1) by simp
qed simp

lemma foldl_update:
  "length (foldl (\<lambda>cb i. cb[i := f i]) cb is) = length cb"
  "k < length cb \<Longrightarrow> foldl (\<lambda>cb i. cb[i := f i]) cb is ! k = (if k \<in> set is then f k else cb ! k)"
  by (induction "is" arbitrary: cb) (auto simp: nth_list_update)

lemma cl_order_all: "set cl_order = {..<19}" "cl_order = [16, 17, 18, 0] @ map snd zlib_codebits_steps"
proof -
  have "distinct cl_order" "length cl_order = 19" "set cl_order \<subseteq> {..<19}"
    by (simp_all add: cl_order_def)
  then show "set cl_order = {..<19}"
    by (intro card_subset_eq) (simp_all add: distinct_card)
qed (simp add: cl_order_def zlib_codebits_steps_def)

text \<open>The code lengths that are not in the header are 0.\<close>

lemma codebits_result:
  assumes "length cl = 19" "4 \<le> n" "\<forall>i \<in> set (drop n cl_order). cl ! i = (0 :: nat)"
  shows "foldl (\<lambda>cb i. cb[i := cl ! i]) (replicate 19 0) (take n cl_order) = cl"
proof (rule nth_equalityI)
  fix k
  assume "k < length (foldl (\<lambda>cb i. cb[i := cl ! i]) (replicate 19 0) (take n cl_order))"
  then have k: "k < 19"
    by (simp add: foldl_update)
  then have "k \<in> set (take n cl_order) \<or> k \<in> set (drop n cl_order)"
    using cl_order_all(1) set_append [of "take n cl_order" "drop n cl_order"] by auto
  then show "foldl (\<lambda>cb i. cb[i := cl ! i]) (replicate 19 0) (take n cl_order) ! k = cl ! k"
    using k assms(3) by (auto simp: foldl_update)
qed (simp add: foldl_update assms(1))

lemma code_tables_at:
  assumes h: "header_ok h" and work: "316 \<le> length work" and b: "39 \<le> length bs" and lit: "coded (lit_codes h) 256"
    and s: "at_bits mem base pinend s (concat (map (len_token_bits (dh_cl h)) (dh_lens h)) @ bs)"
  shows "\<exists>s' tlit tdist work'. zlib_code_tables mem base pinend (dh_nlit h) (dh_ndist h) (dh_cl h) s work = Inr (s', tlit, tdist, work') \<and>
    at_bits mem base pinend s' bs \<and> decodes tlit (lit_codes h) \<and> decodes tdist (dist_codes h) \<and> length work' = length work"
proof -
  let ?lens = "expand_lens [] (dh_lens h)"
  have o: "length (dh_cl h) \<le> 316" "length (lit_codes h) \<le> 316" "length (dist_codes h) \<le> 316" "\<forall>c \<in> set (dh_cl h). c \<le> 7"
    "builds (dh_cl h)" "builds (lit_codes h)" "builds (dist_codes h)" "length ?lens = dh_nlit h + dh_ndist h" "lens_ok (dh_cl h) False (dh_lens h)" "257 \<le> dh_nlit h"
    using h by (auto simp: header_ok_def lit_codes_def dist_codes_def)
  obtain t w1 where t: "elf_zlib_inflate_table (dh_cl h) work = Inr (t, w1)" "decodes t (dh_cl h)" "length w1 = length work"
    using builds_table [OF o(5,1) work] by blast
  obtain s1 where s1: "zlib_read_lens mem base pinend t (dh_nlit h + dh_ndist h) s [] = Inr (s1, ?lens)" "at_bits mem base pinend s1 bs"
    using read_lens_at [OF t(2) o(4) b _ _ s, of "[]"] o(8,9) by auto
  obtain tl w2 where tl: "elf_zlib_inflate_table (lit_codes h) w1 = Inr (tl, w2)" "decodes tl (lit_codes h)" "length w2 = length w1"
    using builds_table [OF o(6,2), of w1] t(3) work by auto
  obtain td w3 where td: "elf_zlib_inflate_table (dist_codes h) w2 = Inr (td, w3)" "decodes td (dist_codes h)" "length w3 = length w2"
    using builds_table [OF o(7,3), of w2] tl(3) t(3) work by auto
  have "?lens ! 256 \<noteq> 0"
    using lit o(10) by (simp add: coded_def lit_codes_def)
  then show ?thesis
    using t s1 tl td unfolding zlib_code_tables_def lit_codes_def dist_codes_def by simp
qed

lemma field_at:
  assumes "at_bits mem base pinend s (as @ bits_of w x @ bs)" "length as = n" "n + w \<le> zi_bits s" "x < 2 ^ w"
  shows "zlib_low w (zlib_skip n s) = x"
  using skip_at(3) [OF skip_at(1) [OF assms(1)]] skip_at(2) [OF assms(1)] assms(2-4) by (simp add: num_of_bits_of)

lemma counts_at:
  assumes "at_bits mem base pinend s (bits_of 5 a @ bits_of 5 b @ bits_of 4 c @ bs)" "39 \<le> length bs" "a < 2 ^ 5" "b < 2 ^ 5" "c < 2 ^ 4"
  obtains s1 where "elf_fetch_bits mem base pinend s = Inr s1" "zlib_low 5 s1 = a" "zlib_low 5 (zlib_skip 5 s1) = b" "zlib_low 4 (zlib_skip 10 s1) = c"
    "at_bits mem base pinend (zlib_skip 14 s1) bs"
proof -
  let ?a = "bits_of 5 a" and ?b = "bits_of 5 b" and ?c = "bits_of 4 c"
  obtain s1 where s1: "elf_fetch_bits mem base pinend s = Inr s1" "15 \<le> zi_bits s1" "at_bits mem base pinend s1 (?a @ ?b @ ?c @ bs)"
    using fetch_at [OF assms(1)] assms(2) by auto
  have "zlib_low 5 s1 = a" "zlib_low 5 (zlib_skip 5 s1) = b" "zlib_low 4 (zlib_skip 10 s1) = c"
    using skip_at(3) [OF s1(3)] field_at [of mem base pinend s1 ?a 5 b] field_at [of mem base pinend s1 "?a @ ?b" 4 c] s1(2,3) assms(3-5)
    by (simp_all add: num_of_bits_of)
  moreover have "at_bits mem base pinend (zlib_skip 14 s1) bs"
    using skip_at(1) [of mem base pinend s1 "?a @ ?b @ ?c" bs] s1(2,3) by simp
  ultimately show thesis
    using that [OF s1(1)] by blast
qed

lemma four_lengths_at:
  assumes "at_bits mem base pinend s (bits_of 3 a @ bits_of 3 b @ bits_of 3 c @ bits_of 3 d @ bs)" "39 \<le> length bs" "a \<le> 7" "b \<le> 7" "c \<le> 7" "d \<le> 7"
  obtains s1 where "elf_fetch_bits mem base pinend s = Inr s1" "zlib_low 3 s1 = a" "zlib_low 3 (zlib_skip 3 s1) = b" "zlib_low 3 (zlib_skip 6 s1) = c"
    "zlib_low 3 (zlib_skip 9 s1) = d" "at_bits mem base pinend (zlib_skip 12 s1) bs" "3 \<le> zi_bits (zlib_skip 12 s1)"
proof -
  let ?a = "bits_of 3 a" and ?b = "bits_of 3 b" and ?c = "bits_of 3 c" and ?d = "bits_of 3 d"
  obtain s1 where s1: "elf_fetch_bits mem base pinend s = Inr s1" "15 \<le> zi_bits s1" "at_bits mem base pinend s1 (?a @ ?b @ ?c @ ?d @ bs)"
    using fetch_at [OF assms(1)] assms(2) by auto
  have "zlib_low 3 s1 = a" "zlib_low 3 (zlib_skip 3 s1) = b" "zlib_low 3 (zlib_skip 6 s1) = c" "zlib_low 3 (zlib_skip 9 s1) = d"
    using skip_at(3) [OF s1(3)] field_at [of mem base pinend s1 ?a 3 b] field_at [of mem base pinend s1 "?a @ ?b" 3 c]
      field_at [of mem base pinend s1 "?a @ ?b @ ?c" 3 d] s1(2,3) assms(3-6)
    by (simp_all add: num_of_bits_of)
  moreover have "at_bits mem base pinend (zlib_skip 12 s1) bs" "3 \<le> zi_bits (zlib_skip 12 s1)"
    using skip_at(1,2) [of mem base pinend s1 "?a @ ?b @ ?c @ ?d" bs] s1(2,3) by simp_all
  ultimately show thesis
    using that [OF s1(1)] by blast
qed

lemma dynamic_at:
  assumes h: "header_ok h" and work: "316 \<le> length work" and b: "39 \<le> length bs" and lit: "coded (lit_codes h) 256"
    and s: "at_bits mem base pinend s (header_bits h @ bs)"
  shows "\<exists>s' tlit tdist work'. zlib_dynamic mem base pinend s work = Inr (s', tlit, tdist, work') \<and>
    at_bits mem base pinend s' bs \<and> decodes tlit (lit_codes h) \<and> decodes tdist (dist_codes h) \<and> length work' = length work"
proof -
  define cl where "cl = dh_cl h"
  define n where "n = dh_nclen h"
  let ?lens = "concat (map (len_token_bits cl) (dh_lens h)) @ bs"
  let ?c = "\<lambda>i. bits_of 3 (cl ! i)"
  let ?more = "concat (map (\<lambda>(f, i). ?c i) (take (n - 4) zlib_codebits_steps)) @ ?lens"
  have o: "257 \<le> dh_nlit h" "dh_nlit h \<le> 286" "1 \<le> dh_ndist h" "dh_ndist h \<le> 30" "4 \<le> n" "n \<le> 19" "length cl = 19" "\<forall>c \<in> set cl. c \<le> 7"
    "\<forall>i \<in> set (drop n cl_order). cl ! i = 0"
    using h by (simp_all add: header_ok_def cl_def n_def)
  have sm: "cl ! i \<le> 7" if "i < 19" for i
    using o(7,8) that by (metis nth_mem)
  have b': "39 \<le> length ?lens"
    using b by simp
  have split: "take n cl_order = [16, 17, 18, 0] @ take (n - 4) (map snd zlib_codebits_steps)"
    using o(5) by (simp add: cl_order_all(2) take_Cons' numeral_eq_Suc)
  obtain s1 where s1: "elf_fetch_bits mem base pinend s = Inr s1" "zlib_low 5 s1 = dh_nlit h - 257" "zlib_low 5 (zlib_skip 5 s1) = dh_ndist h - 1"
    "zlib_low 4 (zlib_skip 10 s1) = n - 4" "at_bits mem base pinend (zlib_skip 14 s1) (?c 16 @ ?c 17 @ ?c 18 @ ?c 0 @ ?more)"
    by (rule counts_at [of mem base pinend s "dh_nlit h - 257" "dh_ndist h - 1" "n - 4" "?c 16 @ ?c 17 @ ?c 18 @ ?c 0 @ ?more"])
      (use s b o in \<open>auto simp: header_bits_def cl_def n_def split [unfolded cl_def n_def] take_map comp_def case_prod_unfold\<close>)
  obtain s3 where s3: "elf_fetch_bits mem base pinend (zlib_skip 14 s1) = Inr s3" "zlib_low 3 s3 = cl ! 16" "zlib_low 3 (zlib_skip 3 s3) = cl ! 17"
    "zlib_low 3 (zlib_skip 6 s3) = cl ! 18" "zlib_low 3 (zlib_skip 9 s3) = cl ! 0" "at_bits mem base pinend (zlib_skip 12 s3) ?more" "3 \<le> zi_bits (zlib_skip 12 s3)"
    by (rule four_lengths_at [OF s1(5)]) (use b sm in auto)
  have "snd ` set (take (n - 4) zlib_codebits_steps) \<subseteq> set cl_order"
    using set_take_subset [of "n - 4" zlib_codebits_steps] by (auto simp: cl_order_all(2))
  then have small: "cl ! i \<le> 7" if "i \<in> snd ` set (take (n - 4) zlib_codebits_steps)" for i
    using that sm cl_order_all(1) by blast
  note run = codebits_at [of "take (n - 4) zlib_codebits_steps" cl, OF small b' codebits_steps_ok s3(7,6)]
  obtain s5 where s5: "zlib_codebits mem base pinend (take (n - 4) zlib_codebits_steps) (zlib_skip 12 s3)
      ((replicate 19 0)[16 := cl ! 16, 17 := cl ! 17, 18 := cl ! 18, 0 := cl ! 0]) = Inr (s5, cl)" "at_bits mem base pinend s5 ?lens"
    using run [of "(replicate 19 0)[16 := cl ! 16, 17 := cl ! 17, 18 := cl ! 18, 0 := cl ! 0]"] codebits_result [OF o(7,5,9)]
    by (auto simp: split take_map)
  have "zlib_low 5 s1 + 257 = dh_nlit h" "zlib_low 5 (zlib_skip 5 s1) + 1 = dh_ndist h" "zlib_low 4 (zlib_skip 10 s1) + 4 - 4 = n - 4"
    using s1(2-4) o by simp_all
  then show ?thesis
    using code_tables_at [OF h work b lit, of mem base pinend s5] s5 s1(1) s3(1-5) o(2,4)
    by (simp add: zlib_dynamic_def Let_def flip: cl_def)
qed

end
