(* ===== verification/Zlib_Roundtrip.thy ===== *)
theory Zlib_Roundtrip
  imports Zlib_Header
begin

text \<open>
  Stored blocks, sequences of blocks and whole zlib streams: what the format stands for comes out of the decompressor,
  and a stored block at the very end of the input makes it read too far.
\<close>

section \<open>Stored blocks\<close>

lemma bits_of_8_inj: "bits_of 8 (unat a) = bits_of 8 (unat b) \<Longrightarrow> a = (b :: u8)"
proof -
  assume "bits_of 8 (unat a) = bits_of 8 (unat b)"
  then have "unat a mod 2 ^ 8 = unat b mod 2 ^ 8"
    by (metis num_of_bits_of)
  then show ?thesis
    using unat_byte [of a] unat_byte [of b] by (simp add: unsigned_word_eqI)
qed

lemma byte_bits_prefix: "byte_bits m = byte_bits d @ bs \<Longrightarrow> \<exists>m'. m = d @ m' \<and> byte_bits m' = bs"
proof (induction d arbitrary: m)
  case (Cons x d)
  have "m \<noteq> []"
    using arg_cong [OF Cons.prems, of length] by auto
  then obtain y m1 where m: "m = y # m1"
    by (cases m) auto
  have "bits_of 8 (unat y) = bits_of 8 (unat x)" "byte_bits m1 = byte_bits d @ bs"
    using Cons.prems by (simp_all add: m append_eq_append_conv)
  then show ?case
    using Cons.IH bits_of_8_inj unfolding m by fastforce
qed simp

lemma byte_bits_16:
  assumes "byte_bits m = bits_of 16 n @ bs" "n < 2 ^ 16"
  shows "\<exists>b0 b1 m'. m = b0 # b1 # m' \<and> unat b0 OR push_bit 8 (unat b1) = n \<and> byte_bits m' = bs"
proof -
  have "16 \<le> 8 * length m"
    using arg_cong [OF assms(1), of length] by simp
  then obtain b0 b1 m' where m: "m = b0 # b1 # m'"
    by (cases m; cases "tl m") auto
  let ?n = "unat b0 OR push_bit 8 (unat b1)"
  have n: "bits_of 16 ?n = bits_of 8 (unat b0) @ bits_of 8 (unat b1)"
    using bits_of_or [OF unat_byte [of b0], of 8 "unat b1"] by simp
  then have "bits_of 16 ?n @ byte_bits m' = bits_of 16 n @ bs"
    using assms(1) by (simp add: m)
  then have e: "bits_of 16 ?n = bits_of 16 n" "byte_bits m' = bs"
    by (simp_all add: append_eq_append_conv)
  have "?n < 2 ^ 16"
    using or_push_less [OF unat_byte [of b0] unat_byte [of b1]] by simp
  then have "?n = num_of (bits_of 16 ?n)"
    unfolding num_of_bits_of by (rule mod_less [symmetric])
  also have "\<dots> = n"
    unfolding e(1) num_of_bits_of by (rule mod_less) (rule assms(2))
  finally have "?n = n" .
  then show ?thesis
    using m e(2) by blast
qed

text \<open>The bits that are left start in the byte before \<open>pin - bits div 8\<close>; from there on they are whole bytes.\<close>

lemma at_byte:
  assumes "at_bits mem base pinend s (pad @ bs)" "length pad < 8" "8 dvd length bs"
  defines "pin \<equiv> zi_pin s - zi_bits s div 8"
  shows "zlib_back (zi_pin s) (zi_bits s) = Inr pin" and "pin \<le> pinend" and "8 * (pinend - pin) = length bs"
    and "byte_bits (take (pinend - pin) (drop pin mem)) = bs"
proof -
  have a: "reader_ok base s" "zi_pin s \<le> pinend" "pinend \<le> length mem" "rest mem pinend s = pad @ bs" "suffix (pad @ bs) (byte_bits (take pinend mem))"
    using assms(1) by (simp_all add: at_bits_def)
  have r: "zi_bits s \<le> 8 * zi_pin s"
    using reader_okD [OF a(1)] by simp
  show "zlib_back (zi_pin s) (zi_bits s) = Inr pin"
    unfolding pin_def by (rule back_spec [OF r])
  have "zi_bits s + 8 * (pinend - zi_pin s) = length pad + length bs"
    using length_rest [OF a(3), of s] a(4) by simp
  then have "(length pad + length bs) div 8 = zi_bits s div 8 + (pinend - zi_pin s)"
    by (metis div_mult_self2 mult.commute zero_neq_numeral add.commute)
  moreover obtain k where k: "length bs = 8 * k"
    using assms(3) by (auto elim: dvdE)
  ultimately have "k = zi_bits s div 8 + (pinend - zi_pin s)"
    using assms(2) by simp
  moreover have "zi_bits s div 8 \<le> zi_pin s"
    using r by simp
  ultimately have p: "k = pinend - pin"
    using a(2) unfolding pin_def by simp
  then show len: "8 * (pinend - pin) = length bs" and "pin \<le> pinend"
    using k a(2) unfolding pin_def by simp_all
  have "take pinend mem = take pin mem @ take (pinend - pin) (drop pin mem)"
    using take_add [of pin "pinend - pin" mem] \<open>pin \<le> pinend\<close> by simp
  then have b: "byte_bits (take pinend mem) = byte_bits (take pin mem) @ byte_bits (take (pinend - pin) (drop pin mem))"
    by simp
  have "suffix bs (byte_bits (take pinend mem))"
    using a(5) by (rule suffix_appendD)
  then obtain pre where "byte_bits (take pinend mem) = pre @ bs"
    by (auto simp: suffix_def)
  moreover have "length (byte_bits (take (pinend - pin) (drop pin mem))) = length bs"
    using len a(3) \<open>pin \<le> pinend\<close> by simp
  ultimately show "byte_bits (take (pinend - pin) (drop pin mem)) = bs"
    using b by (metis append_eq_append_conv)
qed

text \<open>A stored block is copied; what follows starts at \<open>pin\<close> and still has to be aligned.\<close>

lemma stored_run:
  assumes s: "at_bits mem base pinend s (pad @ bits_of 16 (length d) @ bits_of 16 (0xffff - length d) @ byte_bits d @ bs)"
    and "length pad < 8" "8 dvd length bs" "length d < 2 ^ 16" "length out + length d \<le> sout" "sout < 2 ^ 32" "pinend < 2 ^ 32"
  obtains pin where "zlib_stored mem base pinend sout s out = bind_res (zlib_align mem base \<lparr>zi_pin = pin, zi_val = 0, zi_bits = 0\<rparr>) (\<lambda>s'. Inr (s', out @ d))"
    "pin \<le> pinend" "8 * (pinend - pin) = length bs" "byte_bits (take (pinend - pin) (drop pin mem)) = bs"
proof -
  define pin where "pin = zi_pin s - zi_bits s div 8"
  define m where "m = take (pinend - pin) (drop pin mem)"
  let ?len = "length d"
  let ?bs = "bits_of 16 ?len @ bits_of 16 (0xffff - ?len) @ byte_bits d @ bs"
  have "8 dvd length ?bs"
    using assms(3) by (auto simp: ac_simps dvd_add_right_iff)
  note b = at_byte [OF s assms(2) this, folded pin_def m_def]
  have lm: "pinend \<le> length mem"
    using s by (simp add: at_bits_def)
  obtain b0 b1 m1 where m1: "m = b0 # b1 # m1" "unat b0 OR push_bit 8 (unat b1) = ?len" "byte_bits m1 = bits_of 16 (0xffff - ?len) @ byte_bits d @ bs"
    using byte_bits_16 [OF b(4)] assms(4) by auto
  have c: "0xffff - ?len < 2 ^ 16"
    by (rule le_less_trans [OF diff_le_self]) simp
  obtain b2 b3 m2 where m2: "m1 = b2 # b3 # m2" "unat b2 OR push_bit 8 (unat b3) = 0xffff - ?len" "byte_bits m2 = byte_bits d @ bs"
    using byte_bits_16 [OF m1(3) c] by blast
  obtain m3 where m3: "m2 = d @ m3" "byte_bits m3 = bs"
    using byte_bits_prefix [OF m2(3)] by blast
  have m: "m = [b0, b1, b2, b3] @ d @ m3"
    by (simp add: m1(1) m2(1) m3(1))
  have "length m = pinend - pin"
    using lm by (simp add: m_def)
  then have e: "pin + 4 + ?len + length m3 = pinend"
    using b(2) unfolding m by simp
  have nth: "mem ! (pin + i) = m ! i" if "i < length m" for i
    using that lm b(2) by (simp add: m_def)
  have at: "z_at mem pin = Inr b0" "z_at mem (pin + 1) = Inr b1" "z_at mem (pin + 2) = Inr b2" "z_at mem (pin + 3) = Inr b3"
    using nth [of 0] nth [of 1] nth [of 2] nth [of 3] e lm by (simp_all add: z_at_def m)
  have drop: "take (pinend - pin - k) (drop (pin + k) mem) = drop k m" for k
    by (simp add: m_def drop_take add.commute)
  have "take ?len (take (pinend - pin - 4) (drop (pin + 4) mem)) = d" "min ?len (pinend - pin - 4) = ?len"
    using e unfolding drop by (simp_all add: m)
  then have data: "take ?len (drop (pin + 4) mem) = d"
    by (simp only: take_take)
  have fits: "\<not> pinend - pin < 4" "\<not> take_bit 32 (pinend - (pin + 4)) < ?len" "\<not> take_bit 32 (sout - length out) < ?len" "pin + 4 + ?len \<le> length mem"
    using e lm assms(5-7) by (simp_all add: take_bit_nat_eq_self)
  have run: "zlib_stored mem base pinend sout s out = bind_res (zlib_align mem base \<lparr>zi_pin = pin + 4 + ?len, zi_val = 0, zi_bits = 0\<rparr>) (\<lambda>s'. Inr (s', out @ d))"
    unfolding zlib_stored_def b(1) bind_res_simps at Let_def m1(2) m2(2)
    using fits assms(4,5) data by (simp add: zlib_write_def)
  have "take (pinend - (pin + 4 + ?len)) (drop (pin + 4 + ?len) mem) = m3"
    using drop [of "4 + ?len"] unfolding m drop_append by (simp add: add.assoc diff_diff_eq)
  then have "byte_bits (take (pinend - (pin + 4 + ?len)) (drop (pin + 4 + ?len) mem)) = bs"
    using m3(2) by (simp only:)
  moreover have "pin + 4 + ?len \<le> pinend" "8 * (pinend - (pin + 4 + ?len)) = length bs"
    using e arg_cong [OF m3(2), of length] by simp_all
  ultimately show thesis
    using that [OF run] by blast
qed

lemma stored_at:
  assumes s: "at_bits mem base pinend s (pad @ bits_of 16 (length d) @ bits_of 16 (0xffff - length d) @ byte_bits d @ bs)"
    and "length pad < 8" "8 dvd length bs" "32 \<le> length bs" "length d < 2 ^ 16" "length out + length d \<le> sout" "sout < 2 ^ 32" "pinend < 2 ^ 32"
  shows "\<exists>s'. zlib_stored mem base pinend sout s out = Inr (s', out @ d) \<and> at_bits mem base pinend s' bs"
proof (rule stored_run [OF s assms(2,3,5-8)])
  fix pin
  assume run: "zlib_stored mem base pinend sout s out = bind_res (zlib_align mem base \<lparr>zi_pin = pin, zi_val = 0, zi_bits = 0\<rparr>) (\<lambda>s'. Inr (s', out @ d))"
    and pin: "pin \<le> pinend" "8 * (pinend - pin) = length bs" "byte_bits (take (pinend - pin) (drop pin mem)) = bs"
  have lm: "pinend \<le> length mem" "suffix bs (byte_bits (take pinend mem))"
    using s suffix_appendD unfolding at_bits_def by (simp, metis append.assoc)
  have "pin + 3 \<le> pinend"
    using pin(1,2) assms(4) by linarith
  from align_start_rest [OF this lm(1), of base] show ?thesis
    using run pin(3) lm by (auto simp: at_bits_def)
qed


section \<open>Blocks\<close>

datatype block = Stored "u8 list" | Fixed "token list" | Dynamic dyn_header "token list"

fun expand_block :: "u8 list \<Rightarrow> block \<Rightarrow> u8 list" where
  "expand_block out (Stored d) = out @ d"
| "expand_block out (Fixed ts) = expand out ts"
| "expand_block out (Dynamic h ts) = expand out ts"

text \<open>The data of a block, with the code of the value that ends it.\<close>

definition coded_bits :: "nat list \<Rightarrow> nat list \<Rightarrow> token list \<Rightarrow> bool list" where
  "coded_bits lc dc ts = concat (map (token_bits lc dc) ts) @ symbol_bits lc 256"

fun block_type :: "block \<Rightarrow> nat" where
  "block_type (Stored d) = 0"
| "block_type (Fixed ts) = 1"
| "block_type (Dynamic h ts) = 2"

text \<open>A block after its three header bits; \<open>pos\<close> bits come before it. Stored data starts with a whole byte.\<close>

fun body_bits :: "nat \<Rightarrow> block \<Rightarrow> bool list" where
  "body_bits pos (Stored d) = replicate ((8 - pos mod 8) mod 8) False @ bits_of 16 (length d) @ bits_of 16 (0xffff - length d) @ byte_bits d"
| "body_bits pos (Fixed ts) = coded_bits fixed_codes fixed_dist_codes ts"
| "body_bits pos (Dynamic h ts) = header_bits h @ coded_bits (lit_codes h) (dist_codes h) ts"

definition block_bits :: "nat \<Rightarrow> bool \<Rightarrow> block \<Rightarrow> bool list" where
  "block_bits pos final b = [final] @ bits_of 2 (block_type b) @ body_bits (pos + 3) b"

fun block_ok :: "nat \<Rightarrow> block \<Rightarrow> bool" where
  "block_ok n (Stored d) \<longleftrightarrow> length d < 2 ^ 16"
| "block_ok n (Fixed ts) \<longleftrightarrow> tokens_ok fixed_codes fixed_dist_codes n ts"
| "block_ok n (Dynamic h ts) \<longleftrightarrow> header_ok h \<and> tokens_ok (lit_codes h) (dist_codes h) n ts"

text \<open>The length of the code that ends a block.\<close>

fun block_end :: "block \<Rightarrow> nat" where
  "block_end (Stored d) = 7"
| "block_end (Fixed ts) = 7"
| "block_end (Dynamic h ts) = lit_codes h ! 256"

fun blocks_bits :: "nat \<Rightarrow> block list \<Rightarrow> bool list" where
  "blocks_bits pos [] = []"
| "blocks_bits pos (b # bs) = block_bits pos (bs = []) b @ blocks_bits (pos + length (block_bits pos (bs = []) b)) bs"

text \<open>
  The decompressor always wants fifteen bits, so that the code that ends the last block has to
  have at least seven for the bits of the checksum to be enough.
\<close>

fun blocks_ok :: "u8 list \<Rightarrow> block list \<Rightarrow> bool" where
  "blocks_ok out [] \<longleftrightarrow> True"
| "blocks_ok out (b # bs) \<longleftrightarrow> block_ok (length out) b \<and> (bs = [] \<longrightarrow> 7 \<le> block_end b) \<and> blocks_ok (expand_block out b) bs"

fun expand_blocks :: "u8 list \<Rightarrow> block list \<Rightarrow> u8 list" where
  "expand_blocks out [] = out"
| "expand_blocks out (b # bs) = expand_blocks (expand_block out b) bs"

lemma length_coded_bits: "length (coded_bits lc dc ts) = length (concat (map (token_bits lc dc) ts)) + lc ! 256"
  by (simp add: coded_bits_def symbol_bits_def)

lemma coded_tokens: "tokens_ok lc dc n ts \<Longrightarrow> length ts \<le> length (concat (map (token_bits lc dc) ts)) \<and> coded lc 256"
proof (induction lc dc n ts rule: tokens_ok.induct)
  case (2 lc dc n b ts)
  then show ?case
    by (auto simp: coded_def symbol_bits_def)
next
  case (3 lc dc n len dist ts)
  then show ?case
    by (auto simp: coded_def symbol_bits_def)
qed simp

lemma values_of_block:
  assumes "decodes tlit lc" "decodes tdist dc" "tokens_ok lc dc (length out) ts" "at_bits mem base pinend s (coded_bits lc dc ts @ bs)"
    and "39 \<le> lc ! 256 + length bs" "length (expand out ts) \<le> sout" "sout < 2 ^ 32" "length (coded_bits lc dc ts) \<le> fuel"
  shows "\<exists>s'. zlib_values mem base pinend sout tlit tdist fuel s out = Inr (s', expand out ts) \<and> at_bits mem base pinend s' bs"
proof -
  have "length ts < fuel"
    using coded_tokens [OF assms(3)] assms(8) by (auto simp: length_coded_bits coded_def)
  then show ?thesis
    using values_at [OF assms(1,2,7,5,3,6)] assms(4) by (simp add: coded_bits_def)
qed

lemma pad_dvd: "8 dvd pos + (8 - pos mod 8) mod (8 :: nat)"
proof -
  have "(pos + (8 - pos mod 8) mod 8) mod 8 = (pos mod 8 + (8 - pos mod 8)) mod 8"
    by (simp only: mod_add_left_eq mod_add_right_eq)
  also have "pos mod 8 + (8 - pos mod 8) = 8"
    by (rule le_add_diff_inverse) (simp add: less_imp_le)
  finally show ?thesis
    by (simp only: dvd_eq_mod_eq_0 mod_self)
qed

lemma block_at:
  assumes ok: "block_ok (length out) b" and s: "at_bits mem base pinend s (body_bits pos b @ bs)" and work: "316 \<le> length work"
    and room: "32 \<le> length bs" "39 \<le> block_end b + length bs" and pos: "8 dvd pos + length (body_bits pos b @ bs)"
    and sizes: "length (expand_block out b) \<le> sout" "sout < 2 ^ 32" "pinend < 2 ^ 32" and fuel: "length (body_bits pos b) \<le> fuel"
  shows "\<exists>s' work'. zlib_block mem base pinend sout fuel (block_type b) s work out = Inr (s', work', expand_block out b) \<and>
    at_bits mem base pinend s' bs \<and> length work' = length work"
proof (cases b)
  case (Stored d)
  let ?pad = "replicate ((8 - pos mod 8) mod 8) False"
  have "8 dvd length bs"
  proof -
    have "8 dvd pos + (8 - pos mod 8) mod 8"
      by (rule pad_dvd)
    moreover have "pos + length (body_bits pos b @ bs) = (pos + (8 - pos mod 8) mod 8) + (32 + 8 * length d + length bs)"
      by (simp add: Stored)
    ultimately have "8 dvd 32 + 8 * length d + length bs"
      using pos by (metis dvd_add_right_iff)
    then show ?thesis
      by (simp add: dvd_add_right_iff)
  qed
  then show ?thesis
    using stored_at [of mem base pinend s ?pad d bs out sout] s ok room sizes
    by (auto simp: Stored zlib_block_def)
next
  case (Fixed ts)
  then show ?thesis
    using values_of_block [OF default_decodes default_dist_decodes, of out ts mem base pinend s bs sout fuel] s ok room sizes fuel
      fixed_codes_nth [of 256]
    by (auto simp: zlib_block_def)
next
  case (Dynamic h ts)
  have c: "coded (lit_codes h) 256" "header_ok h"
    using ok coded_tokens by (auto simp: Dynamic)
  let ?bs = "coded_bits (lit_codes h) (dist_codes h) ts @ bs"
  have bs: "39 \<le> length ?bs"
    using room(2) by (simp add: Dynamic length_coded_bits)
  have "at_bits mem base pinend s (header_bits h @ ?bs)"
    using s by (simp add: Dynamic)
  from dynamic_at [OF c(2) work bs c(1) this] obtain s1 tlit tdist work1 where d: "zlib_dynamic mem base pinend s work = Inr (s1, tlit, tdist, work1)" "at_bits mem base pinend s1 ?bs"
    "decodes tlit (lit_codes h)" "decodes tdist (dist_codes h)" "length work1 = length work"
    by blast
  then show ?thesis
    using values_of_block [OF d(3,4), of out ts mem base pinend s1 bs sout fuel] ok room sizes fuel
    by (auto simp: Dynamic zlib_block_def)
qed


lemma block_start:
  assumes s: "at_bits mem base pinend s (block_bits pos final b @ bs)" and l: "39 \<le> length (block_bits pos final b @ bs)"
  shows "\<exists>s1. elf_fetch_bits mem base pinend s = Inr s1 \<and> (zi_val s1 AND 1 = 0 \<longleftrightarrow> \<not> final) \<and> drop_bit 1 (zi_val s1) AND 3 = block_type b \<and>
    at_bits mem base pinend (zlib_skip 3 s1) (body_bits (pos + 3) b @ bs)"
proof -
  let ?t = "bits_of 2 (block_type b)"
  let ?bs = "body_bits (pos + 3) b @ bs"
  obtain s1 where s1: "elf_fetch_bits mem base pinend s = Inr s1" "15 \<le> zi_bits s1" "at_bits mem base pinend s1 ([final] @ ?t @ ?bs)"
    using fetch_at [OF s l] by (auto simp: block_bits_def)
  have "zlib_low 1 s1 = of_bool final"
    using skip_at(3) [OF s1(3)] s1(2) by simp
  then have f1: "zi_val s1 AND 1 = 0 \<longleftrightarrow> \<not> final"
    by (simp add: zlib_low_def)
  have "block_type b < 2 ^ 2"
    by (cases b) simp_all
  then have "zlib_low 2 (zlib_skip 1 s1) = block_type b"
    using field_at [OF s1(3), of 1] s1(2) by simp
  then have f2: "drop_bit 1 (zi_val s1) AND 3 = block_type b"
    by (simp add: zlib_low_def zlib_skip_def)
  have f3: "at_bits mem base pinend (zlib_skip 3 s1) ?bs"
    using skip_at(1) [of mem base pinend s1 "[final] @ ?t" ?bs] s1(2,3) by simp
  show ?thesis
    by (intro exI [of _ s1] conjI s1(1) f1 f2 f3)
qed

lemma block_longer: "length out \<le> length (expand_block out b)"
  by (cases b) (simp_all add: expand_longer)

lemma blocks_longer: "length out \<le> length (expand_blocks out bs)"
proof (induction bs arbitrary: out)
  case (Cons b bs)
  then show ?case
    using le_trans [OF block_longer [of out b] Cons [of "expand_block out b"]] by simp
qed simp

lemma block_bits_length: "block_ok n b \<Longrightarrow> 10 \<le> length (block_bits pos final b) \<and> 3 + length (body_bits (pos + 3) b) = length (block_bits pos final b)"
proof -
  assume "block_ok n b"
  moreover have "fixed_codes ! 256 = 7"
    using fixed_codes_nth [of 256] by simp
  ultimately show ?thesis
    by (cases b) (auto simp: block_bits_def length_coded_bits header_bits_def)
qed

lemma blocks_at:
  assumes room: "32 \<le> length chk" and sizes: "sout < 2 ^ 32" "pinend < 2 ^ 32"
  shows "blocks \<noteq> [] \<Longrightarrow> blocks_ok out blocks \<Longrightarrow> length (expand_blocks out blocks) \<le> sout \<Longrightarrow> 316 \<le> length work \<Longrightarrow>
    length (blocks_bits pos blocks) < fuel \<Longrightarrow> 8 dvd pos + length (blocks_bits pos blocks @ chk) \<Longrightarrow>
    at_bits mem base pinend s (blocks_bits pos blocks @ chk) \<Longrightarrow>
    \<exists>s' work'. zlib_blocks mem base pinend sout fuel s work out = Inr (s', work', expand_blocks out blocks) \<and> at_bits mem base pinend s' chk"
proof (induction blocks arbitrary: pos out fuel s work)
  case (Cons b bs)
  let ?final = "bs = []"
  let ?n = "length (block_bits pos ?final b)"
  let ?chk = "blocks_bits (pos + ?n) bs @ chk"
  obtain f where f: "fuel = Suc f"
    using Cons.prems(5) by (cases fuel) simp_all
  have ok: "block_ok (length out) b" "?final \<longrightarrow> 7 \<le> block_end b" "blocks_ok (expand_block out b) bs"
    using Cons.prems(2) by simp_all
  note n = block_bits_length [OF ok(1), of pos ?final]
  have bs: "?final \<or> 10 \<le> length (blocks_bits (pos + ?n) bs)"
  proof (cases bs)
    case (Cons b' bs')
    then show ?thesis
      using block_bits_length [of "length (expand_block out b)" b' "pos + ?n" "bs' = []"] ok(3) by simp
  qed simp
  have r: "32 \<le> length ?chk" "39 \<le> block_end b + length ?chk"
    using room ok(2) bs by auto
  obtain s1 where s1: "elf_fetch_bits mem base pinend s = Inr s1" "zi_val s1 AND 1 = 0 \<longleftrightarrow> \<not> ?final" "drop_bit 1 (zi_val s1) AND 3 = block_type b"
    "at_bits mem base pinend (zlib_skip 3 s1) (body_bits (pos + 3) b @ ?chk)"
    using block_start [of mem base pinend s pos ?final b ?chk] Cons.prems(7) n r by auto
  have "pos + 3 + length (body_bits (pos + 3) b @ ?chk) = pos + length (blocks_bits pos (b # bs) @ chk)"
    using n by simp
  then have "8 dvd pos + 3 + length (body_bits (pos + 3) b @ ?chk)"
    using Cons.prems(6) by (simp only:)
  moreover have "length (expand_block out b) \<le> sout"
    using Cons.prems(3) blocks_longer [of "expand_block out b" bs] by simp
  moreover have "length (body_bits (pos + 3) b) \<le> f"
    using Cons.prems(5) n f by simp
  ultimately obtain s2 work2 where s2: "zlib_block mem base pinend sout f (block_type b) (zlib_skip 3 s1) work out = Inr (s2, work2, expand_block out b)"
    "at_bits mem base pinend s2 ?chk" "length work2 = length work"
    using block_at [OF ok(1) s1(4) Cons.prems(4) r _ _ sizes] by blast
  show ?case
  proof (cases ?final)
    case True
    then show ?thesis
      using s1(1-3) s2 by (simp add: f)
  next
    case False
    have "length (blocks_bits (pos + ?n) bs) < f" "8 dvd pos + ?n + length (blocks_bits (pos + ?n) bs @ chk)"
      using Cons.prems(5,6) n f by (simp_all add: ac_simps)
    then show ?thesis
      using Cons.IH [OF False ok(3), of work2 "pos + ?n" f s2] Cons.prems(3,4) s1(1-3) s2 False by (simp add: f)
  qed
qed simp


section \<open>Streams\<close>

text \<open>The two bytes in front: compression method, window size, no dictionary and the check bits.\<close>

definition header_bytes_ok :: "u8 \<Rightarrow> u8 \<Rightarrow> bool" where
  "header_bytes_ok cmf flg \<longleftrightarrow>
     cmf AND 0xf = 8 \<and> drop_bit 4 cmf \<le> 7 \<and> flg AND 0x20 = 0 \<and> (push_bit 8 (unat cmf) OR unat flg) mod 31 = 0"

lemma header_at:
  assumes "header_bytes_ok cmf flg" "3 \<le> length body" "length body + 2 = pinend"
  shows "\<exists>s. zlib_header (cmf # flg # body @ after) base 0 = Inr s \<and> at_bits (cmf # flg # body @ after) base pinend s (byte_bits body)"
proof -
  let ?mem = "cmf # flg # body @ after"
  obtain s where s: "zlib_align ?mem base \<lparr>zi_pin = 2, zi_val = 0, zi_bits = 0\<rparr> = Inr s" "reader_ok base s" "zi_pin s \<le> pinend"
    "rest ?mem pinend s = byte_bits (take (pinend - 2) (drop 2 ?mem))"
    using align_start_rest [of 2 pinend ?mem base] assms(2,3) by auto
  have "take (pinend - 2) (drop 2 ?mem) = body"
    using assms(3) by (simp add: drop_Cons' flip: assms(3))
  moreover have "take pinend ?mem = cmf # flg # body"
    by (simp add: take_Cons' flip: assms(3))
  then have "suffix (byte_bits body) (byte_bits (take pinend ?mem))"
    by (simp add: suffix_def)
  ultimately have "at_bits ?mem base pinend s (byte_bits body)"
    using s assms(3) by (simp add: at_bits_def)
  moreover have "zlib_header ?mem base 0 = Inr s"
    using assms(1) s(1) by (simp add: zlib_header_def header_bytes_ok_def z_at_def not_less numeral_2_eq_2)
  ultimately show ?thesis
    by blast
qed



text \<open>
  C38: When the last block is a stored block that reaches to the end of the input, so that the checksum is missing, and the
  end of the input is not aligned, the decompressor reads past the end of its input: after the
  copy it aligns the input pointer by reading more bytes.
\<close>

theorem stored_block_overread:
  assumes "header_bytes_ok cmf flg" and "byte_bits body = block_bits 0 True (Stored d)" "length d < 2 ^ 16" "length d \<le> sout" "sout < 2 ^ 32"
    and "(base + length (cmf # flg # body)) mod 4 \<noteq> 0"
  shows "elf_zlib_inflate (cmf # flg # body) base (length (cmf # flg # body)) work sout = Inl (Stop OutOfBounds)"
proof -
  let ?mem = "cmf # flg # body"
  define pinend where "pinend = length ?mem"
  have len: "length body = 5 + length d"
    using arg_cong [OF assms(2), of length] by (simp add: block_bits_def)
  obtain s where s: "zlib_header ?mem base 0 = Inr s" "at_bits ?mem base pinend s (block_bits 0 True (Stored d) @ [])"
    using header_at [OF assms(1), of body pinend "[]" base] len assms(2) by (auto simp: pinend_def)
  have "39 \<le> length (block_bits 0 True (Stored d) @ [])"
    using len arg_cong [OF assms(2), of length] by simp
  then obtain s1 where s1: "elf_fetch_bits ?mem base pinend s = Inr s1" "drop_bit 1 (zi_val s1) AND 3 = 0"
    "at_bits ?mem base pinend (zlib_skip 3 s1) (body_bits 3 (Stored d) @ [])"
    using block_start [OF s(2)] by auto
  have small: "pinend < 2 ^ 32"
    using len assms(3) by (simp add: pinend_def)
  obtain pin where pin: "zlib_stored ?mem base pinend sout (zlib_skip 3 s1) [] =
      bind_res (zlib_align ?mem base \<lparr>zi_pin = pin, zi_val = 0, zi_bits = 0\<rparr>) (\<lambda>s'. Inr (s', d))" "pin \<le> pinend" "8 * (pinend - pin) = length ([] :: bool list)"
    using stored_run [of ?mem base pinend "zlib_skip 3 s1" "replicate ((8 - 3 mod 8) mod 8) False" d "[]" "[]" sout] s1(3) assms(3-5) small by auto
  have "pin = pinend"
    using pin(2,3) by simp
  then have "zlib_align ?mem base \<lparr>zi_pin = pin, zi_val = 0, zi_bits = 0\<rparr> = Inl (Stop OutOfBounds)"
    using assms(6) by (subst zlib_align.simps) (simp add: z_at_def pinend_def)
  then have stop: "zlib_block ?mem base pinend sout fuel 0 (zlib_skip 3 s1) work [] = Inl (Stop OutOfBounds)" for fuel
    using pin(1) by (simp add: zlib_block_def)
  obtain fuel where "zlib_fuel pinend = Suc (Suc fuel)"
    by (simp add: zlib_fuel_def numeral_eq_Suc)
  then show ?thesis
    using s(1) s1(1,2) stop len unfolding elf_zlib_inflate_def by (simp add: pinend_def)
qed

text \<open>A stored block with the letter a and a block that repeats it four times.\<close>

definition example_blocks :: "block list" where
  "example_blocks = [Stored [0x61], Fixed [Copy 4 1]]"

definition example_body :: "u8 list" where
  "example_body = [0x00, 0x01, 0x00, 0xfe, 0xff, 0x61, 0x03, 0x01, 0x00]"

lemma bits_of_numeral: "bits_of (numeral k) v = odd v # bits_of (pred_numeral k) (v div 2)"
  unfolding numeral_eq_Suc [of k] by (rule bits_of_Suc)

lemma bits_of_1: "bits_of (Suc 0) v = [odd v]"
  by (simp add: bits_of_def bit_0)

lemma example_symbols:
  "symbol_bits fixed_codes 256 = [False, False, False, False, False, False, False]"
  "symbol_bits fixed_codes 258 = [False, False, False, False, False, True, False]"
  "symbol_bits fixed_dist_codes 0 = [False, False, False, False, False]"
proof -
  have "first_code fixed_dist_codes 5 = 0"
    by (simp add: numeral_eq_Suc values_of_def fixed_dist_codes_def filter_empty_conv)
  then have "huff_code fixed_dist_codes 0 = 0" "fixed_dist_codes ! 0 = 5"
    by (simp_all add: huff_code_def fixed_dist_codes_def)
  then show "symbol_bits fixed_dist_codes 0 = [False, False, False, False, False]"
    by (simp add: symbol_bits_def bits_of_numeral bits_of_1)
qed (simp_all add: symbol_bits_def fixed_huff_code fixed_codes_nth bits_of_numeral bits_of_1)

lemma example_index: "len_index 4 = 1" "dist_index 1 = 0"
  by (simp_all add: len_index_def dist_index_def len_base_def dist_base_def)

lemma example_bits: "byte_bits example_body = blocks_bits 0 example_blocks @ [False, False]"
proof -
  have "replicate 5 False = [False, False, False, False, False]"
    by (simp add: numeral_eq_Suc)
  then show ?thesis
    by (simp add: example_body_def example_blocks_def block_bits_def coded_bits_def example_index [simplified] example_symbols
        len_extra_def dist_extra_def bits_of_numeral bits_of_1)
qed

lemma example_data: "expand_blocks [] example_blocks = [0x61, 0x61, 0x61, 0x61, 0x61]"
  by (simp add: example_blocks_def numeral_eq_Suc)

lemma example_ok: "blocks_ok [] example_blocks"
  by (simp add: example_blocks_def example_index [simplified] coded_def fixed_codes_nth fixed_codes_length fixed_dist_codes_def)

lemma sums_step:
  "(a + unat x) mod 65521 = c \<Longrightarrow> (b + c) mod 65521 = d \<Longrightarrow> adler32_sums (c, d) xs = r \<Longrightarrow> adler32_sums (a, b) (x # xs) = r"
  by (simp add: Let_def)

lemma example_sum: "adler32 [0x61, 0x61, 0x61, 0x61, 0x61] = 95683046"
proof -
  have "adler32_sums (1, 0) [0x61, 0x61, 0x61, 0x61, 0x61] = (486, 1460)"
    by (rule sums_step [of _ _ 98 _ 98], simp, simp, rule sums_step [of _ _ 195 _ 293], simp, simp, rule sums_step [of _ _ 292 _ 585], simp, simp,
        rule sums_step [of _ _ 389 _ 974], simp, simp, rule sums_step [of _ _ 486 _ 1460]) simp_all
  then show ?thesis
    unfolding adler32_def by (simp only: Let_def prod.case)
qed

theorem stored_block_overread_witness:
  "elf_zlib_inflate (0x78 # 0x9c # [0x01, 0x01, 0x00, 0xfe, 0xff, 0x61]) 1 (length [0x78 :: u8, 0x9c, 0x01, 0x01, 0x00, 0xfe, 0xff, 0x61]) (replicate 316 0) 1
   = Inl (Stop OutOfBounds)"
proof -
  have "header_bytes_ok 0x78 0x9c"
    by (simp add: header_bytes_ok_def push_bit_eq_mult)
  moreover have "byte_bits [0x01, 0x01, 0x00, 0xfe, 0xff, 0x61] = block_bits 0 True (Stored [0x61])"
    by (simp add: block_bits_def bits_of_numeral bits_of_1) (simp add: numeral_eq_Suc)
  ultimately show ?thesis
    using stored_block_overread [of "0x78" "0x9c" "[0x01, 0x01, 0x00, 0xfe, 0xff, 0x61]" "[0x61]" 1 1 "replicate 316 0"] by simp
qed


end
