(* ===== verification/Rand.thy ===== *)
theory Rand
  imports Prelude "HOL-Library.Signed_Division"
begin

text \<open>
  \<^verbatim>\<open>src/rand.c\<close>: a linear congruential generator that avoids products of more than 31 bits.
\<close>

section \<open>Signed 32-bit arithmetic\<close>

text \<open>Signed arithmetic must not overflow; \<^verbatim>\<open>/\<close> and \<^verbatim>\<open>%\<close> round towards zero.\<close>

definition c_int :: "int \<Rightarrow> int res" where
  "c_int x = (if - (2 ^ 31) \<le> x \<and> x < 2 ^ 31 then Inr x else Inl (Assertion ''signed overflow''))"

text \<open>The conversion of an unsigned number to \<^verbatim>\<open>int32_t\<close>.\<close>

definition to_int32 :: "int \<Rightarrow> int" where
  "to_int32 x = (x + 2 ^ 31) mod 2 ^ 32 - 2 ^ 31"

section \<open>The generator\<close>

text \<open>The value and the new seed.\<close>

definition usfstl_rand :: "int \<Rightarrow> (int \<times> int) res" where
  "usfstl_rand seed =
     (let hi = seed sdiv 127773;
          lo = seed smod 127773
      in bind_res (c_int (16807 * lo)) (\<lambda>a.
         bind_res (c_int (2836 * hi)) (\<lambda>b.
         bind_res (c_int (a - b)) (\<lambda>x.
         bind_res (if x < 0 then c_int (x + 0x7fffffff) else Inr x) (\<lambda>x.
         bind_res (c_int (x - 1)) (\<lambda>r.
         Inr (r, x)))))))"

definition usfstl_rand_range :: "int \<Rightarrow> int \<Rightarrow> int \<Rightarrow> (int \<times> int) res" where
  "usfstl_rand_range lower upper seed =
     usfstl_assert (lower < upper) ''min < max''
       (bind_res (usfstl_rand seed) (\<lambda>(r, seed).
        bind_res (c_int (upper - lower)) (\<lambda>d.
        bind_res (c_int (d + 1)) (\<lambda>d.
        Inr (to_int32 ((r mod 2 ^ 32) mod (d mod 2 ^ 32) + lower), seed)))))"

section \<open>The generator is that of Park and Miller\<close>

lemma schrage:
  fixes seed :: int
  assumes "0 \<le> seed"
  shows "16807 * seed = (16807 * (seed mod 127773) - 2836 * (seed div 127773)) + (seed div 127773) * 0x7fffffff"
proof -
  have "seed = 127773 * (seed div 127773) + seed mod 127773"
    by simp
  then show ?thesis
    by linarith
qed

lemma not_multiple:
  fixes seed :: int
  assumes "1 \<le> seed" "seed \<le> 0x7ffffffe"
  shows "16807 * seed mod 0x7fffffff \<noteq> 0"
proof
  assume "16807 * seed mod 0x7fffffff = 0"
  then have "0x7fffffff dvd 16807 * seed"
    by auto
  moreover have "coprime (0x7fffffff :: int) 16807"
    by code_simp
  ultimately have "0x7fffffff dvd seed"
    by (simp add: coprime_dvd_mult_right_iff)
  then show False
    using assms zdvd_imp_le [of "0x7fffffff" seed] by linarith
qed

lemma rand_spec:
  assumes "1 \<le> seed" "seed \<le> 0x7ffffffe"
  defines "x \<equiv> 16807 * seed mod 0x7fffffff"
  shows "usfstl_rand seed = Inr (x - 1, x)" and "1 \<le> x" and "x \<le> 0x7ffffffe"
proof -
  define hi lo where "hi = seed div 127773" "lo = seed mod 127773"
  have c: "seed sdiv 127773 = hi" "seed smod 127773 = lo"
    using assms(1) by (simp_all add: hi_lo_def signed_divide_int_def signed_modulo_int_def sgn_if)
  have b: "0 \<le> hi" "hi \<le> 16807" "0 \<le> lo" "lo < 127773"
    using assms(1,2) unfolding hi_lo_def by (simp_all add: pos_imp_zdiv_nonneg_iff)
  define y where "y = 16807 * lo - 2836 * hi"
  have y: "- 0x7fffffff < y" "y < 0x7fffffff"
    using b by (simp_all add: y_def)
  have eq: "16807 * seed = y + hi * 0x7fffffff"
    using schrage [of seed] assms(1) by (simp add: y_def hi_lo_def)
  have x: "x = (if y < 0 then y + 0x7fffffff else y)"
  proof (cases "y < 0")
    case True
    have e: "16807 * seed = (y + 0x7fffffff) + (hi - 1) * 0x7fffffff"
      using eq by simp
    have "x = (y + 0x7fffffff) mod 0x7fffffff"
      unfolding x_def e by (rule mod_mult_self1)
    also have "\<dots> = y + 0x7fffffff"
      using True y by (intro mod_pos_pos_trivial) simp_all
    finally show ?thesis
      using True by simp
  next
    case False
    then show ?thesis
      using y unfolding x_def eq by (simp only: mod_mult_self1) simp
  qed
  have "x \<noteq> 0"
    unfolding x_def by (rule not_multiple [OF assms(1,2)])
  then show "1 \<le> x" "x \<le> 0x7ffffffe"
    using x y by (auto split: if_splits)
  then show "usfstl_rand seed = Inr (x - 1, x)"
    using b y x c unfolding usfstl_rand_def Let_def by (auto simp: c_int_def y_def)
qed

text \<open>
  C39: For a seed between 1 and \<open>2 ^ 31 - 2\<close>, the generator never overflows 32 bits, and its value and the new seed
  are those of the multiplicative generator with the factor \<open>7 ^ 5\<close> modulo \<open>2 ^ 31 - 1\<close>.
\<close>

theorem rand_is_park_miller:
  assumes "1 \<le> seed" "seed \<le> 2 ^ 31 - 2"
  shows "usfstl_rand seed = Inr (7 ^ 5 * seed mod (2 ^ 31 - 1) - 1, 7 ^ 5 * seed mod (2 ^ 31 - 1))"
  using rand_spec(1) [of seed] assms by simp

theorem rand_is_park_miller_witness: "usfstl_rand 2 = Inr (33613, 33614)"
  using rand_is_park_miller [of 2] by simp

text \<open>The new seed is a good one again, and a value from a range is in the range.\<close>

lemma rand_range_in_range:
  assumes "1 \<le> seed" "seed \<le> 0x7ffffffe" "- (2 ^ 31) \<le> lower" "lower < upper" "upper < 2 ^ 31" "upper - lower < 2 ^ 31 - 1"
  shows "\<exists>v seed'. usfstl_rand_range lower upper seed = Inr (v, seed') \<and> lower \<le> v \<and> v \<le> upper \<and> 1 \<le> seed' \<and> seed' \<le> 0x7ffffffe"
proof -
  define x where "x = 16807 * seed mod 0x7fffffff"
  note x = rand_spec [OF assms(1,2), folded x_def]
  define d where "d = upper - lower + 1"
  have d: "c_int (upper - lower) = Inr (d - 1)" "c_int (d - 1 + 1) = Inr d" "0 < d" "d < 2 ^ 31"
    using assms by (simp_all add: c_int_def d_def)
  define r where "r = (x - 1) mod d"
  have r: "((x - 1) mod 2 ^ 32) mod (d mod 2 ^ 32) = r"
    using x(2,3) d(3,4) by (simp add: r_def)
  have "0 \<le> r" "r < d"
    using d(3) by (simp_all add: r_def)
  then have "to_int32 (r + lower) = r + lower"
    using assms by (simp add: to_int32_def d_def)
  then show ?thesis
    using x d r \<open>0 \<le> r\<close> \<open>r < d\<close> assms(4) by (simp add: usfstl_rand_range_def d_def)
qed

text \<open>With the seed 0 the generator returns -1 for ever.\<close>

lemma rand_seed_zero: "usfstl_rand 0 = Inr (- 1, 0)"
  by (simp add: usfstl_rand_def c_int_def)

end
