(* ===== verification/Spec2Isabelle.thy ===== *)
theory Spec2Isabelle
  imports Sched_Link Wallclock Task Pci Controller_Run Backtrace_Syms Zlib_Roundtrip Rand
begin

text \<open>
  A verification development for \<^bold>\<open>usfstl\<close>, a library for testing and simulating firmware: a job
  scheduler with simulated time, the ways in which the time of several programs is kept in
  step, a main loop, tasks and semaphores, virtual devices behind vhost-user sockets, the
  time controller daemon, and a copy of libbacktrace. The theories are a shallow
  embedding of the C code; paths below are relative to the source tree.

  \<^bold>\<open>Parts of the program and the theories that model them.\<close>

  \<^item> \<^verbatim>\<open>Prelude\<close>: 8 to 64 bit words, the result type \<open>'a res\<close> of code that can abort (failed
    assertions, null pointers, accesses outside of an object, division by zero, fuel), comparison of times that
    wrap around (\<^verbatim>\<open>include/usfstl/sched.h\<close>), numbers as text, and the locales
    \<open>insertion_queue\<close> and \<open>fifo_queue\<close> for ordered insertion.
  \<^item> \<^verbatim>\<open>Lists\<close>: \<^verbatim>\<open>include/usfstl/list.h\<close>, circular lists of entries inside of objects, on a
    store from addresses to entries; refinement to lists of items. Locale \<open>intrusive_list\<close>.
  \<^item> \<^verbatim>\<open>Sched\<close>: \<^verbatim>\<open>src/sched.c\<close>: adding and removing jobs, groups that block jobs, the
    callbacks to whoever keeps the time, and running the next job. Locales \<open>sched_env\<close>
    and \<open>sched_quiet\<close> say what the callbacks promise.
  \<^item> \<^verbatim>\<open>Sched_Link\<close>: \<^verbatim>\<open>usfstl_sched_link\<close> of \<^verbatim>\<open>src/sched.c\<close>: one scheduler driven by another.
  \<^item> \<^verbatim>\<open>Loop\<close>, \<^verbatim>\<open>Wallclock\<close>: \<^verbatim>\<open>src/loop.c\<close> and \<^verbatim>\<open>src/wallclock.c\<close>, the main loop around \<^verbatim>\<open>select\<close> and
    a scheduler that follows the clock of the machine.
  \<^item> \<^verbatim>\<open>Task\<close>: \<^verbatim>\<open>src/task.c\<close>, tasks as jobs, sleeping and semaphores.
  \<^item> \<^verbatim>\<open>Vhost\<close>, \<^verbatim>\<open>Vhost_Queue\<close>, \<^verbatim>\<open>Vhost_Control\<close>: \<^verbatim>\<open>src/vhost.c\<close>, scatter lists and guest
    memory, the virtqueues, and the messages of the control socket.
  \<^item> \<^verbatim>\<open>Pci\<close>: \<^verbatim>\<open>src/pci.c\<close> and \<^verbatim>\<open>include/usfstl/pci.h\<close>, PCI devices on top of vhost-user.
  \<^item> \<^verbatim>\<open>Uds\<close>: \<^verbatim>\<open>src/uds.c\<close>, Unix domain sockets in the main loop.
  \<^item> \<^verbatim>\<open>Schedctrl\<close>: \<^verbatim>\<open>src/schedctrl.c\<close>, a scheduler whose time is kept by a controller, by messages or
    through shared memory.
  \<^item> \<^verbatim>\<open>Controller\<close>, \<^verbatim>\<open>Controller_Inv\<close>, \<^verbatim>\<open>Controller_Run\<close>: \<^verbatim>\<open>control/main.c\<close>, the time controller itself:
    its clients and messages, its invariant, and what a client can rely on. Locales
    \<open>controller_os\<close> and \<open>controller_level\<close> for the operating system and for the loops that wait inside of
    handlers.
  \<^item> \<^verbatim>\<open>Backtrace_Sort\<close>, \<^verbatim>\<open>Backtrace_Syms\<close>: \<^verbatim>\<open>src/dwarf/sort.c\<close> and the symbol tables of
    \<^verbatim>\<open>src/dwarf/elf.c\<close> and \<^verbatim>\<open>src/dwarf/pecoff.c\<close>. Locales \<open>comparator\<close> and \<open>ordered_search\<close>.
  \<^item> \<^verbatim>\<open>Backtrace_Checksum\<close>: CRC-32 and Adler-32 of \<^verbatim>\<open>src/dwarf/elf.c\<close>.
  \<^item> \<^verbatim>\<open>Zlib_Table\<close>, \<^verbatim>\<open>Zlib_Inflate\<close>, \<^verbatim>\<open>Zlib_Fixed\<close>: the zlib decompressor of
    \<^verbatim>\<open>src/dwarf/elf.c\<close>: building Huffman tables, the bit reader and the blocks, and the tables for the
    fixed code. \<^verbatim>\<open>Zlib_Safe\<close> shows that it is safe on arbitrary input. \<^verbatim>\<open>Zlib_Values\<close>,
    \<^verbatim>\<open>Zlib_Header\<close> and \<^verbatim>\<open>Zlib_Roundtrip\<close> define what compressed data stands for (RFC 1950 and
    1951) and show that it is decompressed to that.
  \<^item> \<^verbatim>\<open>Rand\<close>: \<^verbatim>\<open>src/rand.c\<close>, the random number generator.

  \<^bold>\<open>How code becomes definitions.\<close> A structure is a record, an enumeration or a tagged
  message a datatype, and a function of the source one definition of the same name (a suffix or
  prefix avoids a clash). State is passed explicitly; objects that are shared through pointers live in
  a store. What the code calls but does not define (sockets, \<^verbatim>\<open>select\<close>, clocks, memory
  mappings, the callbacks of a user) is an argument, usually a field of a record of
  functions; properties state as hypotheses what they need of it, and their witnesses give a
  concrete instance. Every assertion, null pointer and access outside of an array
  is an outcome of the model, so that a property that gives a result also says that none of
  them happens.

  \<^bold>\<open>Loops and fuel.\<close> Loops over data are structural recursion or have a termination proof. Loops that
  wait for the outside (the main loop, waiting for the controller, nested handlers) take fuel; the properties
  about them prove that a stated amount is enough, or hold for every amount that lets the loop
  end. The zlib decompressor has the fuel \<open>zlib_fuel\<close>, eight passes for each
  byte of input and a constant; that it never runs out is part of the theorem \<open>inflate_safe\<close>.

  \<^bold>\<open>What is shown.\<close> The scheduler keeps its queues sorted and consistent under every
  sequence of calls, runs jobs in order and at their times, and blocking and restoring groups
  is a round trip. Linked schedulers, wall-clock schedulers and clients of the controller resume at exactly the
  requested time. The controller keeps its invariant in every reachable state and grants requests.
  Semaphores hand their count to the right task. Virtqueues are drained in order, replies and
  configuration space accesses are as the protocols say, and the arrays of a
  device keep their sizes whatever the messages say. The backtrace library sorts, searches, checks and
  decompresses what it should. Some properties state what goes wrong: handlers that reach a null pointer or past an
  array, and errors that go unnoticed.

  \<^bold>\<open>Not modelled.\<close>
  \<^item> The rest of libbacktrace: the zstd and lzma decompressors and the reading of ELF and
    PE/COFF headers and sections, the interpretation of DWARF (\<^verbatim>\<open>src/dwarf/dwarf.c\<close>) and its user
    \<^verbatim>\<open>src/dwarf.c\<close>, and the files around memory mappings. They are larger than all that is modelled here.
  \<^item> The wall-clock mode of the time controller (the first loop in \<^verbatim>\<open>main\<close> of \<^verbatim>\<open>control/main.c\<close>), debug
    output and options; the network switch \<^verbatim>\<open>control/net.c\<close>.
  \<^item> Execution contexts, watchdogs, function overriding and the entry code: assembly, signals,
    threads and fibers, whose effect is on the machine state of the process.
  \<^item> Remote procedure calls and tests with several participants: mostly macros that generate
    declarations and stubs, and process handling.
  \<^item> The test runner, printing, options, fuzzing, saving and restoring of data sections, and
    the tests and examples; the \<^verbatim>\<open>uthash\<close> macros; the Python program \<^verbatim>\<open>vlab\<close>.
\<close>

end
